(* ===== verification/Prelude.thy ===== *)
theory Prelude
  imports Complex_Main "HOL-Library.Multiset" "HOL-Library.AList" "HOL-Library.Sublist"
begin

text \<open>
  What the components share: the JavaScript library operations the frontend calls
  (\<open>slice\<close>, \<open>Map\<close>, template-string rendering of integers, \<open>trim\<close>,
  \<open>Math.round\<close>), the contracts (locales) between components, and the collections of
  rewrite rules the component proofs use.
\<close>

named_theorems store_defs \<open>definitions of the store's operations\<close>
named_theorems raft_defs \<open>definitions of the Raft handlers\<close>

section \<open>Array.prototype.slice with a negative start\<close>

text \<open>\<open>xs.slice(-n)\<close> for a positive \<open>n\<close>: the last \<open>n\<close> elements, or all of them.\<close>

definition slice_last :: "nat \<Rightarrow> 'a list \<Rightarrow> 'a list" where
  "slice_last n xs = drop (length xs - n) xs"

lemma length_slice_last [simp]: "length (slice_last n xs) = min n (length xs)"
  by (simp add: slice_last_def)

lemma slice_last_short [simp]: "length xs \<le> n \<Longrightarrow> slice_last n xs = xs"
  by (simp add: slice_last_def)

lemma set_slice_last: "x \<in> set (slice_last n xs) \<Longrightarrow> x \<in> set xs"
  by (auto simp: slice_last_def dest: in_set_dropD)

lemma suffix_slice_last: "suffix (slice_last n xs) xs"
  by (simp add: slice_last_def suffix_drop)

lemma sorted_wrt_slice_last: "sorted_wrt r xs \<Longrightarrow> sorted_wrt r (slice_last n xs)"
  by (simp add: slice_last_def sorted_wrt_drop)

text \<open>Cutting twice is cutting once: what a bounded log keeps does not depend on when it was cut.\<close>

lemma slice_last_append: "slice_last n (slice_last n xs @ ys) = slice_last n (xs @ ys)"
proof (cases "length xs \<le> n")
  case True
  then show ?thesis by simp
next
  case False
  then show ?thesis
    by (cases "length ys \<le> n") (simp_all add: slice_last_def add.commute)
qed

section \<open>JavaScript Map\<close>

text \<open>
  A \<open>Map\<close> iterates in the order in which its keys were first set, so it is an association
  list: \<open>m.get(k)\<close> is \<^const>\<open>map_of\<close>, \<open>m.set(k, v)\<close> is
  \<^const>\<open>AList.update\<close>, which replaces the value in place or appends a new key.
\<close>

abbreviation map_set :: "'k \<Rightarrow> 'v \<Rightarrow> ('k \<times> 'v) list \<Rightarrow> ('k \<times> 'v) list" where
  "map_set \<equiv> AList.update"

text \<open>\<open>new Map(entries)\<close>: the entries set one after the other.\<close>

definition js_map_of :: "('k \<times> 'v) list \<Rightarrow> ('k \<times> 'v) list" where
  "js_map_of es = fold (\<lambda>(k, v) m. map_set k v m) es []"

lemma map_of_fold_set:
  "map_of (fold (\<lambda>(k, v) m. map_set k v m) es m) = map_of m ++ map_of (rev es)"
proof (induction es arbitrary: m)
  case Nil
  then show ?case by simp
next
  case (Cons e es)
  then show ?case
    by (cases e) (simp add: update_conv' map_add_def fun_eq_iff split: option.split)
qed

lemma map_of_js_map_of: "map_of (js_map_of es) = map_of (rev es)"
  by (simp add: js_map_of_def map_of_fold_set)

lemma map_of_eqI_rev: "distinct (map fst es) \<Longrightarrow> map_of (rev es) = map_of es"
  by (rule map_of_eqI) (auto simp: rev_map [symmetric] intro!: map_of_is_SomeI dest: map_of_SomeD)

lemma map_of_js_map_of_distinct: "distinct (map fst es) \<Longrightarrow> map_of (js_map_of es) = map_of es"
  by (simp add: map_of_js_map_of map_of_eqI_rev)

lemma map_of_index:
  assumes "distinct (map f xs)"
  shows "map_of (map (\<lambda>x. (f x, x)) xs) k = (case filter (\<lambda>x. f x = k) xs of [] \<Rightarrow> None | x # _ \<Rightarrow> Some x)"
  by (induction xs) auto

lemma map_of_indexI:
  assumes "distinct (map f xs)" and "x \<in> set xs"
  shows "map_of (map (\<lambda>x. (f x, x)) xs) (f x) = Some x"
proof -
  have "distinct (map fst (map (\<lambda>x. (f x, x)) xs))"
    using assms(1) by (simp add: comp_def)
  then show ?thesis using assms(2) by (auto intro: map_of_is_SomeI)
qed

lemma map_of_indexD: "map_of (map (\<lambda>x. (f x, x)) xs) k = Some y \<Longrightarrow> f y = k \<and> y \<in> set xs"
  by (auto dest: map_of_SomeD)

section \<open>Integers in template strings\<close>

text \<open>\<open>`${n}`\<close> for an integer below \<open>10^21\<close> in magnitude: decimal digits, a minus sign.\<close>

definition digit :: "nat \<Rightarrow> char" where
  "digit d = char_of (48 + d)"

fun nat_str :: "nat \<Rightarrow> string" where
  "nat_str n = (if n < 10 then [digit n] else nat_str (n div 10) @ [digit (n mod 10)])"

declare nat_str.simps [simp del]

definition int_str :: "int \<Rightarrow> string" where
  "int_str i = (if i < 0 then CHR ''-'' # nat_str (nat (- i)) else nat_str (nat i))"

lemma digit_inject: "a < 10 \<Longrightarrow> b < 10 \<Longrightarrow> digit a = digit b \<longleftrightarrow> a = b"
  by (auto simp: digit_def dest!: arg_cong [where f = "of_char :: char \<Rightarrow> nat"])

lemma of_char_digit: "a < 10 \<Longrightarrow> (of_char (digit a) :: nat) = 48 + a"
  by (simp add: digit_def)

lemma nat_str_nonempty [simp]: "nat_str n \<noteq> []"
  by (subst nat_str.simps) simp

lemma nat_str_chars: "c \<in> set (nat_str n) \<Longrightarrow> 48 \<le> (of_char c :: nat) \<and> (of_char c :: nat) < 58"
proof (induction n rule: nat_str.induct)
  case (1 n)
  then show ?case
    by (subst (asm) (2) nat_str.simps) (auto simp: of_char_digit split: if_splits)
qed

lemma nat_str_inject: "nat_str a = nat_str b \<Longrightarrow> a = b"
proof (induction a arbitrary: b rule: nat_str.induct)
  case (1 a)
  show ?case
  proof (cases "a < 10 \<or> b < 10")
    case True
    with "1.prems" show ?thesis
      by (auto simp: nat_str.simps [of a] nat_str.simps [of b] digit_inject
          dest: sym [where s = "[]"] split: if_splits)
  next
    case False
    with "1.prems" have "nat_str (a div 10) = nat_str (b div 10)" and "a mod 10 = b mod 10"
      by (auto simp: nat_str.simps [of a] nat_str.simps [of b] digit_inject)
    with False "1.IH" have "a div 10 = b div 10" by simp
    with \<open>a mod 10 = b mod 10\<close> show ?thesis by (metis div_mult_mod_eq)
  qed
qed

lemma int_str_chars: "c \<in> set (int_str i) \<Longrightarrow> c \<noteq> CHR ''|''"
  by (auto simp: int_str_def dest!: nat_str_chars split: if_splits)

lemma int_str_inject: "int_str a = int_str b \<longleftrightarrow> a = b"
proof
  assume eq: "int_str a = int_str b"
  have minus: "nat_str n \<noteq> CHR ''-'' # cs" for n cs
    using nat_str_chars [of "CHR ''-''" n] by auto
  from eq show "a = b"
    by (auto simp: int_str_def minus minus [symmetric] dest!: nat_str_inject split: if_splits)
qed simp

text \<open>A separator that does not occur before it splits a string in one way only.\<close>

lemma append_sep_inject:
  assumes "c \<notin> set xs" and "c \<notin> set xs'" and "xs @ c # ys = xs' @ c # ys'"
  shows "xs = xs' \<and> ys = ys'"
proof -
  have "takeWhile (\<lambda>d. d \<noteq> c) (xs @ c # ys) = xs" "takeWhile (\<lambda>d. d \<noteq> c) (xs' @ c # ys') = xs'"
    using assms(1,2) by (auto simp: takeWhile_append)
  with assms(3) show ?thesis by simp
qed

lemma map_slice_last: "map f (slice_last n xs) = slice_last n (map f xs)"
  by (simp add: slice_last_def drop_map)

section \<open>Counting\<close>

lemma length_filter_le_1:
  assumes "\<And>i j. i < length xs \<Longrightarrow> j < length xs \<Longrightarrow> P (xs ! i) \<Longrightarrow> P (xs ! j) \<Longrightarrow> i = j"
  shows "length (filter P xs) \<le> 1"
proof -
  have "card {i. i < length xs \<and> P (xs ! i)} \<le> Suc 0"
    using assms by (subst card_le_Suc0_iff_eq) auto
  then show ?thesis by (simp add: length_filter_conv_card)
qed

section \<open>State machines and their invariants\<close>

text \<open>The states reachable from the initial ones by steps.\<close>

inductive reach :: "('s \<Rightarrow> bool) \<Rightarrow> ('s \<Rightarrow> 's \<Rightarrow> bool) \<Rightarrow> 's \<Rightarrow> bool"
  for init :: "'s \<Rightarrow> bool" and step :: "'s \<Rightarrow> 's \<Rightarrow> bool" where
  reach_init: "init s \<Longrightarrow> reach init step s"
| reach_step: "reach init step s \<Longrightarrow> step s t \<Longrightarrow> reach init step t"

text \<open>The contract of an inductive invariant.\<close>

locale invariant_system =
  fixes init :: "'s \<Rightarrow> bool" and step :: "'s \<Rightarrow> 's \<Rightarrow> bool" and inv :: "'s \<Rightarrow> bool"
  assumes inv_init: "init s \<Longrightarrow> inv s"
    and inv_step: "inv s \<Longrightarrow> step s t \<Longrightarrow> inv t"
begin

lemma reach_inv: "reach init step s \<Longrightarrow> inv s"
  by (induction rule: reach.induct) (auto intro: inv_init inv_step)

end

text \<open>A property that is inductive where another invariant is known.\<close>

locale relative_invariant = base: invariant_system init step base
  for init :: "'s \<Rightarrow> bool" and step :: "'s \<Rightarrow> 's \<Rightarrow> bool" and base :: "'s \<Rightarrow> bool" +
  fixes inv :: "'s \<Rightarrow> bool"
  assumes rel_init: "init s \<Longrightarrow> inv s"
    and rel_step: "base s \<Longrightarrow> inv s \<Longrightarrow> step s t \<Longrightarrow> inv t"

sublocale relative_invariant \<subseteq> both: invariant_system init step "\<lambda>s. base s \<and> inv s"
  by unfold_locales (auto intro: rel_init rel_step base.inv_init base.inv_step)

end
