(* ===== verification/Cluster_Store.thy ===== *)
theory Cluster_Store
  imports Prelude
begin

text \<open>
  The frontend's global state, \<open>frontend/src/store/clusterStore.js\<close>: the cluster
  snapshot last received, the derived event log, the pulse tokens of the node cards, the
  language preference with its \<open>localStorage\<close> copy, and the fault workflow. The
  module-level counters \<open>nextEventId\<close> and \<open>nextPulseSeq\<close> are fields of the state;
  the wall clock (\<open>nowStamp\<close>) is an argument of the operations that read it. JavaScript
  integers are \<open>int\<close> (\<open>nat\<close> for the two counters, which only grow from 0 and 1).
\<close>

section \<open>Data\<close>

text \<open>A log entry as it is received, and with the flag the store adds (\<open>{...entry, committed}\<close>).\<close>

record wire_entry =
  e_index :: int
  e_term :: int
  e_command :: string

record view_entry = wire_entry +
  e_committed :: bool

text \<open>
  A node as it is received: \<open>votedFor\<close> and \<open>log\<close> may be missing or null (\<open>None\<close>).
  The store keeps the same fields, with a pulse token and the flagged log.
\<close>

record node_base =
  n_id :: int
  n_role :: string
  n_term :: int
  n_alive :: bool
  n_votedFor :: "int option"
  n_commitIndex :: int
  n_lastApplied :: int

record wire_node = node_base +
  w_log :: "wire_entry list option"

record view_node = node_base +
  n_pulseSeq :: nat
  n_log :: "view_entry list"

text \<open>An RPC in flight.\<close>

record rpc =
  m_from :: int
  m_to :: int
  m_type :: string
  m_term :: int

text \<open>The payload of a \<open>STATE_UPDATE\<close>: each field is an array or it is not (\<open>None\<close>).\<close>

record payload =
  p_nodes :: "wire_node list option"
  p_inFlight :: "rpc list option"

datatype level = LNormal | LActive | LWarn

record event =
  ev_id :: nat
  ev_time :: string
  ev_from :: int
  ev_to :: int
  ev_type :: string
  ev_term :: int
  ev_level :: level

datatype ws_status = Connecting | Connected | Reconnecting

datatype lang = En | Zh

datatype action_mode = MCmd | MKill | MRestart | MHeal | MPartitionSelect | MPartitionConfirm

record store =
  nodes :: "view_node list"
  inFlight :: "rpc list"
  eventLogs :: "event list"
  selectedNodeId :: "int option"
  wsStatus :: ws_status
  lang :: lang
  eventLogOpen :: bool
  actionMode :: "action_mode option"
  partitionGroupA :: "int list"
  activePartitionGroups :: "int list list"
  sendFault_set :: bool
  sendClientCommand_set :: bool
  nextEventId :: nat
  nextPulseSeq :: nat
  localStorage :: "string \<rightharpoonup> string"

section \<open>Event records\<close>

definition LANG_STORAGE_KEY :: string where
  "LANG_STORAGE_KEY = ''raft-ui-lang''"

text \<open>\<open>makeLog\<close> takes the counter and returns it incremented.\<close>

definition makeLog ::
  "int \<Rightarrow> int \<Rightarrow> string \<Rightarrow> int \<Rightarrow> level \<Rightarrow> string \<Rightarrow> nat \<Rightarrow> event \<times> nat" where
  "makeLog from to eventType tm lvl time k =
     (\<lparr>ev_id = k, ev_time = time, ev_from = from, ev_to = to, ev_type = eventType,
       ev_term = tm, ev_level = lvl\<rparr>, Suc k)"

text \<open>\<open>logs.push(makeLog(...))\<close> on the growing list and the counter.\<close>

definition push_log ::
  "(nat \<Rightarrow> event \<times> nat) \<Rightarrow> event list \<times> nat \<Rightarrow> event list \<times> nat" where
  "push_log mk st = (case mk (snd st) of (e, k) \<Rightarrow> (fst st @ [e], k))"

definition rpcSig :: "rpc \<Rightarrow> string" where
  "rpcSig m = int_str (m_from m) @ ''|'' @ int_str (m_to m) @ ''|'' @ m_type m @ ''|'' @ int_str (m_term m)"

section \<open>RPC events: the difference of two snapshots\<close>

text \<open>\<open>for (const m of prevInFlight)\<close>: how often each signature occurs.\<close>

definition count_sig :: "rpc \<Rightarrow> (string \<times> nat) list \<Rightarrow> (string \<times> nat) list" where
  "count_sig m counts =
     map_set (rpcSig m) ((case map_of counts (rpcSig m) of None \<Rightarrow> 0 | Some c \<Rightarrow> c) + 1) counts"

text \<open>\<open>for (const m of nextInFlight)\<close>: one bucket per signature, holding its first message.\<close>

definition bucket_sig ::
  "rpc \<Rightarrow> (string \<times> rpc \<times> nat) list \<Rightarrow> (string \<times> rpc \<times> nat) list" where
  "bucket_sig m buckets =
     (let sig = rpcSig m;
          b1 = (if map_of buckets sig = None then map_set sig (m, 0) buckets else buckets)
      in case map_of b1 sig of
           None \<Rightarrow> b1
         | Some (msg, c) \<Rightarrow> map_set sig (msg, c + 1) b1)"

text \<open>\<open>for (let i = 0; i < delta; i++)\<close>\<close>

fun push_copies :: "rpc \<Rightarrow> string \<Rightarrow> nat \<Rightarrow> event list \<times> nat \<Rightarrow> event list \<times> nat" where
  "push_copies m time 0 st = st"
| "push_copies m time (Suc d) st =
     push_copies m time d
       (push_log (makeLog (m_from m) (m_to m) (m_type m) (m_term m) LNormal time) st)"

definition emit_bucket ::
  "string \<Rightarrow> (string \<times> nat) list \<Rightarrow> string \<times> rpc \<times> nat \<Rightarrow> event list \<times> nat \<Rightarrow> event list \<times> nat" where
  "emit_bucket time prevCounts b st =
     (case b of (sig, msg, c) \<Rightarrow>
        let prevCount = (case map_of prevCounts sig of None \<Rightarrow> 0 | Some p \<Rightarrow> p);
            delta = int c - int prevCount
        in if delta \<le> 0 then st else push_copies msg time (nat delta) st)"

definition diffRPCLogs :: "string \<Rightarrow> rpc list \<Rightarrow> rpc list \<Rightarrow> nat \<Rightarrow> event list \<times> nat" where
  "diffRPCLogs time prevInFlight nextInFlight k =
     (let prevCounts = fold count_sig prevInFlight [];
          nextBuckets = fold bucket_sig nextInFlight []
      in fold (emit_bucket time prevCounts) nextBuckets ([], k))"

section \<open>State events\<close>

definition role_event :: "string \<Rightarrow> view_node \<Rightarrow> view_node \<Rightarrow> event list \<times> nat \<Rightarrow> event list \<times> nat" where
  "role_event time prev next st =
     (if n_role prev \<noteq> n_role next then
        if n_role next = ''leader'' \<and> n_alive next then
          push_log (makeLog (n_id next) (n_id next) ''LeaderElected'' (n_term next) LActive time) st
        else if n_role next = ''candidate'' \<and> n_alive next then
          push_log (makeLog (n_id next) (n_id next) ''ElectionTimeout'' (n_term next) LWarn time) st
        else
          push_log (makeLog (n_id next) (n_id next) (''Role:'' @ n_role next) (n_term next) LNormal time) st
      else st)"

definition term_event :: "string \<Rightarrow> view_node \<Rightarrow> view_node \<Rightarrow> event list \<times> nat \<Rightarrow> event list \<times> nat" where
  "term_event time prev next st =
     (if n_term next > n_term prev then
        push_log (makeLog (n_id next) (n_id next) ''TermAdvanced'' (n_term next) LNormal time) st
      else st)"

definition alive_event :: "string \<Rightarrow> view_node \<Rightarrow> view_node \<Rightarrow> event list \<times> nat \<Rightarrow> event list \<times> nat" where
  "alive_event time prev next st =
     (if n_alive prev \<and> \<not> n_alive next then
        push_log (makeLog (n_id next) (n_id next) ''NodeCrash'' (n_term next) LWarn time) st
      else if \<not> n_alive prev \<and> n_alive next then
        push_log (makeLog (n_id next) (n_id next) ''NodeRestarted'' (n_term next) LNormal time) st
      else st)"

definition commit_event :: "string \<Rightarrow> view_node \<Rightarrow> view_node \<Rightarrow> event list \<times> nat \<Rightarrow> event list \<times> nat" where
  "commit_event time prev next st =
     (if n_commitIndex next > n_commitIndex prev then
        push_log (makeLog (n_id next) (n_id next) ''Committed'' (n_term next) LActive time) st
      else st)"

text \<open>The body of the loop over \<open>nextNodes\<close>; \<open>continue\<close> for a node not seen before.\<close>

definition derive_node ::
  "string \<Rightarrow> (int \<times> view_node) list \<Rightarrow> view_node \<Rightarrow> event list \<times> nat \<Rightarrow> event list \<times> nat" where
  "derive_node time prevById next st =
     (case map_of prevById (n_id next) of
        None \<Rightarrow> st
      | Some prev \<Rightarrow>
          commit_event time prev next
            (alive_event time prev next
              (term_event time prev next
                (role_event time prev next st))))"

definition deriveStateLogs ::
  "string \<Rightarrow> view_node list \<Rightarrow> view_node list \<Rightarrow> nat \<Rightarrow> event list \<times> nat" where
  "deriveStateLogs time prevNodes nextNodes k =
     (let prevById = js_map_of (map (\<lambda>n. (n_id n, n)) prevNodes)
      in fold (derive_node time prevById) nextNodes ([], k))"

section \<open>Ingesting a snapshot\<close>

definition shouldPulse :: "view_node option \<Rightarrow> wire_node \<Rightarrow> bool" where
  "shouldPulse prevNode nextNode =
     (case prevNode of
        None \<Rightarrow> False
      | Some p \<Rightarrow> n_role p \<noteq> n_role nextNode \<or> n_term p \<noteq> n_term nextNode)"

definition mark_committed :: "int \<Rightarrow> wire_entry \<Rightarrow> view_entry" where
  "mark_committed ci e =
     \<lparr>e_index = e_index e, e_term = e_term e, e_command = e_command e,
      e_committed = (e_index e \<le> ci)\<rparr>"

definition view_of :: "nat \<Rightarrow> wire_node \<Rightarrow> view_node" where
  "view_of p n =
     \<lparr>n_id = n_id n, n_role = n_role n, n_term = n_term n, n_alive = n_alive n,
      n_votedFor = n_votedFor n, n_commitIndex = n_commitIndex n,
      n_lastApplied = n_lastApplied n, n_pulseSeq = p,
      n_log = map (mark_committed (n_commitIndex n)) (case w_log n of None \<Rightarrow> [] | Some l \<Rightarrow> l)\<rparr>"

text \<open>The callback of \<open>rawNodes.map\<close>: it consumes a pulse token when the card is to flash.\<close>

definition ingest_node ::
  "(int \<times> view_node) list \<Rightarrow> wire_node \<Rightarrow> view_node list \<times> nat \<Rightarrow> view_node list \<times> nat" where
  "ingest_node prevById n st =
     (case st of (out, q) \<Rightarrow>
        let prevNode = map_of prevById (n_id n)
        in if shouldPulse prevNode n then (out @ [view_of q n], Suc q)
           else (out @ [view_of (case prevNode of None \<Rightarrow> 0 | Some p \<Rightarrow> n_pulseSeq p) n], q))"

definition ingest_nodes ::
  "view_node list \<Rightarrow> wire_node list \<Rightarrow> nat \<Rightarrow> view_node list \<times> nat" where
  "ingest_nodes prevNodes rawNodes q =
     fold (ingest_node (js_map_of (map (\<lambda>n. (n_id n, n)) prevNodes))) rawNodes ([], q)"

definition raw_nodes :: "payload option \<Rightarrow> wire_node list" where
  "raw_nodes pl = (case pl of None \<Rightarrow> [] | Some p \<Rightarrow> (case p_nodes p of None \<Rightarrow> [] | Some ns \<Rightarrow> ns))"

definition next_in_flight :: "payload option \<Rightarrow> rpc list" where
  "next_in_flight pl =
     (case pl of None \<Rightarrow> []
      | Some p \<Rightarrow> (case p_inFlight p of None \<Rightarrow> [] | Some ms \<Rightarrow> slice_last 256 ms))"

text \<open>\<open>t1\<close> and \<open>t2\<close> are the stamps read by \<open>deriveStateLogs\<close> and \<open>diffRPCLogs\<close>.\<close>

definition applyStateUpdate :: "string \<Rightarrow> string \<Rightarrow> payload option \<Rightarrow> store \<Rightarrow> store" where
  "applyStateUpdate t1 t2 pl s =
     (let nextInFlight = next_in_flight pl;
          (nextNodes, q) = ingest_nodes (nodes s) (raw_nodes pl) (nextPulseSeq s);
          (stateLogs, k1) = (if nodes s \<noteq> [] then deriveStateLogs t1 (nodes s) nextNodes (nextEventId s)
                             else ([], nextEventId s));
          (rpcLogs, k2) = diffRPCLogs t2 (inFlight s) nextInFlight k1;
          freshLogs = stateLogs @ rpcLogs
      in s\<lparr>nodes := nextNodes, inFlight := nextInFlight,
           eventLogs := slice_last 60 (eventLogs s @ freshLogs),
           nextEventId := k2, nextPulseSeq := q\<rparr>)"

section \<open>The other actions\<close>

definition selectNode :: "int option \<Rightarrow> store \<Rightarrow> store" where
  [store_defs]: "selectNode i s = s\<lparr>selectedNodeId := i\<rparr>"

definition lang_str :: "lang \<Rightarrow> string" where
  "lang_str l = (case l of En \<Rightarrow> ''en'' | Zh \<Rightarrow> ''zh'')"

text \<open>The initial value of \<open>lang\<close>, read from the browser's storage.\<close>

definition init_lang :: "(string \<rightharpoonup> string) \<Rightarrow> lang" where
  "init_lang ls = (if ls LANG_STORAGE_KEY = Some ''zh'' then Zh else En)"

definition init_store :: "(string \<rightharpoonup> string) \<Rightarrow> store" where
  "init_store ls =
     \<lparr>nodes = [], inFlight = [], eventLogs = [], selectedNodeId = None, wsStatus = Connecting,
      lang = init_lang ls, eventLogOpen = True, actionMode = None, partitionGroupA = [],
      activePartitionGroups = [], sendFault_set = False, sendClientCommand_set = False,
      nextEventId = 0, nextPulseSeq = 1, localStorage = ls\<rparr>"

definition setLang :: "string \<Rightarrow> store \<Rightarrow> store" where
  [store_defs]: "setLang l s =
     (let nextLang = (if l = ''en'' then En else Zh)
      in s\<lparr>localStorage := (localStorage s)(LANG_STORAGE_KEY \<mapsto> lang_str nextLang), lang := nextLang\<rparr>)"

definition toggleLang :: "store \<Rightarrow> store" where
  [store_defs]: "toggleLang s =
     (let nextLang = (if lang s = En then Zh else En)
      in s\<lparr>localStorage := (localStorage s)(LANG_STORAGE_KEY \<mapsto> lang_str nextLang), lang := nextLang\<rparr>)"

definition toggleEventLog :: "store \<Rightarrow> store" where
  [store_defs]: "toggleEventLog s = s\<lparr>eventLogOpen := \<not> eventLogOpen s\<rparr>"

definition beginAction :: "action_mode option \<Rightarrow> store \<Rightarrow> store" where
  [store_defs]: "beginAction mode s =
     (if mode = Some MPartitionSelect then s\<lparr>actionMode := mode, partitionGroupA := []\<rparr>
      else s\<lparr>actionMode := mode, partitionGroupA := []\<rparr>)"

definition cancelAction :: "store \<Rightarrow> store" where
  [store_defs]: "cancelAction s = s\<lparr>actionMode := None, partitionGroupA := []\<rparr>"

definition togglePartitionGroupANode :: "int \<Rightarrow> store \<Rightarrow> store" where
  [store_defs]: "togglePartitionGroupANode i s =
     (if actionMode s \<noteq> Some MPartitionSelect then s
      else s\<lparr>partitionGroupA :=
             (if i \<in> set (partitionGroupA s) then filter (\<lambda>x. x \<noteq> i) (partitionGroupA s)
              else partitionGroupA s @ [i])\<rparr>)"

definition goPartitionConfirm :: "store \<Rightarrow> store" where
  [store_defs]: "goPartitionConfirm s =
     (if actionMode s = Some MPartitionSelect then s\<lparr>actionMode := Some MPartitionConfirm\<rparr> else s)"

text \<open>
  \<open>groups\<close> is an array or not (\<open>None\<close>), and so is each of its elements.
\<close>

definition setActivePartitionGroups :: "int list option list option \<Rightarrow> store \<Rightarrow> store" where
  [store_defs]: "setActivePartitionGroups groups s =
     (let normalized = (case groups of None \<Rightarrow> [] | Some gs \<Rightarrow> List.map_filter id gs)
      in s\<lparr>activePartitionGroups := normalized\<rparr>)"

definition clearActivePartitionGroups :: "store \<Rightarrow> store" where
  [store_defs]: "clearActivePartitionGroups s = s\<lparr>activePartitionGroups := []\<rparr>"

definition setWsStatus :: "ws_status \<Rightarrow> store \<Rightarrow> store" where
  [store_defs]: "setWsStatus st s = s\<lparr>wsStatus := st\<rparr>"

definition setSendFault :: "bool \<Rightarrow> store \<Rightarrow> store" where
  [store_defs]: "setSendFault present s = s\<lparr>sendFault_set := present\<rparr>"

definition setSendClientCommand :: "bool \<Rightarrow> store \<Rightarrow> store" where
  [store_defs]: "setSendClientCommand present s = s\<lparr>sendClientCommand_set := present\<rparr>"

end
