(* ===== verification/Store_Events.thy ===== *)
theory Store_Events
  imports Cluster_Store
begin

text \<open>
  The event generators of the store. A generator extends the list and the counter it is
  given; its events carry consecutive ids from the counter (\<open>appender\<close>). The RPC events
  are, as a multiset, the messages of the new snapshot that the old one does not account for;
  the state events of a node are given by a reference function on the two views of it.
\<close>

section \<open>Generators append, with consecutive ids\<close>

definition numbered :: "nat \<Rightarrow> event list \<Rightarrow> bool" where
  "numbered k es \<longleftrightarrow> map ev_id es = [k..<k + length es]"

lemma numbered_Nil [simp]: "numbered k []"
  by (simp add: numbered_def)

lemma numbered_append:
  "numbered k xs \<Longrightarrow> numbered (k + length xs) ys \<Longrightarrow> numbered k (xs @ ys)"
  using upt_add_eq_append [of k "k + length xs" "length ys"] by (simp add: numbered_def add.assoc)

lemma numbered_id:
  assumes "numbered k es" and "e \<in> set es"
  shows "k \<le> ev_id e \<and> ev_id e < k + length es"
proof -
  have "set (map ev_id es) = {k..<k + length es}"
    using assms(1) by (simp only: numbered_def set_upt)
  then show ?thesis using assms(2) by auto
qed

lemma numbered_sorted:
  assumes "numbered k es"
  shows "sorted_wrt (\<lambda>a b. ev_id a < ev_id b) es"
proof -
  have "sorted_wrt (<) (map ev_id es)" using assms by (simp add: numbered_def)
  then show ?thesis by (simp add: sorted_wrt_map)
qed

definition appender :: "(event list \<times> nat \<Rightarrow> event list \<times> nat) \<Rightarrow> bool" where
  "appender f \<longleftrightarrow>
     (\<exists>new. (\<forall>l k. f (l, k) = (l @ new k, k + length (new k))) \<and> (\<forall>k. numbered k (new k)))"

lemma appenderI:
  assumes "\<And>l k. f (l, k) = (l @ new k, k + length (new k))" and "\<And>k. numbered k (new k)"
  shows "appender f"
  unfolding appender_def using assms by blast

lemma appenderE:
  assumes "appender f"
  obtains new where "\<And>l k. f (l, k) = (l @ new k, k + length (new k))" and "\<And>k. numbered k (new k)"
  using assms unfolding appender_def by blast

lemma appender_run:
  assumes "appender f"
  shows "numbered k (fst (f ([], k))) \<and> snd (f ([], k)) = k + length (fst (f ([], k)))"
  using assms by (auto elim!: appenderE)

lemma appender_id [intro, simp]: "appender (\<lambda>st. st)"
  by (rule appenderI [where new = "\<lambda>_. []"]) simp_all

lemma appender_comp:
  assumes "appender f" and "appender g"
  shows "appender (\<lambda>st. f (g st))"
proof -
  obtain nf where f: "\<And>l k. f (l, k) = (l @ nf k, k + length (nf k))" "\<And>k. numbered k (nf k)"
    using assms(1) by (rule appenderE) blast
  obtain ng where g: "\<And>l k. g (l, k) = (l @ ng k, k + length (ng k))" "\<And>k. numbered k (ng k)"
    using assms(2) by (rule appenderE) blast
  show ?thesis
    by (rule appenderI [where new = "\<lambda>k. ng k @ nf (k + length (ng k))"])
      (simp_all add: f g numbered_append)
qed

lemma appender_if [intro]: "appender f \<Longrightarrow> appender g \<Longrightarrow> appender (\<lambda>st. if b then f st else g st)"
  by (cases b) simp_all

lemma appender_fold:
  assumes "\<And>x. appender (h x)"
  shows "appender (fold h xs)"
proof (induction xs)
  case Nil
  show ?case using appender_id by (simp add: id_def)
next
  case (Cons x xs)
  have "appender (\<lambda>st. fold h xs (h x st))"
    using Cons.IH assms by (rule appender_comp)
  then show ?case by (simp add: comp_def)
qed

lemma appender_push [intro]: "appender (push_log (makeLog a b ty tm lvl time))"
  by (rule appenderI [where new = "\<lambda>k. [fst (makeLog a b ty tm lvl time k)]"])
    (simp_all add: push_log_def makeLog_def numbered_def)

lemma appender_push_copies [intro]: "appender (push_copies m time d)"
proof (induction d)
  case 0
  show ?case using appender_id by (simp add: push_copies.simps(1) [abs_def])
next
  case (Suc d)
  then show ?case
    using appender_comp [OF Suc appender_push] by (simp add: push_copies.simps(2) [abs_def])
qed

lemma appender_emit_bucket [intro]: "appender (emit_bucket time pc b)"
  by (cases b) (simp add: emit_bucket_def [abs_def] Let_def appender_if appender_push_copies)

lemma appender_role_event [intro]: "appender (role_event time p n)"
  unfolding role_event_def [abs_def] by (intro appender_if appender_push appender_id)

lemma appender_term_event [intro]: "appender (term_event time p n)"
  unfolding term_event_def [abs_def] by (intro appender_if appender_push appender_id)

lemma appender_alive_event [intro]: "appender (alive_event time p n)"
  unfolding alive_event_def [abs_def] by (intro appender_if appender_push appender_id)

lemma appender_commit_event [intro]: "appender (commit_event time p n)"
  unfolding commit_event_def [abs_def] by (intro appender_if appender_push appender_id)

lemma appender_derive_node [intro]: "appender (derive_node time pm n)"
proof (cases "map_of pm (n_id n)")
  case None
  then show ?thesis using appender_id by (simp add: derive_node_def [abs_def])
next
  case (Some p)
  have "appender (\<lambda>st. commit_event time p n (alive_event time p n
      (term_event time p n (role_event time p n st))))"
    by (rule appender_comp [OF appender_commit_event appender_comp [OF appender_alive_event
          appender_comp [OF appender_term_event appender_role_event]]])
  with Some show ?thesis by (simp add: derive_node_def [abs_def])
qed

lemma deriveStateLogs_appends:
  "numbered k (fst (deriveStateLogs t p n k)) \<and>
   snd (deriveStateLogs t p n k) = k + length (fst (deriveStateLogs t p n k))"
  unfolding deriveStateLogs_def Let_def
  by (rule appender_run, rule appender_fold, rule appender_derive_node)

lemma diffRPCLogs_appends:
  "numbered k (fst (diffRPCLogs t p n k)) \<and>
   snd (diffRPCLogs t p n k) = k + length (fst (diffRPCLogs t p n k))"
  unfolding diffRPCLogs_def Let_def
  by (rule appender_run, rule appender_fold, rule appender_emit_bucket)

section \<open>Signatures identify messages\<close>

lemma rpcSig_inject: "rpcSig a = rpcSig b \<longleftrightarrow> a = b"
proof
  assume eq: "rpcSig a = rpcSig b"
  have bar: "CHR ''|'' \<notin> set (int_str i)" for i
    using int_str_chars by blast
  have 1: "m_from a = m_from b \<and>
      int_str (m_to a) @ ''|'' @ m_type a @ ''|'' @ int_str (m_term a) =
      int_str (m_to b) @ ''|'' @ m_type b @ ''|'' @ int_str (m_term b)"
    using append_sep_inject [OF bar bar] eq by (auto simp: rpcSig_def int_str_inject)
  then have 2: "m_to a = m_to b \<and>
      m_type a @ ''|'' @ int_str (m_term a) = m_type b @ ''|'' @ int_str (m_term b)"
    using append_sep_inject [OF bar bar] by (auto simp: int_str_inject)
  then have "rev (m_type a @ ''|'' @ int_str (m_term a)) = rev (m_type b @ ''|'' @ int_str (m_term b))"
    by (simp only:)
  then have "rev (int_str (m_term a)) @ CHR ''|'' # rev (m_type a) =
      rev (int_str (m_term b)) @ CHR ''|'' # rev (m_type b)"
    by (simp del: rev_is_rev_conv)
  then have "m_term a = m_term b \<and> m_type a = m_type b"
    using append_sep_inject [of "CHR ''|''" "rev (int_str (m_term a))" "rev (int_str (m_term b))"] bar
    by (auto simp: int_str_inject)
  with 1 2 show "a = b" by simp
qed simp

lemma inj_rpcSig: "inj rpcSig"
  by (simp add: inj_on_def rpcSig_inject)

lemma count_map_rpcSig: "count_list (map rpcSig ms) (rpcSig m) = count_list ms m"
  by (simp add: count_list_map_conv inj_rpcSig)

section \<open>The RPC difference\<close>

definition default0 :: "nat option \<Rightarrow> nat" where
  "default0 x = (case x of None \<Rightarrow> 0 | Some c \<Rightarrow> c)"

lemma fold_count_sig:
  "default0 (map_of (fold count_sig ms m) s) = default0 (map_of m s) + count_list (map rpcSig ms) s"
  by (induction ms arbitrary: m)
    (auto simp: count_sig_def update_conv' default0_def)

definition bucket_inv :: "rpc list \<Rightarrow> (string \<times> rpc \<times> nat) list \<Rightarrow> bool" where
  "bucket_inv ms bs \<longleftrightarrow> distinct (map fst bs) \<and>
     (\<forall>m. map_of bs (rpcSig m) = (if m \<in> set ms then Some (m, count_list ms m) else None)) \<and>
     (\<forall>s m c. (s, m, c) \<in> set bs \<longrightarrow> s = rpcSig m)"

lemma set_map_set: "distinct (map fst al) \<Longrightarrow> set (map_set k v al) = {(a, b) \<in> set al. a \<noteq> k} \<union> {(k, v)}"
  by (induction al) (auto, force+)

lemma bucket_inv_step:
  assumes "bucket_inv ms bs"
  shows "bucket_inv (ms @ [m]) (bucket_sig m bs)"
proof -
  have *: "bucket_sig m bs = map_set (rpcSig m) (m, count_list ms m + 1) bs"
    using assms by (auto simp: bucket_sig_def bucket_inv_def Let_def update_conv')
  show ?thesis
    unfolding *
    using assms by (auto simp: bucket_inv_def update_conv' distinct_update set_map_set rpcSig_inject)
qed

lemma bucket_inv_fold: "bucket_inv ms (fold bucket_sig ms [])"
  by (induction ms rule: rev_induct) (simp_all add: bucket_inv_step, simp add: bucket_inv_def)

definition rpc_of :: "event \<Rightarrow> rpc" where
  "rpc_of e = \<lparr>m_from = ev_from e, m_to = ev_to e, m_type = ev_type e, m_term = ev_term e\<rparr>"

lemma push_copies_rpcs:
  "mset (map rpc_of (fst (push_copies m time d (l, k)))) = mset (map rpc_of l) + replicate_mset d m"
proof (induction d arbitrary: l k)
  case 0
  then show ?case by simp
next
  case (Suc d)
  have "push_log (makeLog (m_from m) (m_to m) (m_type m) (m_term m) LNormal time) (l, k) =
      (l @ [fst (makeLog (m_from m) (m_to m) (m_type m) (m_term m) LNormal time k)], Suc k)"
    by (simp add: push_log_def makeLog_def)
  then show ?case using Suc by (simp add: makeLog_def rpc_of_def)
qed

lemma fold_emit_rpcs:
  assumes "distinct (map fst bs)" and "\<forall>s m c. (s, m, c) \<in> set bs \<longrightarrow> s = rpcSig m"
  shows "count (mset (map rpc_of (fst (fold (emit_bucket time pc) bs (l, k))))) m =
    count (mset (map rpc_of l)) m +
    (case map_of bs (rpcSig m) of None \<Rightarrow> 0 | Some (m', c) \<Rightarrow> c - default0 (map_of pc (rpcSig m)))"
  using assms
proof (induction bs arbitrary: l k)
  case Nil
  then show ?case by simp
next
  case (Cons b bs)
  obtain s m' c where b: "b = (s, m', c)" by (cases b)
  with Cons.prems have s: "s = rpcSig m'" and new: "map_of bs (rpcSig m') = None"
    by (auto simp: map_of_eq_None_iff)
  obtain l' k' where st: "emit_bucket time pc b (l, k) = (l', k')" by fastforce
  then have l': "mset (map rpc_of l') = mset (map rpc_of l) + replicate_mset (c - default0 (map_of pc s)) m'"
    using push_copies_rpcs [of m' time _ l k]
    by (auto simp: b emit_bucket_def Let_def default0_def nat_diff_distrib' split: if_splits option.splits)
      (metis fst_conv)+
  have "count (mset (map rpc_of (fst (fold (emit_bucket time pc) bs (l', k'))))) m =
    count (mset (map rpc_of l')) m +
    (case map_of bs (rpcSig m) of None \<Rightarrow> 0 | Some (m', c) \<Rightarrow> c - default0 (map_of pc (rpcSig m)))"
    by (rule Cons.IH) (use Cons.prems in auto)
  then show ?case
    using new l' st by (auto simp: b s rpcSig_inject)
qed

lemma diffRPCLogs_count:
  "count (mset (map rpc_of (fst (diffRPCLogs time p n k)))) m = count_list n m - count_list p m"
proof -
  have inv: "bucket_inv n (fold bucket_sig n [])" by (rule bucket_inv_fold)
  have pc: "default0 (map_of (fold count_sig p []) (rpcSig m)) = count_list p m"
    by (simp add: fold_count_sig count_map_rpcSig) (simp add: default0_def)
  show ?thesis
    using inv fold_emit_rpcs [of "fold bucket_sig n []" time "fold count_sig p []" "[]" k m]
    by (simp add: diffRPCLogs_def Let_def bucket_inv_def pc count_notin split: if_splits)
qed

lemma diffRPCLogs_mset:
  "mset (map rpc_of (fst (diffRPCLogs time p n k))) = mset n - mset p"
  by (rule multiset_eqI) (simp only: diffRPCLogs_count [unfolded count_mset] count_diff count_mset)

end
