(* ===== verification/Store_Invariant.thy ===== *)
theory Store_Invariant
  imports Store_Events
begin

text \<open>
  The store as a machine over its actions, and what every reachable store satisfies: the
  bounds of its logs, the ids of the event window, the committed flags, the pulse tokens,
  the agreement of the language with \<open>localStorage\<close>, and the shape of the fault workflow.
\<close>

section \<open>Ingesting nodes\<close>

text \<open>The pulse tokens handed out for a list of nodes, and the counter after it.\<close>

fun tokens :: "(int \<times> view_node) list \<Rightarrow> wire_node list \<Rightarrow> nat \<Rightarrow> nat list" where
  "tokens pm [] q = []"
| "tokens pm (n # ns) q =
     (if shouldPulse (map_of pm (n_id n)) n then q # tokens pm ns (Suc q)
      else (case map_of pm (n_id n) of None \<Rightarrow> 0 | Some p \<Rightarrow> n_pulseSeq p) # tokens pm ns q)"

definition pulses :: "(int \<times> view_node) list \<Rightarrow> wire_node list \<Rightarrow> nat" where
  "pulses pm ns = length (filter (\<lambda>n. shouldPulse (map_of pm (n_id n)) n) ns)"

lemma length_tokens [simp]: "length (tokens pm ns q) = length ns"
  by (induction pm ns q rule: tokens.induct) auto

lemma fold_ingest:
  "fold (ingest_node pm) ns (out, q) = (out @ map2 view_of (tokens pm ns q) ns, q + pulses pm ns)"
  by (induction pm ns q arbitrary: out rule: tokens.induct)
    (auto simp: ingest_node_def pulses_def Let_def)

abbreviation index_of :: "view_node list \<Rightarrow> (int \<times> view_node) list" where
  "index_of ns \<equiv> js_map_of (map (\<lambda>n. (n_id n, n)) ns)"

lemma ingest_nodes_eq:
  "ingest_nodes prev ns q =
     (map2 view_of (tokens (index_of prev) ns q) ns, q + pulses (index_of prev) ns)"
  by (simp add: ingest_nodes_def fold_ingest)

lemma map2_view_of_fields [simp]:
  "length ts = length ns \<Longrightarrow> map n_id (map2 view_of ts ns) = map n_id ns"
  by (induction ts ns rule: list_induct2) (simp_all add: view_of_def)

lemma in_map2_view_of:
  assumes "v \<in> set (map2 view_of ts ns)"
  obtains t n where "t \<in> set ts" and "n \<in> set ns" and "v = view_of t n"
  using assms by (auto dest: set_zip_leftD set_zip_rightD)

lemma index_ofD: "map_of (index_of ns) i = Some v \<Longrightarrow> n_id v = i \<and> v \<in> set ns"
  by (auto simp: map_of_js_map_of dest!: map_of_SomeD)

lemma index_of_distinct:
  "distinct (map n_id ns) \<Longrightarrow> v \<in> set ns \<Longrightarrow> map_of (index_of ns) (n_id v) = Some v"
  by (subst map_of_js_map_of_distinct) (simp_all add: comp_def map_of_indexI)

lemma index_of_None: "map_of (index_of ns) i = None \<longleftrightarrow> i \<notin> n_id ` set ns"
  by (force simp: map_of_js_map_of map_of_eq_None_iff)

lemma view_of_sel [simp]:
  "n_id (view_of t n) = n_id n" "n_role (view_of t n) = n_role n" "n_term (view_of t n) = n_term n"
  "n_alive (view_of t n) = n_alive n" "n_votedFor (view_of t n) = n_votedFor n"
  "n_commitIndex (view_of t n) = n_commitIndex n" "n_lastApplied (view_of t n) = n_lastApplied n"
  "n_pulseSeq (view_of t n) = t"
  by (simp_all add: view_of_def)

section \<open>What applyStateUpdate does, field by field\<close>

definition update_nodes :: "payload option \<Rightarrow> store \<Rightarrow> view_node list" where
  "update_nodes pl s = fst (ingest_nodes (nodes s) (raw_nodes pl) (nextPulseSeq s))"

definition update_state_logs :: "string \<Rightarrow> payload option \<Rightarrow> store \<Rightarrow> event list" where
  "update_state_logs t1 pl s =
     (if nodes s \<noteq> [] then fst (deriveStateLogs t1 (nodes s) (update_nodes pl s) (nextEventId s)) else [])"

definition update_rpc_logs :: "string \<Rightarrow> string \<Rightarrow> payload option \<Rightarrow> store \<Rightarrow> event list" where
  "update_rpc_logs t1 t2 pl s =
     fst (diffRPCLogs t2 (inFlight s) (next_in_flight pl) (nextEventId s + length (update_state_logs t1 pl s)))"

definition update_logs :: "string \<Rightarrow> string \<Rightarrow> payload option \<Rightarrow> store \<Rightarrow> event list" where
  "update_logs t1 t2 pl s = update_state_logs t1 pl s @ update_rpc_logs t1 t2 pl s"

lemma update_state_logs_numbered: "numbered (nextEventId s) (update_state_logs t1 pl s)"
  using deriveStateLogs_appends by (simp add: update_state_logs_def)

lemma update_logs_numbered: "numbered (nextEventId s) (update_logs t1 t2 pl s)"
  unfolding update_logs_def
  by (rule numbered_append [OF update_state_logs_numbered])
    (use diffRPCLogs_appends in \<open>simp add: update_rpc_logs_def\<close>)

lemma applyStateUpdate_eq:
  "applyStateUpdate t1 t2 pl s =
     s\<lparr>nodes := update_nodes pl s, inFlight := next_in_flight pl,
       eventLogs := slice_last 60 (eventLogs s @ update_logs t1 t2 pl s),
       nextEventId := nextEventId s + length (update_logs t1 t2 pl s),
       nextPulseSeq := nextPulseSeq s + pulses (index_of (nodes s)) (raw_nodes pl)\<rparr>"
  using deriveStateLogs_appends diffRPCLogs_appends
  by (simp add: applyStateUpdate_def update_logs_def update_rpc_logs_def update_state_logs_def
      update_nodes_def ingest_nodes_eq Let_def split_beta add.assoc)

section \<open>The store as a machine\<close>

datatype store_action =
    ApplyStateUpdate string string "payload option"
  | SelectNode "int option"
  | SetLang string
  | ToggleLang
  | ToggleEventLog
  | BeginAction "action_mode option"
  | CancelAction
  | TogglePartitionGroupANode int
  | GoPartitionConfirm
  | SetActivePartitionGroups "int list option list option"
  | ClearActivePartitionGroups
  | SetWsStatus ws_status
  | SetSendFault bool
  | SetSendClientCommand bool

fun store_step :: "store_action \<Rightarrow> store \<Rightarrow> store" where
  "store_step (ApplyStateUpdate t1 t2 pl) s = applyStateUpdate t1 t2 pl s"
| "store_step (SelectNode i) s = selectNode i s"
| "store_step (SetLang l) s = setLang l s"
| "store_step ToggleLang s = toggleLang s"
| "store_step ToggleEventLog s = toggleEventLog s"
| "store_step (BeginAction m) s = beginAction m s"
| "store_step CancelAction s = cancelAction s"
| "store_step (TogglePartitionGroupANode i) s = togglePartitionGroupANode i s"
| "store_step GoPartitionConfirm s = goPartitionConfirm s"
| "store_step (SetActivePartitionGroups g) s = setActivePartitionGroups g s"
| "store_step ClearActivePartitionGroups s = clearActivePartitionGroups s"
| "store_step (SetWsStatus st) s = setWsStatus st s"
| "store_step (SetSendFault b) s = setSendFault b s"
| "store_step (SetSendClientCommand b) s = setSendClientCommand b s"

definition store_run :: "store_action list \<Rightarrow> store \<Rightarrow> store" where
  "store_run as s = fold store_step as s"

definition store_reachable :: "store \<Rightarrow> bool" where
  "store_reachable = reach (\<lambda>s. \<exists>ls. s = init_store ls) (\<lambda>s t. \<exists>a. t = store_step a s)"

lemma store_run_reachable: "store_reachable (store_run as (init_store ls))"
  unfolding store_reachable_def store_run_def
proof (induction as rule: rev_induct)
  case Nil
  then show ?case by (auto intro: reach_init)
next
  case (snoc a as)
  then show ?case by (auto intro: reach_step)
qed

section \<open>The event window\<close>

definition window_inv :: "store \<Rightarrow> bool" where
  "window_inv s \<longleftrightarrow> map ev_id (eventLogs s) = slice_last 60 [0..<nextEventId s]"

lemma window_inv_update: "window_inv s \<Longrightarrow> window_inv (applyStateUpdate t1 t2 pl s)"
proof -
  assume "window_inv s"
  then have "map ev_id (slice_last 60 (eventLogs s @ update_logs t1 t2 pl s)) =
      slice_last 60 (slice_last 60 [0..<nextEventId s] @
        [nextEventId s..<nextEventId s + length (update_logs t1 t2 pl s)])"
    using update_logs_numbered [of s t1 t2 pl] by (simp add: window_inv_def map_slice_last numbered_def)
  then show ?thesis
    using upt_add_eq_append [of 0 "nextEventId s" "length (update_logs t1 t2 pl s)"]
    by (simp add: window_inv_def applyStateUpdate_eq slice_last_append)
qed

lemma window_inv_step: "window_inv s \<Longrightarrow> window_inv (store_step a s)"
proof (cases a)
  case (ApplyStateUpdate t1 t2 pl)
  then show "window_inv s \<Longrightarrow> ?thesis" by (simp add: window_inv_update)
qed (simp_all add: window_inv_def store_defs Let_def del: upt.simps)

section \<open>Everything else the store keeps\<close>

definition flags_ok :: "store \<Rightarrow> bool" where
  "flags_ok s \<longleftrightarrow> (\<forall>n \<in> set (nodes s). \<forall>e \<in> set (n_log n). e_committed e = (e_index e \<le> n_commitIndex n))"

definition tokens_ok :: "store \<Rightarrow> bool" where
  "tokens_ok s \<longleftrightarrow> 0 < nextPulseSeq s \<and> (\<forall>n \<in> set (nodes s). n_pulseSeq n < nextPulseSeq s)"

definition lang_ok :: "store \<Rightarrow> bool" where
  "lang_ok s \<longleftrightarrow> lang s = init_lang (localStorage s)"

definition workflow_ok :: "store \<Rightarrow> bool" where
  "workflow_ok s \<longleftrightarrow> distinct (partitionGroupA s) \<and>
     (partitionGroupA s \<noteq> [] \<longrightarrow> actionMode s \<in> {Some MPartitionSelect, Some MPartitionConfirm})"

definition bounds_ok :: "store \<Rightarrow> bool" where
  "bounds_ok s \<longleftrightarrow> length (eventLogs s) \<le> 60 \<and> length (inFlight s) \<le> 256"

definition store_inv :: "store \<Rightarrow> bool" where
  "store_inv s \<longleftrightarrow> window_inv s \<and> flags_ok s \<and> tokens_ok s \<and> lang_ok s \<and> workflow_ok s \<and> bounds_ok s"

lemma flags_ok_update: "flags_ok (applyStateUpdate t1 t2 pl s)"
  by (auto simp: flags_ok_def applyStateUpdate_eq update_nodes_def ingest_nodes_eq view_of_def
      mark_committed_def dest!: set_zip_rightD)

lemma tokens_bound:
  assumes "\<And>i p. map_of pm i = Some p \<Longrightarrow> n_pulseSeq p < q" and "0 < q"
  shows "t \<in> set (tokens pm ns q) \<Longrightarrow> t < q + pulses pm ns"
  using assms
proof (induction pm ns q rule: tokens.induct)
  case (2 pm n ns q)
  then show ?case
    by (fastforce simp: pulses_def less_SucI split: if_splits option.splits)
qed simp

lemma tokens_ok_update:
  assumes "tokens_ok s"
  shows "tokens_ok (applyStateUpdate t1 t2 pl s)"
proof -
  have "t < nextPulseSeq s + pulses (index_of (nodes s)) (raw_nodes pl)"
    if "t \<in> set (tokens (index_of (nodes s)) (raw_nodes pl) (nextPulseSeq s))" for t
    using that assms by (intro tokens_bound) (auto simp: tokens_ok_def dest: index_ofD)
  then show ?thesis
    using assms
    by (auto simp: tokens_ok_def applyStateUpdate_eq update_nodes_def ingest_nodes_eq
        elim!: in_map2_view_of dest: set_zip_leftD)
qed

lemma next_in_flight_bound: "length (next_in_flight pl) \<le> 256"
  by (auto simp: next_in_flight_def split: option.split)

lemma store_inv_init: "store_inv (init_store ls)"
  by (auto simp: store_inv_def init_store_def window_inv_def flags_ok_def tokens_ok_def lang_ok_def
      workflow_ok_def bounds_ok_def)

lemma store_inv_step:
  assumes "store_inv s"
  shows "store_inv (store_step a s)"
proof -
  have "window_inv (store_step a s)"
    using assms by (auto simp: store_inv_def intro: window_inv_step)
  moreover have "flags_ok (store_step a s)"
    using assms flags_ok_update by (cases a) (auto simp: store_inv_def flags_ok_def store_defs Let_def)
  moreover have "tokens_ok (store_step a s)"
    using assms tokens_ok_update by (cases a) (auto simp: store_inv_def tokens_ok_def store_defs Let_def)
  moreover have "lang_ok (store_step a s)"
    using assms
    by (cases a) (auto simp: store_inv_def lang_ok_def store_defs Let_def init_lang_def lang_str_def
        applyStateUpdate_eq)
  moreover have "workflow_ok (store_step a s)"
    using assms by (cases a) (auto simp: store_inv_def workflow_ok_def store_defs Let_def applyStateUpdate_eq)
  moreover have "bounds_ok (store_step a s)"
    using assms next_in_flight_bound
    by (cases a) (auto simp: store_inv_def bounds_ok_def store_defs Let_def applyStateUpdate_eq)
  ultimately show ?thesis by (simp add: store_inv_def)
qed

interpretation store_machine: invariant_system
  "\<lambda>s. \<exists>ls. s = init_store ls" "\<lambda>s t. \<exists>a. t = store_step a s" store_inv
  by unfold_locales (auto intro: store_inv_init store_inv_step)

lemma store_reachable_inv: "store_reachable s \<Longrightarrow> store_inv s"
  unfolding store_reachable_def by (rule store_machine.reach_inv)

end
