(* ===== verification/Store_Properties.thy ===== *)
theory Store_Properties
  imports Store_Invariant
begin

text \<open>
  What the store guarantees to the components that render it: which events a snapshot
  produces, that the event window is a gap-free tail of the history, that a card flashes
  exactly on a role or term change, that ingesting a snapshot twice changes nothing, and that
  the fault workflow and the language preference stay consistent.
\<close>

section \<open>State events against a reference\<close>

definition node_changes :: "view_node \<Rightarrow> view_node \<Rightarrow> (string \<times> level) list" where
  "node_changes p n =
     (if n_role p = n_role n then []
      else if n_role n = ''leader'' \<and> n_alive n then [(''LeaderElected'', LActive)]
      else if n_role n = ''candidate'' \<and> n_alive n then [(''ElectionTimeout'', LWarn)]
      else [(''Role:'' @ n_role n, LNormal)]) @
     (if n_term p < n_term n then [(''TermAdvanced'', LNormal)] else []) @
     (if n_alive p \<and> \<not> n_alive n then [(''NodeCrash'', LWarn)]
      else if \<not> n_alive p \<and> n_alive n then [(''NodeRestarted'', LNormal)] else []) @
     (if n_commitIndex p < n_commitIndex n then [(''Committed'', LActive)] else [])"

definition body :: "event \<Rightarrow> int \<times> int \<times> string \<times> int \<times> level \<times> string" where
  "body e = (ev_from e, ev_to e, ev_type e, ev_term e, ev_level e, ev_time e)"

definition node_bodies ::
  "string \<Rightarrow> (int \<times> view_node) list \<Rightarrow> view_node \<Rightarrow> (int \<times> int \<times> string \<times> int \<times> level \<times> string) list" where
  "node_bodies t pm n =
     (case map_of pm (n_id n) of None \<Rightarrow> []
      | Some p \<Rightarrow> map (\<lambda>(ty, l). (n_id n, n_id n, ty, n_term n, l, t)) (node_changes p n))"

lemma body_push:
  "map body (fst (push_log (makeLog a b ty tm l t) st)) = map body (fst st) @ [(a, b, ty, tm, l, t)]"
  by (cases st) (simp add: push_log_def makeLog_def body_def)

lemma bodies_derive_node: "map body (fst (derive_node t pm n st)) = map body (fst st) @ node_bodies t pm n"
  by (cases "map_of pm (n_id n)")
    (simp_all add: derive_node_def node_bodies_def node_changes_def commit_event_def
      alive_event_def term_event_def role_event_def body_push)

lemma bodies_fold: "map body (fst (fold (derive_node t pm) ns st)) = map body (fst st) @ concat (map (node_bodies t pm) ns)"
  by (induction ns arbitrary: st) (simp_all add: bodies_derive_node)

lemma deriveStateLogs_bodies:
  "map body (fst (deriveStateLogs t prev next k)) = concat (map (node_bodies t (index_of prev)) next)"
  by (simp add: deriveStateLogs_def Let_def bodies_fold)

lemma body_mem: "e \<in> set es \<Longrightarrow> body e \<in> set (map body es)"
  by simp

lemma update_state_logs_bodies:
  "map body (update_state_logs t1 pl s) =
     concat (map (node_bodies t1 (index_of (nodes s))) (update_nodes pl s))"
proof (cases "nodes s = []")
  case True
  then have "map_of (index_of (nodes s)) i = None" for i
    by (simp add: map_of_js_map_of)
  with True show ?thesis
    by (simp add: update_state_logs_def node_bodies_def)
qed (simp add: update_state_logs_def deriveStateLogs_bodies)

section \<open>Ingesting the same snapshot again\<close>

lemma tokens_same:
  assumes "\<And>n. n \<in> set ns \<Longrightarrow> \<exists>p. map_of pm (n_id n) = Some p \<and> n_role p = n_role n \<and> n_term p = n_term n"
  shows "tokens pm ns q = map (\<lambda>n. n_pulseSeq (the (map_of pm (n_id n)))) ns"
  using assms
proof (induction pm ns q rule: tokens.induct)
  case (2 pm n ns q)
  have "\<exists>p. map_of pm (n_id n) = Some p \<and> n_role p = n_role n \<and> n_term p = n_term n"
    by (rule "2.prems") simp
  then obtain p where "map_of pm (n_id n) = Some p" "n_role p = n_role n" "n_term p = n_term n" by blast
  moreover from this have "tokens pm ns q = map (\<lambda>n. n_pulseSeq (the (map_of pm (n_id n)))) ns"
    by (intro "2.IH"(2) "2.prems") (simp_all add: shouldPulse_def)
  ultimately show ?case by (simp add: shouldPulse_def)
qed simp

lemma pulses_same:
  assumes "\<And>n. n \<in> set ns \<Longrightarrow> \<exists>p. map_of pm (n_id n) = Some p \<and> n_role p = n_role n \<and> n_term p = n_term n"
  shows "pulses pm ns = 0"
  using assms by (fastforce simp: pulses_def shouldPulse_def filter_empty_conv)

lemma update_nodes_ids: "map n_id (update_nodes pl s) = map n_id (raw_nodes pl)"
  using map2_view_of_fields by (simp add: update_nodes_def ingest_nodes_eq del: map_map)

lemma update_nodes_nth:
  assumes "i < length (raw_nodes pl)"
  shows "\<exists>t. update_nodes pl s ! i = view_of t (raw_nodes pl ! i)"
  using assms by (auto simp: update_nodes_def ingest_nodes_eq)

lemma length_update_nodes [simp]: "length (update_nodes pl s) = length (raw_nodes pl)"
  by (simp add: update_nodes_def ingest_nodes_eq)

lemma reingest_lookup:
  assumes "distinct (map n_id (raw_nodes pl))" and "i < length (raw_nodes pl)"
  shows "map_of (index_of (update_nodes pl s)) (n_id (raw_nodes pl ! i)) = Some (update_nodes pl s ! i)"
proof -
  have "n_id (update_nodes pl s ! i) = n_id (raw_nodes pl ! i)"
    using update_nodes_nth [OF assms(2), of s] by auto
  then show ?thesis
    using index_of_distinct [of "update_nodes pl s" "update_nodes pl s ! i"] assms
    by (simp add: update_nodes_ids)
qed

lemma reingest_known:
  assumes "distinct (map n_id (raw_nodes pl))" and "n \<in> set (raw_nodes pl)"
  shows "\<exists>p. map_of (index_of (update_nodes pl s)) (n_id n) = Some p \<and> n_role p = n_role n \<and> n_term p = n_term n"
proof -
  obtain i where i: "i < length (raw_nodes pl)" "n = raw_nodes pl ! i"
    using assms(2) by (auto simp: in_set_conv_nth)
  then show ?thesis
    using reingest_lookup [OF assms(1) i(1)] update_nodes_nth [OF i(1), of s] by auto
qed

lemma reingest_nodes:
  assumes d: "distinct (map n_id (raw_nodes pl))" and s': "nodes s' = update_nodes pl s"
  shows "update_nodes pl s' = nodes s'"
proof (rule nth_equalityI)
  show "length (update_nodes pl s') = length (nodes s')"
    by (simp add: s')
next
  fix i assume "i < length (update_nodes pl s')"
  then have i: "i < length (raw_nodes pl)" by simp
  have "update_nodes pl s' ! i = view_of (n_pulseSeq (update_nodes pl s ! i)) (raw_nodes pl ! i)"
    using i reingest_lookup [OF d i]
    by (simp add: update_nodes_def [of pl s'] ingest_nodes_eq s' tokens_same [OF reingest_known [OF d]])
  also have "\<dots> = update_nodes pl s ! i"
    using update_nodes_nth [OF i, of s] by auto
  finally show "update_nodes pl s' ! i = nodes s' ! i" by (simp add: s')
qed

lemma node_changes_self [simp]: "node_changes n n = []"
  by (simp add: node_changes_def)

lemma node_bodies_self:
  assumes "distinct (map n_id ns)" and "n \<in> set ns"
  shows "node_bodies t (index_of ns) n = []"
  using index_of_distinct [OF assms] by (simp add: node_bodies_def)

lemma diffRPCLogs_self: "fst (diffRPCLogs t ms ms k) = []"
proof -
  have "mset (map rpc_of (fst (diffRPCLogs t ms ms k))) = {#}"
    by (subst diffRPCLogs_mset) simp
  then show ?thesis by simp
qed

lemma reingest_silent:
  assumes d: "distinct (map n_id (raw_nodes pl))"
    and s': "nodes s' = update_nodes pl s" "inFlight s' = next_in_flight pl"
  shows "update_logs t1 t2 pl s' = []"
proof -
  have "map body (update_state_logs t1 pl s') = []"
    using d by (auto simp: update_state_logs_bodies reingest_nodes [OF d s'(1)] s'(1)
        update_nodes_ids intro!: node_bodies_self)
  then show ?thesis
    by (simp add: update_logs_def update_rpc_logs_def s'(2) diffRPCLogs_self)
qed

lemma reingest:
  assumes d: "distinct (map n_id (raw_nodes pl))"
  shows "applyStateUpdate t3 t4 pl (applyStateUpdate t1 t2 pl s) = applyStateUpdate t1 t2 pl s"
proof -
  let ?s = "applyStateUpdate t1 t2 pl s"
  have n: "nodes ?s = update_nodes pl s" and m: "inFlight ?s = next_in_flight pl"
    and l: "length (eventLogs ?s) \<le> 60"
    by (simp_all add: applyStateUpdate_eq)
  have "pulses (index_of (nodes ?s)) (raw_nodes pl) = 0"
    using reingest_known [OF d] by (simp add: n pulses_same)
  then show ?thesis
    using l reingest_nodes [OF d n] reingest_silent [OF d n m]
    by (subst applyStateUpdate_eq) (simp add: m)
qed

section \<open>Lemmas behind the properties\<close>

lemma tokens_nth:
  assumes "i < length ns" and "map_of pm (n_id (ns ! i)) = Some p"
  shows "if shouldPulse (Some p) (ns ! i) then q \<le> tokens pm ns q ! i
         else tokens pm ns q ! i = n_pulseSeq p"
  using assms
proof (induction pm ns q arbitrary: i rule: tokens.induct)
  case (2 pm n ns q)
  show ?case
  proof (cases i)
    case 0
    with "2.prems" show ?thesis by simp
  next
    case (Suc j)
    with "2.prems" have "j < length ns" and "map_of pm (n_id (ns ! j)) = Some p" by simp_all
    with "2.IH" Suc show ?thesis
      by (cases "shouldPulse (map_of pm (n_id n)) n") (fastforce split: if_splits)+
  qed
qed simp

lemma committed_prefix:
  assumes "\<And>i. i < length es \<Longrightarrow> e_index (es ! i) = b + int i + 1"
  shows "filter e_committed (map (mark_committed ci) es) = take (nat (ci - b)) (map (mark_committed ci) es)"
  using assms
proof (induction es arbitrary: b)
  case (Cons e es)
  have e: "e_index e = b + 1" using Cons.prems [of 0] by simp
  have "e_index (es ! i) = (b + 1) + int i + 1" if "i < length es" for i
    using Cons.prems [of "Suc i"] that by simp
  note IH = Cons.IH [OF this]
  show ?case
  proof (cases "b < ci")
    case True
    then have "nat (ci - b) = Suc (nat (ci - (b + 1)))" by simp
    with True e IH show ?thesis by (simp add: mark_committed_def)
  next
    case False
    with e IH show ?thesis by (simp add: mark_committed_def)
  qed
qed simp

lemma node_changes_LeaderElected:
  "(''LeaderElected'', l) \<in> set (node_changes p n) \<longleftrightarrow>
     l = LActive \<and> n_role p \<noteq> ''leader'' \<and> n_role n = ''leader'' \<and> n_alive n"
  by (auto simp: node_changes_def)

lemma body_in_fold:
  "(a, b, ty, tm, l, t') \<in> set (concat (map (node_bodies t pm) ns)) \<longleftrightarrow>
     t' = t \<and> a = b \<and>
     (\<exists>v p. v \<in> set ns \<and> n_id v = a \<and> n_term v = tm \<and> map_of pm a = Some p \<and> (ty, l) \<in> set (node_changes p v))"
  by (force simp: node_bodies_def split: option.splits)

lemma node_changes_Nil:
  "node_changes p n = [] \<longleftrightarrow>
     n_role p = n_role n \<and> n_term n \<le> n_term p \<and> n_alive p = n_alive n \<and> n_commitIndex n \<le> n_commitIndex p"
  by (auto simp: node_changes_def)

lemma node_bodies_Nil:
  "node_bodies t pm n = [] \<longleftrightarrow> (\<forall>p. map_of pm (n_id n) = Some p \<longrightarrow> node_changes p n = [])"
  by (auto simp: node_bodies_def split: option.split)

text \<open>Two views of a small cluster, for the witnesses below.\<close>

definition ex_wire :: "int \<Rightarrow> string \<Rightarrow> int \<Rightarrow> int \<Rightarrow> wire_node" where
  "ex_wire i r t c =
     \<lparr>n_id = i, n_role = r, n_term = t, n_alive = True, n_votedFor = None, n_commitIndex = c,
      n_lastApplied = c,
      w_log = Some [\<lparr>e_index = 1, e_term = 1, e_command = ''a''\<rparr>, \<lparr>e_index = 2, e_term = 1, e_command = ''b''\<rparr>]\<rparr>"

definition ex_before :: payload where
  "ex_before = \<lparr>p_nodes = Some [ex_wire 0 ''candidate'' 1 0, ex_wire 1 ''follower'' 1 0],
                p_inFlight = Some []\<rparr>"

definition ex_after :: payload where
  "ex_after = \<lparr>p_nodes = Some [ex_wire 0 ''leader'' 1 1, ex_wire 1 ''follower'' 1 0],
               p_inFlight = Some [\<lparr>m_from = 0, m_to = 1, m_type = ''AppendEntries'', m_term = 1\<rparr>]\<rparr>"

definition ex_store :: store where
  "ex_store = store_run [ApplyStateUpdate ''t'' ''t'' (Some ex_before)] (init_store Map.empty)"

section \<open>Properties\<close>

text \<open>
  C12: Whatever the user does and the server sends, the event log holds exactly the latest 60
  events ever made, in order and without a gap: the ids in it are the last 60 of all the ids
  handed out so far. In particular the ids are unique, as the list keys of
  \<open>EventStream.jsx\<close> need.
\<close>

theorem event_window_gap_free:
  "map ev_id (eventLogs (store_run as (init_store ls))) =
     slice_last 60 [0..<nextEventId (store_run as (init_store ls))]"
  using store_reachable_inv [OF store_run_reachable] by (simp add: store_inv_def window_inv_def)

text \<open>
  C16: The RPC events of a new snapshot are, as a multiset, exactly the messages in flight now that
  the previous snapshot does not account for, each as often as its count grew; they carry the
  stamp they were made with and consecutive ids from the counter.
\<close>

theorem rpc_events_exact:
  "mset (map rpc_of (fst (diffRPCLogs time prev next k))) = mset next - mset prev \<and>
   map ev_id (fst (diffRPCLogs time prev next k)) =
     [k..<k + length (fst (diffRPCLogs time prev next k))] \<and>
   snd (diffRPCLogs time prev next k) = k + length (fst (diffRPCLogs time prev next k))"
  using diffRPCLogs_appends [of k time prev "next"] by (simp only: diffRPCLogs_mset numbered_def)

text \<open>
  C17: The imperative loop that derives the state events equals its reference: for every node of
  the new snapshot that the old one knows, in order, the role event, the term event, the crash
  or restart event and the commit event its two views call for, all about that node, its new
  term and the common stamp; nothing for a node not seen before.
\<close>

theorem state_events_reference:
  "map body (fst (deriveStateLogs t prev next k)) =
     concat (map (\<lambda>n. case map_of (index_of prev) (n_id n) of
                        None \<Rightarrow> []
                      | Some p \<Rightarrow> map (\<lambda>(ty, l). (n_id n, n_id n, ty, n_term n, l, t)) (node_changes p n)) next)"
  using deriveStateLogs_bodies [of t prev "next" k] by (simp add: node_bodies_def [abs_def])

text \<open>
  The store announces a leader exactly when there is news: a \<open>LeaderElected\<close> event for
  node \<open>i\<close> at term \<open>tm\<close> is made if and only if the new snapshot has node \<open>i\<close> alive as the leader
  of term \<open>tm\<close> and the previous view of that node had another role.
\<close>

theorem leader_announced_iff:
  "(i, i, ''LeaderElected'', tm, LActive, t) \<in> set (map body (fst (deriveStateLogs t prev next k))) \<longleftrightarrow>
     (\<exists>v p. v \<in> set next \<and> n_id v = i \<and> n_term v = tm \<and> n_role v = ''leader'' \<and> n_alive v \<and>
            map_of (index_of prev) i = Some p \<and> n_role p \<noteq> ''leader'')"
  by (auto simp: deriveStateLogs_bodies body_in_fold node_changes_LeaderElected simp del: set_map set_concat)

text \<open>
  C37: A snapshot is ingested idempotently: when node ids are distinct (as the backend sends
  them), applying the snapshot a second time, at any later time, changes nothing at all: no event,
  no pulse, no counter moves.
\<close>

theorem snapshot_idempotent:
  assumes "distinct (map n_id (raw_nodes pl))"
  shows "applyStateUpdate t3 t4 pl (applyStateUpdate t1 t2 pl s) = applyStateUpdate t1 t2 pl s"
  using assms by (rule reingest)

theorem snapshot_idempotent_witness:
  "applyStateUpdate ''3'' ''4'' (Some ex_after) (applyStateUpdate ''1'' ''2'' (Some ex_after) ex_store) =
     applyStateUpdate ''1'' ''2'' (Some ex_after) ex_store \<and>
   eventLogs (applyStateUpdate ''1'' ''2'' (Some ex_after) ex_store) \<noteq> eventLogs ex_store"
proof -
  have d: "distinct (map n_id (raw_nodes (Some ex_after)))"
    by (simp add: raw_nodes_def ex_after_def ex_wire_def)
  have "eventLogs (applyStateUpdate ''1'' ''2'' (Some ex_after) ex_store) \<noteq> eventLogs ex_store"
    by code_simp
  then show ?thesis using snapshot_idempotent [OF d] by blast
qed

text \<open>
  A node card flashes exactly on a role or term change. In every reachable store, a node that
  was known before gets a different pulse token if and only if its role or its term changed, and
  a new token is greater than every token on display (so the React key of the card is new).
\<close>

theorem pulse_iff_role_or_term_changed:
  assumes "store_reachable s"
    and "i < length (raw_nodes pl)"
    and "map_of (index_of (nodes s)) (n_id (raw_nodes pl ! i)) = Some p"
    and "s' = applyStateUpdate t1 t2 pl s"
  shows "(n_pulseSeq (nodes s' ! i) \<noteq> n_pulseSeq p \<longleftrightarrow>
            n_role (nodes s' ! i) \<noteq> n_role p \<or> n_term (nodes s' ! i) \<noteq> n_term p) \<and>
         (n_pulseSeq (nodes s' ! i) \<noteq> n_pulseSeq p \<longrightarrow>
            Max (insert 0 (n_pulseSeq ` set (nodes s))) < n_pulseSeq (nodes s' ! i))"
proof -
  let ?n = "raw_nodes pl ! i"
  let ?t = "tokens (index_of (nodes s)) (raw_nodes pl) (nextPulseSeq s) ! i"
  have v: "nodes s' ! i = view_of ?t ?n"
    using assms(2) by (simp add: assms(4) applyStateUpdate_eq update_nodes_def ingest_nodes_eq)
  have ok: "tokens_ok s"
    using store_reachable_inv [OF assms(1)] by (simp add: store_inv_def)
  then have bound: "Max (insert 0 (n_pulseSeq ` set (nodes s))) < nextPulseSeq s"
    by (auto simp: tokens_ok_def)
  have "p \<in> set (nodes s)" using index_ofD [OF assms(3)] by simp
  with ok have "n_pulseSeq p < nextPulseSeq s" by (simp add: tokens_ok_def)
  with bound tokens_nth [OF assms(2,3), of "nextPulseSeq s"] show ?thesis
    by (auto simp: v shouldPulse_def split: if_splits)
qed

theorem pulse_iff_role_or_term_changed_witness:
  "\<exists>p. map_of (index_of (nodes ex_store)) 0 = Some p \<and>
     n_pulseSeq (nodes (applyStateUpdate ''1'' ''2'' (Some ex_after) ex_store) ! 0) \<noteq> n_pulseSeq p"
proof -
  have r: "store_reachable ex_store"
    unfolding ex_store_def by (rule store_run_reachable)
  have l: "0 < length (raw_nodes (Some ex_after))" and i: "n_id (raw_nodes (Some ex_after) ! 0) = 0"
    by (simp_all add: raw_nodes_def ex_after_def ex_wire_def)
  obtain p where p: "map_of (index_of (nodes ex_store)) 0 = Some p" and role: "n_role p = ''candidate''"
  proof -
    have "map_option n_role (map_of (index_of (nodes ex_store)) 0) = Some ''candidate''" by code_simp
    then show ?thesis using that by (cases "map_of (index_of (nodes ex_store)) 0") auto
  qed
  have "n_role (nodes (applyStateUpdate ''1'' ''2'' (Some ex_after) ex_store) ! 0) = ''leader''"
    by code_simp
  then show ?thesis
    using pulse_iff_role_or_term_changed [OF r l p [folded i] refl, of "''1''" "''2''"] p role by auto
qed

text \<open>
  The committed flags show the commit point: for a node whose log is indexed from 1 without
  gaps, the entries the store marks committed are exactly its first \<open>commitIndex\<close> entries.
\<close>

theorem committed_entries_are_prefix:
  assumes "w_log n = Some es"
    and "\<And>i. i < length es \<Longrightarrow> e_index (es ! i) = int i + 1"
  shows "filter e_committed (n_log (view_of t n)) = take (nat (n_commitIndex n)) (n_log (view_of t n))"
  using committed_prefix [of es 0 "n_commitIndex n"] assms by (simp add: view_of_def)

theorem committed_entries_are_prefix_witness:
  "filter e_committed (n_log (view_of 0 (ex_wire 0 ''leader'' 1 1))) =
     take 1 (n_log (view_of 0 (ex_wire 0 ''leader'' 1 1))) \<and>
   length (filter e_committed (n_log (view_of 0 (ex_wire 0 ''leader'' 1 1)))) = 1"
proof -
  let ?es = "[\<lparr>e_index = 1, e_term = 1, e_command = ''a''\<rparr>, \<lparr>e_index = 2, e_term = 1, e_command = ''b''\<rparr>]"
  have log: "w_log (ex_wire 0 ''leader'' 1 1) = Some ?es" and ci: "n_commitIndex (ex_wire 0 ''leader'' 1 1) = 1"
    by (simp_all add: ex_wire_def)
  have idx: "e_index (?es ! i) = int i + 1" if "i < length ?es" for i
    using that by (cases i) (auto simp: less_Suc_eq)
  have "length (filter e_committed (n_log (view_of 0 (ex_wire 0 ''leader'' 1 1)))) = 1"
    by (simp add: view_of_def log ci mark_committed_def)
  then show ?thesis
    using committed_entries_are_prefix [OF log idx, of 0] unfolding ci by simp
qed

text \<open>
  The language survives a reload: after any sequence of actions, a store created from the
  browser's storage as those actions left it starts in the language now shown, and a toggle
  shows the other one.
\<close>

theorem language_survives_reload:
  "lang (init_store (localStorage (store_run as (init_store ls)))) = lang (store_run as (init_store ls)) \<and>
   lang (toggleLang (store_run as (init_store ls))) \<noteq> lang (store_run as (init_store ls))"
  using store_reachable_inv [OF store_run_reachable, of as ls]
  by (simp add: store_inv_def lang_ok_def init_store_def toggleLang_def)

text \<open>
  A group under selection never leaks out of the partition workflow: in every store the
  actions can produce, Group A has no node twice and is empty unless the workflow is in one of
  its two partition steps.
\<close>

theorem partition_group_confined:
  "distinct (partitionGroupA (store_run as (init_store ls))) \<and>
   (partitionGroupA (store_run as (init_store ls)) = [] \<or>
    actionMode (store_run as (init_store ls)) = Some MPartitionSelect \<or>
    actionMode (store_run as (init_store ls)) = Some MPartitionConfirm)"
  using store_reachable_inv [OF store_run_reachable, of as ls]
  by (auto simp: store_inv_def workflow_ok_def)

end
