(* ===== verification/Raft_Node.thy ===== *)
theory Raft_Node
  imports Prelude
begin

text \<open>
  One Raft participant, \<open>backend/raft/\<close>: the types of \<open>types.go\<close>, the node of
  \<open>node.go\<close> and the handlers of \<open>election.go\<close> and \<open>replication.go\<close>. A handler takes
  the node and returns the new node with the messages it sends, in order; \<open>None\<close> is a Go
  runtime panic (a slice bound below zero, a write to a nil map). Terms, indexes and ids are
  \<open>nat\<close>: the code starts them at 0 and only increments or copies them, except where it
  computes \<open>nextIndex - 1\<close>, whose negative case is written out as the panic it causes. The
  64-bit wrap-around of Go's \<open>int\<close> is not modelled.
\<close>

section \<open>types.go\<close>

datatype role = Follower | Candidate | Leader

definition role_str :: "role \<Rightarrow> string" where
  "role_str r = (case r of Follower \<Rightarrow> ''follower'' | Candidate \<Rightarrow> ''candidate'' | Leader \<Rightarrow> ''leader'')"

record LogEntry =
  le_index :: nat
  le_term :: nat
  le_command :: string

record RequestVoteArgs =
  rv_term :: nat
  rv_candidate :: nat
  rv_lastLogIndex :: nat
  rv_lastLogTerm :: nat

record RequestVoteReply =
  rvr_term :: nat
  rvr_granted :: bool

record AppendEntriesArgs =
  ae_term :: nat
  ae_leader :: nat
  ae_prevLogIndex :: nat
  ae_prevLogTerm :: nat
  ae_entries :: "LogEntry list"
  ae_leaderCommit :: nat

record AppendEntriesReply =
  aer_term :: nat
  aer_success :: bool
  aer_matchIndex :: nat

text \<open>The envelope: its type and the one payload pointer that is set.\<close>

datatype rpc_body =
    RequestVote RequestVoteArgs
  | VoteReply RequestVoteReply
  | AppendEntries AppendEntriesArgs
  | AppendReply AppendEntriesReply

record Message =
  msg_from :: nat
  msg_to :: nat
  msg_body :: rpc_body

record Snapshot =
  sn_id :: nat
  sn_role :: string
  sn_term :: nat
  sn_alive :: bool
  sn_votedFor :: int
  sn_commitIndex :: nat
  sn_lastApplied :: nat
  sn_log :: "LogEntry list"

section \<open>The node\<close>

text \<open>
  \<open>votedFor\<close> is \<open>None\<close> for the code's -1. \<open>nextIndex\<close>, \<open>matchIndex\<close> and
  \<open>votesReceived\<close> are \<open>None\<close> while the Go map is nil; the last one holds the keys of the
  map (every value in it is true). \<open>heartbeatStop\<close> is the identity of the stop channel;
  \<open>hb_loops\<close> are the stop channels of the heartbeat goroutines that still run, and
  \<open>fresh_chan\<close> names the next channel. \<open>timerArmed\<close> says whether the election timer can
  fire, \<open>changeCh\<close> whether the dirty flag is set.
\<close>

record node =
  node_id :: nat
  peers :: "nat list"
  currentTerm :: nat
  votedFor :: "nat option"
  rlog :: "LogEntry list"
  commitIndex :: nat
  lastApplied :: nat
  nextIndex :: "(nat \<rightharpoonup> nat) option"
  matchIndex :: "(nat \<rightharpoonup> nat) option"
  role :: role
  votesReceived :: "nat list option"
  alive :: bool
  heartbeatStop :: "nat option"
  hb_loops :: "nat list"
  fresh_chan :: nat
  timerArmed :: bool
  changeCh :: bool

type_synonym outcome = "(node \<times> Message list) option"

text \<open>\<open>NewNode\<close>, and the timer \<open>Run\<close> creates when it starts.\<close>

definition NewNode :: "nat \<Rightarrow> nat list \<Rightarrow> node" where
  "NewNode i ps =
     \<lparr>node_id = i, peers = ps, currentTerm = 0, votedFor = None, rlog = [], commitIndex = 0,
      lastApplied = 0, nextIndex = None, matchIndex = None, role = Follower, votesReceived = None,
      alive = True, heartbeatStop = None, hb_loops = [], fresh_chan = 0, timerArmed = True,
      changeCh = False\<rparr>"

text \<open>Reading a Go map: a missing key, or a nil map, gives 0. Writing a nil map panics.\<close>

definition go_get :: "(nat \<rightharpoonup> nat) option \<Rightarrow> nat \<Rightarrow> nat" where
  "go_get m k = (case m of None \<Rightarrow> 0 | Some f \<Rightarrow> (case f k of None \<Rightarrow> 0 | Some v \<Rightarrow> v))"

definition go_put :: "(nat \<rightharpoonup> nat) option \<Rightarrow> nat \<Rightarrow> nat \<Rightarrow> (nat \<rightharpoonup> nat) option option" where
  "go_put m k v = (case m of None \<Rightarrow> None | Some f \<Rightarrow> Some (Some (f(k \<mapsto> v))))"

section \<open>Helpers of node.go\<close>

definition closeHeartbeatStop :: "node \<Rightarrow> node" where
  [raft_defs]: "closeHeartbeatStop n =
     (case heartbeatStop n of
        None \<Rightarrow> n
      | Some c \<Rightarrow> n\<lparr>heartbeatStop := None, hb_loops := filter (\<lambda>d. d \<noteq> c) (hb_loops n)\<rparr>)"

definition lastLogIndex :: "node \<Rightarrow> nat" where
  [raft_defs]: "lastLogIndex n = length (rlog n)"

definition lastLogTerm :: "node \<Rightarrow> nat" where
  [raft_defs]: "lastLogTerm n = (if length (rlog n) = 0 then 0 else le_term (rlog n ! (length (rlog n) - 1)))"

definition resetElectionTimer :: "node \<Rightarrow> node" where
  [raft_defs]: "resetElectionTimer n = n\<lparr>timerArmed := True\<rparr>"

definition notifyChange :: "node \<Rightarrow> node" where
  [raft_defs]: "notifyChange n = n\<lparr>changeCh := True\<rparr>"

definition maybeStepDown :: "nat \<Rightarrow> node \<Rightarrow> node" where
  "maybeStepDown incomingTerm n =
     (if incomingTerm > currentTerm n then
        let n1 = (if role n = Leader then closeHeartbeatStop n else n)
        in notifyChange (n1\<lparr>currentTerm := incomingTerm, role := Follower, votedFor := None\<rparr>)
      else n)"

definition sendAppendEntries :: "nat \<Rightarrow> node \<Rightarrow> Message option" where
  "sendAppendEntries peer n =
     (let nxt = go_get (nextIndex n) peer
      in if nxt = 0 then None \<comment> \<open>\<open>n.log[-1:]\<close> panics\<close>
         else
           let prevIndex = nxt - 1;
               prevTerm = (if prevIndex > 0 \<and> prevIndex \<le> length (rlog n)
                           then le_term (rlog n ! (prevIndex - 1)) else 0);
               entries = (if nxt \<le> length (rlog n) then drop (nxt - 1) (rlog n) else [])
           in Some \<lparr>msg_from = node_id n, msg_to = peer,
                    msg_body = AppendEntries
                      \<lparr>ae_term = currentTerm n, ae_leader = node_id n, ae_prevLogIndex = prevIndex,
                       ae_prevLogTerm = prevTerm, ae_entries = entries,
                       ae_leaderCommit = commitIndex n\<rparr>\<rparr>)"

text \<open>\<open>for _, peer := range n.peers { n.sendAppendEntries(peer) }\<close>\<close>

fun send_to_all :: "nat list \<Rightarrow> node \<Rightarrow> Message list option" where
  "send_to_all [] n = Some []"
| "send_to_all (p # ps) n =
     (case sendAppendEntries p n of
        None \<Rightarrow> None
      | Some m \<Rightarrow> (case send_to_all ps n of None \<Rightarrow> None | Some ms \<Rightarrow> Some (m # ms)))"

definition sendHeartbeatsLocked :: "node \<Rightarrow> Message list option" where
  "sendHeartbeatsLocked n = (if role n \<noteq> Leader then Some [] else send_to_all (peers n) n)"

definition becomeLeader :: "node \<Rightarrow> outcome" where
  "becomeLeader n =
     (let nextIdx = lastLogIndex n + 1;
          n1 = n\<lparr>role := Leader,
                 nextIndex := Some (\<lambda>p. if p \<in> set (peers n) then Some nextIdx else None),
                 matchIndex := Some (\<lambda>p. if p \<in> set (peers n) then Some 0 else None)\<rparr>;
          n2 = notifyChange n1
      in case sendHeartbeatsLocked n2 of
           None \<Rightarrow> None
         | Some ms \<Rightarrow>
             Some (n2\<lparr>heartbeatStop := Some (fresh_chan n2),
                      hb_loops := hb_loops n2 @ [fresh_chan n2],
                      fresh_chan := Suc (fresh_chan n2)\<rparr>, ms))"

text \<open>One tick of the heartbeat goroutine with stop channel \<open>c\<close>.\<close>

definition heartbeatTick :: "node \<Rightarrow> outcome" where
  "heartbeatTick n =
     (if role n = Leader \<and> alive n then
        (case sendHeartbeatsLocked n of None \<Rightarrow> None | Some ms \<Rightarrow> Some (n, ms))
      else Some (n, []))"

section \<open>election.go\<close>

definition startElection :: "node \<Rightarrow> node \<times> Message list" where
  "startElection n =
     (let n1 = notifyChange (resetElectionTimer
                 (n\<lparr>role := Candidate, currentTerm := currentTerm n + 1,
                    votedFor := Some (node_id n), votesReceived := Some [node_id n]\<rparr>));
          args = \<lparr>rv_term = currentTerm n1, rv_candidate = node_id n1,
                  rv_lastLogIndex = lastLogIndex n1, rv_lastLogTerm = lastLogTerm n1\<rparr>
      in (n1, map (\<lambda>peer. \<lparr>msg_from = node_id n1, msg_to = peer, msg_body = RequestVote args\<rparr>) (peers n1)))"

definition candidateLogUpToDate :: "nat \<Rightarrow> nat \<Rightarrow> node \<Rightarrow> bool" where
  "candidateLogUpToDate lastIndex lastTerm n =
     (if lastTerm \<noteq> lastLogTerm n then lastTerm > lastLogTerm n else lastIndex \<ge> lastLogIndex n)"

definition handleRequestVote :: "nat \<Rightarrow> RequestVoteArgs \<Rightarrow> node \<Rightarrow> node \<times> Message list" where
  "handleRequestVote from args n =
     (let n1 = maybeStepDown (rv_term args) n;
          grant = (rv_term args \<ge> currentTerm n1 \<and>
                   (votedFor n1 = None \<or> votedFor n1 = Some (rv_candidate args)) \<and>
                   candidateLogUpToDate (rv_lastLogIndex args) (rv_lastLogTerm args) n1);
          n2 = (if grant then notifyChange (resetElectionTimer (n1\<lparr>votedFor := Some (rv_candidate args)\<rparr>))
                else n1)
      in (n2, [\<lparr>msg_from = node_id n2, msg_to = from,
                msg_body = VoteReply \<lparr>rvr_term = currentTerm n2, rvr_granted = grant\<rparr>\<rparr>]))"

definition majority :: "node \<Rightarrow> nat" where
  "majority n = (length (peers n) + 1) div 2 + 1"

definition handleRequestVoteReply :: "nat \<Rightarrow> RequestVoteReply \<Rightarrow> node \<Rightarrow> outcome" where
  "handleRequestVoteReply from reply n =
     (let n1 = maybeStepDown (rvr_term reply) n
      in if role n1 \<noteq> Candidate then Some (n1, [])
         else
           (case (if rvr_granted reply
                  then (case votesReceived n1 of None \<Rightarrow> None \<comment> \<open>write to a nil map\<close>
                        | Some vs \<Rightarrow> Some (n1\<lparr>votesReceived := Some (List.insert from vs)\<rparr>))
                  else Some n1) of
              None \<Rightarrow> None
            | Some n2 \<Rightarrow>
                if (case votesReceived n2 of None \<Rightarrow> 0 | Some vs \<Rightarrow> length vs) \<ge> majority n2
                then becomeLeader n2 else Some (n2, [])))"

section \<open>replication.go\<close>

definition advanceLastApplied :: "node \<Rightarrow> node" where
  [raft_defs]: "advanceLastApplied n = (if commitIndex n > lastApplied n then n\<lparr>lastApplied := commitIndex n\<rparr> else n)"

text \<open>
  The loop that appends entries, overwriting conflicting ones: \<open>logIdx\<close> is the 1-based index
  of the first entry of the list.
\<close>

fun append_entries :: "nat \<Rightarrow> LogEntry list \<Rightarrow> LogEntry list \<Rightarrow> LogEntry list" where
  "append_entries logIdx [] l = l"
| "append_entries logIdx (entry # es) l =
     (if logIdx \<le> length l then
        if le_term (l ! (logIdx - 1)) \<noteq> le_term entry
        then append_entries (logIdx + 1) es (take (logIdx - 1) l @ [entry])
        else append_entries (logIdx + 1) es l
      else append_entries (logIdx + 1) es (l @ [entry]))"

text \<open>The consistency check on \<open>PrevLogIndex\<close> and \<open>PrevLogTerm\<close>.\<close>

definition prev_matches :: "AppendEntriesArgs \<Rightarrow> LogEntry list \<Rightarrow> bool" where
  "prev_matches args l =
     (if ae_prevLogIndex args > 0 then
        if ae_prevLogIndex args > length l then False
        else le_term (l ! (ae_prevLogIndex args - 1)) = ae_prevLogTerm args
      else True)"

definition follow_commit :: "nat \<Rightarrow> node \<Rightarrow> node" where
  "follow_commit leaderCommit n =
     (if leaderCommit > commitIndex n
      then advanceLastApplied (n\<lparr>commitIndex := (if leaderCommit > lastLogIndex n then lastLogIndex n else leaderCommit)\<rparr>)
      else n)"

definition append_reply :: "node \<Rightarrow> nat \<Rightarrow> nat \<Rightarrow> bool \<Rightarrow> nat \<Rightarrow> Message" where
  "append_reply n to tm ok mi =
     \<lparr>msg_from = node_id n, msg_to = to,
      msg_body = AppendReply \<lparr>aer_term = tm, aer_success = ok, aer_matchIndex = mi\<rparr>\<rparr>"

definition handleAppendEntries :: "nat \<Rightarrow> AppendEntriesArgs \<Rightarrow> node \<Rightarrow> node \<times> Message list" where
  "handleAppendEntries from args n =
     (let n1 = maybeStepDown (ae_term args) n;
          tm = currentTerm n1
      in if ae_term args < currentTerm n1 then (n1, [append_reply n1 from tm False 0])
         else
           let n2 = (if role n1 = Leader then closeHeartbeatStop n1 else n1);
               n3 = resetElectionTimer (n2\<lparr>role := Follower\<rparr>)
           in if \<not> prev_matches args (rlog n3) then (n3, [append_reply n3 from tm False 0])
              else
                let n4 = n3\<lparr>rlog := append_entries (ae_prevLogIndex args + 1) (ae_entries args) (rlog n3)\<rparr>;
                    n5 = follow_commit (ae_leaderCommit args) n4;
                    n6 = notifyChange n5
                in (n6, [append_reply n6 from tm True (lastLogIndex n6)]))"

text \<open>How many nodes are known to hold the entry at \<open>idx\<close>, this one included.\<close>

definition replica_count :: "node \<Rightarrow> nat \<Rightarrow> nat" where
  "replica_count n idx = 1 + length (filter (\<lambda>p. go_get (matchIndex n) p \<ge> idx) (peers n))"

text \<open>The loop of \<open>maybeAdvanceCommitIndex\<close>, from \<open>idx\<close> down to \<open>commitIndex\<close>.\<close>

fun advance_from :: "nat \<Rightarrow> node \<Rightarrow> node" where
  "advance_from 0 n = n"
| "advance_from (Suc i) n =
     (if Suc i > commitIndex n then
        if le_term (rlog n ! i) \<noteq> currentTerm n then advance_from i n
        else if replica_count n (Suc i) \<ge> majority n
        then notifyChange (advanceLastApplied (n\<lparr>commitIndex := Suc i\<rparr>))
        else advance_from i n
      else n)"

definition maybeAdvanceCommitIndex :: "node \<Rightarrow> node" where
  "maybeAdvanceCommitIndex n = advance_from (lastLogIndex n) n"

definition handleAppendEntriesReply :: "nat \<Rightarrow> AppendEntriesReply \<Rightarrow> node \<Rightarrow> outcome" where
  "handleAppendEntriesReply peer reply n =
     (let n1 = maybeStepDown (aer_term reply) n
      in if role n1 \<noteq> Leader then Some (n1, [])
         else if aer_success reply then
           (case (if aer_matchIndex reply > go_get (matchIndex n1) peer
                  then go_put (matchIndex n1) peer (aer_matchIndex reply) else Some (matchIndex n1)) of
              None \<Rightarrow> None
            | Some mi \<Rightarrow>
                (case go_put (nextIndex n1) peer (go_get mi peer + 1) of
                   None \<Rightarrow> None
                 | Some ni \<Rightarrow> Some (maybeAdvanceCommitIndex (n1\<lparr>matchIndex := mi, nextIndex := ni\<rparr>), [])))
         else if go_get (nextIndex n1) peer > 1 then
           (case go_put (nextIndex n1) peer (go_get (nextIndex n1) peer - 1) of
              None \<Rightarrow> None
            | Some ni \<Rightarrow> Some (n1\<lparr>nextIndex := ni\<rparr>, []))
         else Some (n1, []))"

section \<open>The event loop and the entry points\<close>

definition handleMessage :: "Message \<Rightarrow> node \<Rightarrow> outcome" where
  "handleMessage m n =
     (case msg_body m of
        RequestVote a \<Rightarrow> Some (handleRequestVote (msg_from m) a n)
      | VoteReply r \<Rightarrow> handleRequestVoteReply (msg_from m) r n
      | AppendEntries a \<Rightarrow> Some (handleAppendEntries (msg_from m) a n)
      | AppendReply r \<Rightarrow> handleAppendEntriesReply (msg_from m) r n)"

text \<open>The \<open>Inbox\<close> case of \<open>Run\<close>: a crashed node drops the message.\<close>

definition run_inbox :: "Message \<Rightarrow> node \<Rightarrow> outcome" where
  "run_inbox m n = (if \<not> alive n then Some (n, []) else handleMessage m n)"

text \<open>The \<open>electionTimer\<close> case of \<open>Run\<close>; the tick is consumed before the test.\<close>

definition run_timer :: "node \<Rightarrow> outcome" where
  "run_timer n =
     (let n1 = n\<lparr>timerArmed := False\<rparr>
      in if \<not> alive n1 then Some (n1, []) else Some (startElection n1))"

definition SubmitCommand :: "string \<Rightarrow> node \<Rightarrow> (node \<times> Message list \<times> bool) option" where
  "SubmitCommand cmd n =
     (if role n \<noteq> Leader then Some (n, [], False)
      else
        let entry = \<lparr>le_index = length (rlog n) + 1, le_term = currentTerm n, le_command = cmd\<rparr>;
            n1 = notifyChange (n\<lparr>rlog := rlog n @ [entry]\<rparr>)
        in case send_to_all (peers n1) n1 of
             None \<Rightarrow> None
           | Some ms \<Rightarrow> Some (n1, ms, True))"

definition Kill :: "node \<Rightarrow> node" where
  "Kill n = notifyChange ((closeHeartbeatStop (n\<lparr>alive := False\<rparr>))\<lparr>timerArmed := False\<rparr>)"

definition Restart :: "node \<Rightarrow> node" where
  "Restart n = notifyChange (resetElectionTimer (n\<lparr>alive := True, role := Follower\<rparr>))"

definition IsLeader :: "node \<Rightarrow> bool" where
  "IsLeader n = (role n = Leader \<and> alive n)"

definition snapshot :: "node \<Rightarrow> Snapshot" where
  "snapshot n =
     \<lparr>sn_id = node_id n, sn_role = role_str (role n), sn_term = currentTerm n, sn_alive = alive n,
      sn_votedFor = (case votedFor n of None \<Rightarrow> - 1 | Some v \<Rightarrow> int v),
      sn_commitIndex = commitIndex n, sn_lastApplied = lastApplied n, sn_log = rlog n\<rparr>"

end
