(* ===== verification/Raft_Lemmas.thy ===== *)
theory Raft_Lemmas
  imports Raft_Node
begin

text \<open>
  A node alone: what one event of its loop, one heartbeat tick or one entry point can change.
  Terms and commit points never go back, a vote stands for its term, the follower's
  append loop equals a closed form, and a handler panics only in the states named here.
\<close>

section \<open>Node events\<close>

datatype node_event =
    Recv Message
  | Timer
  | Tick
  | Drain
  | Cmd string
  | Crash
  | Revive

fun node_step :: "node_event \<Rightarrow> node \<Rightarrow> outcome" where
  "node_step (Recv m) n = run_inbox m n"
| "node_step Timer n = run_timer n"
| "node_step Tick n = heartbeatTick n"
| "node_step Drain n = Some (n\<lparr>changeCh := False\<rparr>, [])"
| "node_step (Cmd cmd) n = map_option (\<lambda>(n', ms, ok). (n', ms)) (SubmitCommand cmd n)"
| "node_step Crash n = Some (Kill n, [])"
| "node_step Revive n = Some (Restart n, [])"

section \<open>Which fields the helpers touch\<close>

lemma closeHeartbeatStop_sel [simp]:
  "node_id (closeHeartbeatStop n) = node_id n" "peers (closeHeartbeatStop n) = peers n"
  "currentTerm (closeHeartbeatStop n) = currentTerm n" "votedFor (closeHeartbeatStop n) = votedFor n"
  "rlog (closeHeartbeatStop n) = rlog n" "commitIndex (closeHeartbeatStop n) = commitIndex n"
  "lastApplied (closeHeartbeatStop n) = lastApplied n" "nextIndex (closeHeartbeatStop n) = nextIndex n"
  "matchIndex (closeHeartbeatStop n) = matchIndex n" "role (closeHeartbeatStop n) = role n"
  "votesReceived (closeHeartbeatStop n) = votesReceived n" "alive (closeHeartbeatStop n) = alive n"
  by (auto simp: closeHeartbeatStop_def split: option.split)

lemma notify_reset_sel [simp]:
  "node_id (notifyChange n) = node_id n" "peers (notifyChange n) = peers n"
  "currentTerm (notifyChange n) = currentTerm n" "votedFor (notifyChange n) = votedFor n"
  "rlog (notifyChange n) = rlog n" "commitIndex (notifyChange n) = commitIndex n"
  "lastApplied (notifyChange n) = lastApplied n" "nextIndex (notifyChange n) = nextIndex n"
  "matchIndex (notifyChange n) = matchIndex n" "role (notifyChange n) = role n"
  "votesReceived (notifyChange n) = votesReceived n" "alive (notifyChange n) = alive n"
  "hb_loops (notifyChange n) = hb_loops n" "heartbeatStop (notifyChange n) = heartbeatStop n"
  "node_id (resetElectionTimer n) = node_id n" "peers (resetElectionTimer n) = peers n"
  "currentTerm (resetElectionTimer n) = currentTerm n" "votedFor (resetElectionTimer n) = votedFor n"
  "rlog (resetElectionTimer n) = rlog n" "commitIndex (resetElectionTimer n) = commitIndex n"
  "lastApplied (resetElectionTimer n) = lastApplied n" "nextIndex (resetElectionTimer n) = nextIndex n"
  "matchIndex (resetElectionTimer n) = matchIndex n" "role (resetElectionTimer n) = role n"
  "votesReceived (resetElectionTimer n) = votesReceived n" "alive (resetElectionTimer n) = alive n"
  "hb_loops (resetElectionTimer n) = hb_loops n" "heartbeatStop (resetElectionTimer n) = heartbeatStop n"
  by (simp_all add: notifyChange_def resetElectionTimer_def)

lemma maybeStepDown_sel [simp]:
  "node_id (maybeStepDown t n) = node_id n" "peers (maybeStepDown t n) = peers n"
  "rlog (maybeStepDown t n) = rlog n" "commitIndex (maybeStepDown t n) = commitIndex n"
  "lastApplied (maybeStepDown t n) = lastApplied n" "nextIndex (maybeStepDown t n) = nextIndex n"
  "matchIndex (maybeStepDown t n) = matchIndex n" "alive (maybeStepDown t n) = alive n"
  "votesReceived (maybeStepDown t n) = votesReceived n"
  "currentTerm (maybeStepDown t n) = max t (currentTerm n)"
  "votedFor (maybeStepDown t n) = (if t > currentTerm n then None else votedFor n)"
  "role (maybeStepDown t n) = (if t > currentTerm n then Follower else role n)"
  by (simp_all add: maybeStepDown_def Let_def)

lemma advanceLastApplied_sel [simp]:
  "node_id (advanceLastApplied n) = node_id n" "peers (advanceLastApplied n) = peers n"
  "currentTerm (advanceLastApplied n) = currentTerm n" "votedFor (advanceLastApplied n) = votedFor n"
  "rlog (advanceLastApplied n) = rlog n" "commitIndex (advanceLastApplied n) = commitIndex n"
  "nextIndex (advanceLastApplied n) = nextIndex n" "matchIndex (advanceLastApplied n) = matchIndex n"
  "role (advanceLastApplied n) = role n" "votesReceived (advanceLastApplied n) = votesReceived n"
  "alive (advanceLastApplied n) = alive n" "lastApplied (advanceLastApplied n) = max (commitIndex n) (lastApplied n)"
  by (auto simp: advanceLastApplied_def)

lemma advance_from_sel [simp]:
  "node_id (advance_from i n) = node_id n" "peers (advance_from i n) = peers n"
  "currentTerm (advance_from i n) = currentTerm n" "votedFor (advance_from i n) = votedFor n"
  "rlog (advance_from i n) = rlog n" "nextIndex (advance_from i n) = nextIndex n"
  "matchIndex (advance_from i n) = matchIndex n" "role (advance_from i n) = role n"
  "votesReceived (advance_from i n) = votesReceived n" "alive (advance_from i n) = alive n"
  by (induction i n rule: advance_from.induct) simp_all

lemma maybeAdvanceCommitIndex_sel [simp]:
  "node_id (maybeAdvanceCommitIndex n) = node_id n" "peers (maybeAdvanceCommitIndex n) = peers n"
  "currentTerm (maybeAdvanceCommitIndex n) = currentTerm n" "votedFor (maybeAdvanceCommitIndex n) = votedFor n"
  "rlog (maybeAdvanceCommitIndex n) = rlog n" "nextIndex (maybeAdvanceCommitIndex n) = nextIndex n"
  "matchIndex (maybeAdvanceCommitIndex n) = matchIndex n" "role (maybeAdvanceCommitIndex n) = role n"
  "votesReceived (maybeAdvanceCommitIndex n) = votesReceived n" "alive (maybeAdvanceCommitIndex n) = alive n"
  by (simp_all add: maybeAdvanceCommitIndex_def)

lemma follow_commit_sel [simp]:
  "node_id (follow_commit c n) = node_id n" "peers (follow_commit c n) = peers n"
  "currentTerm (follow_commit c n) = currentTerm n" "votedFor (follow_commit c n) = votedFor n"
  "rlog (follow_commit c n) = rlog n" "nextIndex (follow_commit c n) = nextIndex n"
  "matchIndex (follow_commit c n) = matchIndex n" "role (follow_commit c n) = role n"
  "votesReceived (follow_commit c n) = votesReceived n" "alive (follow_commit c n) = alive n"
  "commitIndex (follow_commit c n) = (if c > commitIndex n then min c (length (rlog n)) else commitIndex n)"
  by (auto simp: follow_commit_def lastLogIndex_def)

lemma lastLog_cong [simp]:
  "lastLogIndex (notifyChange n) = lastLogIndex n" "lastLogIndex (resetElectionTimer n) = lastLogIndex n"
  "lastLogTerm (notifyChange n) = lastLogTerm n" "lastLogTerm (resetElectionTimer n) = lastLogTerm n"
  by (simp_all add: lastLogIndex_def lastLogTerm_def)

section \<open>Commit points\<close>

lemma advance_from_commit:
  "commitIndex n \<le> commitIndex (advance_from i n) \<and>
   (lastApplied n = commitIndex n \<longrightarrow> lastApplied (advance_from i n) = commitIndex (advance_from i n))"
  by (induction i n rule: advance_from.induct) auto

text \<open>What a leader commits is its own, of its own term, and acknowledged by a majority.\<close>

lemma advance_from_justified:
  "commitIndex (advance_from i n) = commitIndex n \<or>
   (commitIndex n < commitIndex (advance_from i n) \<and> commitIndex (advance_from i n) \<le> i \<and>
    le_term (rlog n ! (commitIndex (advance_from i n) - 1)) = currentTerm n \<and>
    majority n \<le> replica_count n (commitIndex (advance_from i n)))"
  by (induction i n rule: advance_from.induct) auto

text \<open>and it is the greatest such index.\<close>

lemma advance_from_greatest:
  assumes "commitIndex n < j" and "j \<le> i" and "le_term (rlog n ! (j - 1)) = currentTerm n"
    and "majority n \<le> replica_count n j"
  shows "j \<le> commitIndex (advance_from i n)"
  using assms
proof (induction i n rule: advance_from.induct)
  case (2 i n)
  show ?case
  proof (cases "j = Suc i")
    case True
    with 2 show ?thesis by simp
  next
    case False
    with 2 show ?thesis by auto
  qed
qed simp

section \<open>Becoming leader and sending\<close>

lemma send_to_all_Some:
  assumes "\<And>p. p \<in> set ps \<Longrightarrow> 0 < go_get (nextIndex n) p"
  shows "\<exists>ms. send_to_all ps n = Some ms"
  using assms by (induction ps) (auto simp: sendAppendEntries_def Let_def)

lemma send_to_all_mem:
  assumes "send_to_all ps n = Some ms" and "m \<in> set ms"
  shows "\<exists>p \<in> set ps. sendAppendEntries p n = Some m"
  using assms by (induction ps arbitrary: ms) (auto split: option.splits)

lemma sendHeartbeatsLocked_mem:
  "sendHeartbeatsLocked n = Some ms \<Longrightarrow> m \<in> set ms \<Longrightarrow> \<exists>p \<in> set (peers n). sendAppendEntries p n = Some m"
  by (auto simp: sendHeartbeatsLocked_def split: if_splits dest: send_to_all_mem)

lemma sendAppendEntries_msg:
  assumes "sendAppendEntries p n = Some m"
  obtains a where "msg_from m = node_id n" "msg_to m = p" "msg_body m = AppendEntries a"
    "ae_term a = currentTerm n" "ae_leader a = node_id n" "ae_leaderCommit a = commitIndex n"
    "ae_entries a = drop (ae_prevLogIndex a) (rlog n)"
    "ae_prevLogTerm a = (if 0 < ae_prevLogIndex a \<and> ae_prevLogIndex a \<le> length (rlog n)
                         then le_term (rlog n ! (ae_prevLogIndex a - 1)) else 0)"
proof -
  define nxt where "nxt = go_get (nextIndex n) p"
  have "nxt \<noteq> 0" using assms by (auto simp: sendAppendEntries_def nxt_def Let_def split: if_splits)
  then obtain k where k: "nxt = Suc k" by (cases nxt) auto
  show ?thesis
    by (rule that [of "\<lparr>ae_term = currentTerm n, ae_leader = node_id n, ae_prevLogIndex = k,
        ae_prevLogTerm = (if 0 < k \<and> k \<le> length (rlog n) then le_term (rlog n ! (k - 1)) else 0),
        ae_entries = drop k (rlog n), ae_leaderCommit = commitIndex n\<rparr>"])
      (use assms k in \<open>auto simp: sendAppendEntries_def Let_def nxt_def [symmetric] Suc_le_eq split: if_splits\<close>)
qed

lemma becomeLeader_Some: "\<exists>n' ms. becomeLeader n = Some (n', ms)"
proof -
  have "\<exists>ms. sendHeartbeatsLocked (notifyChange (n\<lparr>role := Leader,
      nextIndex := Some (\<lambda>p. if p \<in> set (peers n) then Some (Suc (lastLogIndex n)) else None),
      matchIndex := Some (\<lambda>p. if p \<in> set (peers n) then Some 0 else None)\<rparr>)) = Some ms"
    unfolding sendHeartbeatsLocked_def
    by (auto intro!: send_to_all_Some simp: go_get_def)
  then show ?thesis by (auto simp: becomeLeader_def Let_def)
qed

lemma becomeLeader_sel:
  assumes "becomeLeader n = Some (n', ms)"
  shows "node_id n' = node_id n" "peers n' = peers n" "currentTerm n' = currentTerm n"
    "votedFor n' = votedFor n" "rlog n' = rlog n" "commitIndex n' = commitIndex n"
    "lastApplied n' = lastApplied n" "role n' = Leader" "votesReceived n' = votesReceived n"
    "alive n' = alive n" "hb_loops n' = hb_loops n @ [fresh_chan n]"
    "\<And>p. p \<in> set (peers n) \<Longrightarrow> go_get (nextIndex n') p = length (rlog n) + 1"
    "\<And>p. go_get (matchIndex n') p = 0" "nextIndex n' \<noteq> None" "matchIndex n' \<noteq> None"
  using assms
  by (auto simp: becomeLeader_def Let_def go_get_def lastLogIndex_def notifyChange_def
      split: option.splits if_splits)

lemma becomeLeader_mem:
  assumes "becomeLeader n = Some (n', ms)" and "m \<in> set ms"
  shows "\<exists>p \<in> set (peers n'). sendAppendEntries p n' = Some m"
proof -
  obtain n2 where n2: "sendHeartbeatsLocked n2 = Some ms" "peers n' = peers n2"
      "\<And>p. sendAppendEntries p n' = sendAppendEntries p n2"
    using assms(1) by (auto simp: becomeLeader_def Let_def sendAppendEntries_def split: option.splits)
  then show ?thesis using sendHeartbeatsLocked_mem [OF n2(1) assms(2)] by simp
qed

section \<open>The follower's append loop\<close>

text \<open>How many leading entries agree in term with the log from the same position.\<close>

fun match_len :: "LogEntry list \<Rightarrow> LogEntry list \<Rightarrow> nat" where
  "match_len (e # es) (x # xs) = (if le_term x = le_term e then Suc (match_len es xs) else 0)"
| "match_len _ _ = 0"

definition append_spec :: "nat \<Rightarrow> LogEntry list \<Rightarrow> LogEntry list \<Rightarrow> LogEntry list" where
  "append_spec p es l =
     (let k = match_len es (drop p l)
      in if k = length es then l else take (p + k) l @ drop k es)"

lemma append_entries_at_end: "append_entries (Suc (length l)) es l = l @ es"
proof (induction es arbitrary: l)
  case (Cons e es)
  from Cons [of "l @ [e]"] show ?case by simp
qed simp

lemma append_entries_spec: "p \<le> length l \<Longrightarrow> append_entries (p + 1) es l = append_spec p es l"
proof (induction es arbitrary: p l)
  case Nil
  then show ?case by (simp add: append_spec_def)
next
  case (Cons e es)
  show ?case
  proof (cases "p < length l")
    case False
    with Cons.prems have "p = length l" by simp
    then show ?thesis
      using append_entries_at_end [of l "e # es"] by (simp add: append_spec_def)
  next
    case True
    then have d: "drop p l = l ! p # drop (Suc p) l" by (simp add: Cons_nth_drop_Suc)
    show ?thesis
    proof (cases "le_term (l ! p) = le_term e")
      case match: True
      then show ?thesis
        using True Cons.IH [of "Suc p" l] by (simp add: append_spec_def d Let_def)
    next
      case False
      have "append_entries (Suc (length (take p l @ [e]))) es (take p l @ [e]) = (take p l @ [e]) @ es"
        by (rule append_entries_at_end)
      with True False show ?thesis by (simp add: append_spec_def d Let_def)
    qed
  qed
qed

lemma match_len_le: "match_len es xs \<le> length es \<and> match_len es xs \<le> length xs"
  by (induction es xs rule: match_len.induct) auto

lemma match_len_terms:
  "map le_term (take (match_len es xs) xs) = map le_term (take (match_len es xs) es)"
  by (induction es xs rule: match_len.induct) auto

lemma match_len_maximal:
  "match_len es xs < length es \<Longrightarrow> match_len es xs < length xs \<Longrightarrow>
     le_term (xs ! match_len es xs) \<noteq> le_term (es ! match_len es xs)"
  by (induction es xs rule: match_len.induct) auto

lemma append_spec_prefix: "p \<le> length l \<Longrightarrow> take p (append_spec p es l) = take p l"
  using match_len_le [of es "drop p l"]
  by (auto simp: append_spec_def Let_def min_def)

lemma append_spec_length:
  "p \<le> length l \<Longrightarrow> p + length es \<le> length (append_spec p es l)"
  using match_len_le [of es "drop p l"]
  by (auto simp: append_spec_def Let_def min_def)

lemma append_spec_terms:
  assumes "p \<le> length l"
  shows "map le_term (take (length es) (drop p (append_spec p es l))) = map le_term es"
proof -
  let ?k = "match_len es (drop p l)"
  have k: "?k \<le> length es" "?k \<le> length l - p"
    using match_len_le [of es "drop p l"] by simp_all
  have t: "map le_term (take ?k (drop p l)) = map le_term (take ?k es)"
    by (rule match_len_terms)
  show ?thesis
  proof (cases "?k = length es")
    case True
    with t show ?thesis by (simp add: append_spec_def Let_def)
  next
    case False
    have "drop p (take (p + ?k) l @ drop ?k es) = take ?k (drop p l) @ drop ?k es"
      using k assms by (simp add: drop_take)
    then have "map le_term (take (length es) (drop p (append_spec p es l))) =
        map le_term (take ?k (drop p l)) @ map le_term (drop ?k es)"
      using False k by (simp add: append_spec_def Let_def)
    also have "\<dots> = map le_term (take ?k es @ drop ?k es)"
      unfolding map_append t ..
    finally show ?thesis by simp
  qed
qed

section \<open>Inversion of the handlers\<close>

lemma handleRequestVoteReply_cases:
  assumes "handleRequestVoteReply from r n = Some (n', ms)"
  obtains (ignored) "role (maybeStepDown (rvr_term r) n) \<noteq> Candidate" "n' = maybeStepDown (rvr_term r) n" "ms = []"
  | (counted) vs where "role n = Candidate" "rvr_term r \<le> currentTerm n"
      "n' = (if rvr_granted r then n\<lparr>votesReceived := Some vs\<rparr> else n)" "ms = []"
      "rvr_granted r \<longrightarrow> (\<exists>old. votesReceived n = Some old \<and> vs = List.insert from old)"
  | (won) n2 vs where "role n = Candidate" "rvr_term r \<le> currentTerm n"
      "n2 = (if rvr_granted r then n\<lparr>votesReceived := Some vs\<rparr> else n)"
      "rvr_granted r \<longrightarrow> (\<exists>old. votesReceived n = Some old \<and> vs = List.insert from old)"
      "\<exists>ws. votesReceived n2 = Some ws \<and> majority n \<le> length ws"
      "becomeLeader n2 = Some (n', ms)"
proof -
  have maj: "0 < majority n" "majority (n\<lparr>votesReceived := v\<rparr>) = majority n" for v
    by (simp_all add: majority_def)
  have down: "maybeStepDown (rvr_term r) n = n" if "rvr_term r \<le> currentTerm n"
    using that by (simp add: maybeStepDown_def)
  show ?thesis
  proof (cases "role (maybeStepDown (rvr_term r) n) \<noteq> Candidate")
    case True
    with assms show ?thesis by (intro ignored) (auto simp: handleRequestVoteReply_def Let_def)
  next
    case False
    then have c: "rvr_term r \<le> currentTerm n" "role n = Candidate" by (auto split: if_splits)
    show ?thesis
    proof (cases "rvr_granted r")
      case True
      then obtain old where old: "votesReceived n = Some old"
        using assms c by (auto simp: handleRequestVoteReply_def Let_def down split: option.splits)
      show ?thesis
      proof (cases "majority n \<le> length (List.insert from old)")
        case leader: True
        with assms c True old show ?thesis
          by (intro won [of "n\<lparr>votesReceived := Some (List.insert from old)\<rparr>" "List.insert from old"])
            (auto simp: handleRequestVoteReply_def Let_def down maj)
      next
        case no: False
        with assms c True old show ?thesis
          by (intro counted [of "List.insert from old"])
            (auto simp: handleRequestVoteReply_def Let_def down maj)
      qed
    next
      case refused: False
      show ?thesis
      proof (cases "majority n \<le> (case votesReceived n of None \<Rightarrow> 0 | Some vs \<Rightarrow> length vs)")
        case True
        with assms c refused maj(1) show ?thesis
          by (intro won [of n "[]"]) (auto simp: handleRequestVoteReply_def Let_def down split: option.splits)
      next
        case False
        with assms c refused show ?thesis
          by (intro counted [of "[]"]) (auto simp: handleRequestVoteReply_def Let_def down)
      qed
    qed
  qed
qed

lemma go_put_SomeD:
  assumes "go_put m k v = Some m'"
  shows "\<exists>f. m' = Some f \<and> go_get (Some f) = (go_get m)(k := v)"
proof (cases m)
  case None
  with assms show ?thesis by (simp add: go_put_def)
next
  case (Some f)
  with assms have "m' = Some (f(k \<mapsto> v))" by (simp add: go_put_def)
  moreover have "go_get (Some (f(k \<mapsto> v))) = (go_get m)(k := v)"
    unfolding Some by (rule ext) (simp add: go_get_def)
  ultimately show ?thesis by blast
qed

lemma handleAppendEntriesReply_cases:
  assumes "handleAppendEntriesReply peer r n = Some (n', ms)"
  obtains (ignored) "role (maybeStepDown (aer_term r) n) \<noteq> Leader" "n' = maybeStepDown (aer_term r) n" "ms = []"
  | (matched) mi ni where "role n = Leader" "aer_term r \<le> currentTerm n" "aer_success r" "ms = []"
      "n' = maybeAdvanceCommitIndex (n\<lparr>matchIndex := mi, nextIndex := Some ni\<rparr>)"
      "go_get mi = (go_get (matchIndex n))(peer := max (aer_matchIndex r) (go_get (matchIndex n) peer))"
      "mi = None \<longrightarrow> matchIndex n = None"
      "go_get (Some ni) = (go_get (nextIndex n))(peer := go_get mi peer + 1)"
  | (backed_off) ni where "role n = Leader" "aer_term r \<le> currentTerm n" "\<not> aer_success r" "ms = []"
      "n' = n\<lparr>nextIndex := Some ni\<rparr>" "1 < go_get (nextIndex n) peer"
      "go_get (Some ni) = (go_get (nextIndex n))(peer := go_get (nextIndex n) peer - 1)"
  | (floor) "role n = Leader" "aer_term r \<le> currentTerm n" "\<not> aer_success r" "ms = []"
      "n' = n" "go_get (nextIndex n) peer \<le> 1"
proof -
  have down: "maybeStepDown (aer_term r) n = n" if "aer_term r \<le> currentTerm n"
    using that by (simp add: maybeStepDown_def)
  note put = go_put_SomeD
  show ?thesis
  proof (cases "role (maybeStepDown (aer_term r) n) \<noteq> Leader")
    case True
    with assms show ?thesis by (intro ignored) (auto simp: handleAppendEntriesReply_def Let_def)
  next
    case False
    then have c: "aer_term r \<le> currentTerm n" "role n = Leader" by (auto split: if_splits)
    show ?thesis
    proof (cases "aer_success r")
      case True
      obtain mi where mi: "(if aer_matchIndex r > go_get (matchIndex n) peer
          then go_put (matchIndex n) peer (aer_matchIndex r) else Some (matchIndex n)) = Some mi"
        and n': "\<exists>ni. go_put (nextIndex n) peer (go_get mi peer + 1) = Some ni \<and> ms = [] \<and>
            n' = maybeAdvanceCommitIndex (n\<lparr>matchIndex := mi, nextIndex := ni\<rparr>)"
        using assms c True
        by (auto simp: handleAppendEntriesReply_def Let_def down split: option.splits if_splits)
      have "go_get mi = (go_get (matchIndex n))(peer := max (aer_matchIndex r) (go_get (matchIndex n) peer))"
        "mi = None \<longrightarrow> matchIndex n = None"
        using mi by (auto simp: max_def dest: put split: if_splits)
      moreover obtain ni where "go_put (nextIndex n) peer (go_get mi peer + 1) = Some (Some ni)"
          "go_get (Some ni) = (go_get (nextIndex n))(peer := go_get mi peer + 1)" "ms = []"
          "n' = maybeAdvanceCommitIndex (n\<lparr>matchIndex := mi, nextIndex := Some ni\<rparr>)"
        using n' put by blast
      ultimately show ?thesis using c True by (intro matched [of ni mi]) simp_all
    next
      case failed: False
      show ?thesis
      proof (cases "1 < go_get (nextIndex n) peer")
        case True
        then obtain m' where m': "go_put (nextIndex n) peer (go_get (nextIndex n) peer - 1) = Some m'"
            "n' = n\<lparr>nextIndex := m'\<rparr>" "ms = []"
          using assms c failed by (auto simp: handleAppendEntriesReply_def Let_def down split: option.splits)
        then obtain ni where "m' = Some ni"
            "go_get (Some ni) = (go_get (nextIndex n))(peer := go_get (nextIndex n) peer - 1)"
          using put by blast
        with m' c failed True show ?thesis by (intro backed_off [of ni]) simp_all
      next
        case False
        with assms c failed show ?thesis
          by (intro floor) (simp_all add: handleAppendEntriesReply_def Let_def down)
      qed
    qed
  qed
qed

lemma SubmitCommand_cases:
  assumes "SubmitCommand cmd n = Some (n', ms, ok)"
  obtains (refused) "role n \<noteq> Leader" "n' = n" "ms = []" "\<not> ok"
  | (taken) "role n = Leader" "ok"
      "n' = notifyChange (n\<lparr>rlog := rlog n @ [\<lparr>le_index = length (rlog n) + 1, le_term = currentTerm n, le_command = cmd\<rparr>]\<rparr>)"
      "send_to_all (peers n') n' = Some ms"
  using assms by (auto simp: SubmitCommand_def Let_def split: if_splits option.splits)

section \<open>What every event keeps\<close>

lemma handleAppendEntries_sel:
  "node_id (fst (handleAppendEntries f a n)) = node_id n" "peers (fst (handleAppendEntries f a n)) = peers n"
  "currentTerm (fst (handleAppendEntries f a n)) = max (ae_term a) (currentTerm n)"
  "votedFor (fst (handleAppendEntries f a n)) = (if ae_term a > currentTerm n then None else votedFor n)"
  "nextIndex (fst (handleAppendEntries f a n)) = nextIndex n"
  "matchIndex (fst (handleAppendEntries f a n)) = matchIndex n"
  "votesReceived (fst (handleAppendEntries f a n)) = votesReceived n"
  "alive (fst (handleAppendEntries f a n)) = alive n"
  "role (fst (handleAppendEntries f a n)) = (if ae_term a < currentTerm n then role n else Follower)"
  by (auto simp: handleAppendEntries_def Let_def)

lemma handleRequestVote_sel:
  "node_id (fst (handleRequestVote f a n)) = node_id n" "peers (fst (handleRequestVote f a n)) = peers n"
  "currentTerm (fst (handleRequestVote f a n)) = max (rv_term a) (currentTerm n)"
  "rlog (fst (handleRequestVote f a n)) = rlog n" "commitIndex (fst (handleRequestVote f a n)) = commitIndex n"
  "lastApplied (fst (handleRequestVote f a n)) = lastApplied n"
  "nextIndex (fst (handleRequestVote f a n)) = nextIndex n"
  "matchIndex (fst (handleRequestVote f a n)) = matchIndex n"
  "votesReceived (fst (handleRequestVote f a n)) = votesReceived n"
  "alive (fst (handleRequestVote f a n)) = alive n"
  "role (fst (handleRequestVote f a n)) = (if rv_term a > currentTerm n then Follower else role n)"
  by (auto simp: handleRequestVote_def Let_def)

lemma startElection_sel:
  "node_id (fst (startElection n)) = node_id n" "peers (fst (startElection n)) = peers n"
  "currentTerm (fst (startElection n)) = currentTerm n + 1" "votedFor (fst (startElection n)) = Some (node_id n)"
  "rlog (fst (startElection n)) = rlog n" "commitIndex (fst (startElection n)) = commitIndex n"
  "lastApplied (fst (startElection n)) = lastApplied n" "nextIndex (fst (startElection n)) = nextIndex n"
  "matchIndex (fst (startElection n)) = matchIndex n" "votesReceived (fst (startElection n)) = Some [node_id n]"
  "alive (fst (startElection n)) = alive n" "role (fst (startElection n)) = Candidate"
  by (simp_all add: startElection_def Let_def)

text \<open>A running node handles a message or starts an election; the other events are as they are.\<close>

lemma node_step_cases:
  assumes "node_step e n = Some (n', ms)"
  obtains (dead) m where "e = Recv m" "\<not> alive n" "n' = n" "ms = []"
  | (vote) m a where "e = Recv m" "alive n" "msg_body m = RequestVote a" "(n', ms) = handleRequestVote (msg_from m) a n"
  | (vote_reply) m r where "e = Recv m" "alive n" "msg_body m = VoteReply r" "handleRequestVoteReply (msg_from m) r n = Some (n', ms)"
  | (append) m a where "e = Recv m" "alive n" "msg_body m = AppendEntries a" "(n', ms) = handleAppendEntries (msg_from m) a n"
  | (append_reply) m r where "e = Recv m" "alive n" "msg_body m = AppendReply r" "handleAppendEntriesReply (msg_from m) r n = Some (n', ms)"
  | (late_timer) "e = Timer" "\<not> alive n" "n' = n\<lparr>timerArmed := False\<rparr>" "ms = []"
  | (election) "e = Timer" "alive n" "(n', ms) = startElection (n\<lparr>timerArmed := False\<rparr>)"
  | (idle_tick) "e = Tick" "\<not> IsLeader n" "n' = n" "ms = []"
  | (heartbeat) "e = Tick" "IsLeader n" "n' = n" "sendHeartbeatsLocked n = Some ms"
  | (drain) "e = Drain" "n' = n\<lparr>changeCh := False\<rparr>" "ms = []"
  | (command) cmd ok where "e = Cmd cmd" "SubmitCommand cmd n = Some (n', ms, ok)"
  | (crash) "e = Crash" "n' = Kill n" "ms = []"
  | (revive) "e = Revive" "n' = Restart n" "ms = []"
proof (cases e)
  case (Recv m)
  show ?thesis
  proof (cases "alive n")
    case False
    then show ?thesis using assms Recv by (intro dead [of m]) (simp_all add: run_inbox_def)
  next
    case True
    then have r: "handleMessage m n = Some (n', ms)"
      using assms Recv by (simp add: run_inbox_def)
    show ?thesis
    proof (cases "msg_body m")
      case (RequestVote a)
      with Recv True r show ?thesis by (intro vote [of m a]) (simp_all add: handleMessage_def)
    next
      case (VoteReply a)
      with Recv True r show ?thesis by (intro vote_reply [of m a]) (simp_all add: handleMessage_def)
    next
      case (AppendEntries a)
      with Recv True r show ?thesis by (intro append [of m a]) (simp_all add: handleMessage_def)
    next
      case (AppendReply a)
      with Recv True r show ?thesis by (intro append_reply [of m a]) (simp_all add: handleMessage_def)
    qed
  qed
next
  case Timer
  show ?thesis
  proof (cases "alive n")
    case True
    with assms Timer show ?thesis by (intro election) (simp_all add: run_timer_def)
  next
    case False
    with assms Timer show ?thesis by (intro late_timer) (simp_all add: run_timer_def)
  qed
next
  case Tick
  show ?thesis
  proof (cases "IsLeader n")
    case True
    with assms Tick show ?thesis
      by (intro heartbeat) (auto simp: heartbeatTick_def IsLeader_def split: option.splits)
  next
    case False
    with assms Tick show ?thesis
      by (intro idle_tick) (auto simp: heartbeatTick_def IsLeader_def split: if_splits)
  qed
next
  case Drain
  with assms show ?thesis by (intro drain) simp_all
next
  case (Cmd cmd)
  with assms obtain ok where "SubmitCommand cmd n = Some (n', ms, ok)" by auto
  with Cmd show ?thesis by (rule command)
next
  case Crash
  with assms show ?thesis by (intro crash) simp_all
next
  case Revive
  with assms show ?thesis by (intro revive) simp_all
qed

lemma node_step_identity:
  assumes "node_step e n = Some (n', ms)"
  shows "node_id n' = node_id n \<and> peers n' = peers n"
  using assms
proof (cases rule: node_step_cases)
  case (vote_reply m r)
  from vote_reply(4) show ?thesis
    by (cases rule: handleRequestVoteReply_cases) (auto dest: becomeLeader_sel(1,2) split: if_splits)
next
  case (append_reply m r)
  from append_reply(4) show ?thesis by (cases rule: handleAppendEntriesReply_cases) auto
next
  case (command cmd ok)
  from command(2) show ?thesis by (cases rule: SubmitCommand_cases) auto
qed (auto simp: Kill_def Restart_def handleRequestVote_sel handleAppendEntries_sel startElection_sel
      dest: arg_cong [where f = fst])

lemma node_step_term:
  assumes "node_step e n = Some (n', ms)"
  shows "currentTerm n \<le> currentTerm n'"
  using assms
proof (cases rule: node_step_cases)
  case (vote_reply m r)
  from vote_reply(4) show ?thesis
    by (cases rule: handleRequestVoteReply_cases) (auto dest: becomeLeader_sel(3) split: if_splits)
next
  case (append_reply m r)
  from append_reply(4) show ?thesis by (cases rule: handleAppendEntriesReply_cases) auto
next
  case (command cmd ok)
  from command(2) show ?thesis by (cases rule: SubmitCommand_cases) auto
qed (auto simp: Kill_def Restart_def handleRequestVote_sel handleAppendEntries_sel startElection_sel
      dest: arg_cong [where f = fst])

lemma node_step_vote:
  assumes "node_step e n = Some (n', ms)" and "currentTerm n' = currentTerm n" and "votedFor n = Some v"
  shows "votedFor n' = Some v"
  using assms(1)
proof (cases rule: node_step_cases)
  case (vote m a)
  then have n': "n' = fst (handleRequestVote (msg_from m) a n)" by (metis fst_conv)
  have "rv_term a \<le> currentTerm n"
    using assms(2) by (simp add: n' handleRequestVote_sel)
  with assms(3) show ?thesis by (auto simp: n' handleRequestVote_def Let_def)
next
  case (vote_reply m r)
  from vote_reply(4) assms(2,3) show ?thesis
    by (cases rule: handleRequestVoteReply_cases) (auto dest: becomeLeader_sel(4) split: if_splits)
next
  case (append_reply m r)
  from append_reply(4) assms(2,3) show ?thesis by (cases rule: handleAppendEntriesReply_cases) auto
next
  case (command cmd ok)
  from command(2) assms(3) show ?thesis by (cases rule: SubmitCommand_cases) auto
qed (use assms(2,3) in \<open>auto simp: Kill_def Restart_def handleAppendEntries_sel startElection_sel
      dest!: arg_cong [where f = fst]\<close>)

end
