(* ===== verification/Raft_Cluster.thy ===== *)
theory Raft_Cluster
  imports Raft_Node
begin

text \<open>
  The simulated cluster, \<open>backend/simulator/cluster.go\<close>: the nodes with their mailboxes
  (bounded FIFO channels), the partition table, the window of RPCs in flight and the fault
  injection. Everything that can happen to a cluster is an event of \<open>cluster_step\<close>: a node's
  loop takes the next message of its mailbox, an election timer fires, a heartbeat goroutine
  ticks, a client or an operator calls an entry point, time passes. A step is \<open>None\<close> where
  the Go program panics. One handler is one step: it runs under the node's lock.
\<close>

record InFlightMessage =
  if_from :: nat
  if_to :: nat
  if_type :: string
  if_term :: nat
  if_sentAt :: nat

record ClusterSnapshot =
  cs_nodes :: "Snapshot list"
  cs_inFlight :: "InFlightMessage list"

text \<open>\<open>clock\<close> is the wall clock in milliseconds.\<close>

record cluster =
  cl_nodes :: "node list"
  inboxes :: "Message list list"
  partitioned :: "(nat \<times> nat) set"
  cl_inFlight :: "InFlightMessage list"
  snapshotCh :: bool
  clock :: nat

definition inFlightTTL :: nat where "inFlightTTL = 150"

definition maxInFlight :: nat where "maxInFlight = 256"

definition inbox_capacity :: nat where "inbox_capacity = 128"

definition rpcTypeName :: "rpc_body \<Rightarrow> string" where
  "rpcTypeName b =
     (case b of RequestVote _ \<Rightarrow> ''RequestVote'' | VoteReply _ \<Rightarrow> ''RequestVoteReply''
      | AppendEntries _ \<Rightarrow> ''AppendEntries'' | AppendReply _ \<Rightarrow> ''AppendEntriesReply'')"

definition rpcTerm :: "rpc_body \<Rightarrow> nat" where
  "rpcTerm b =
     (case b of RequestVote a \<Rightarrow> rv_term a | VoteReply r \<Rightarrow> rvr_term r
      | AppendEntries a \<Rightarrow> ae_term a | AppendReply r \<Rightarrow> aer_term r)"

definition pruneInFlight :: "nat \<Rightarrow> InFlightMessage list \<Rightarrow> InFlightMessage list" where
  "pruneInFlight now ms =
     (let live = filter (\<lambda>m. now - if_sentAt m < inFlightTTL) ms
      in if length live > maxInFlight then drop (length live - maxInFlight) live else live)"

definition notifySnapshot :: "cluster \<Rightarrow> cluster" where
  "notifySnapshot c = c\<lparr>snapshotCh := True\<rparr>"

definition New :: "nat \<Rightarrow> cluster" where
  "New n =
     \<lparr>cl_nodes = map (\<lambda>i. NewNode i (filter (\<lambda>j. j \<noteq> i) [0..<n])) [0..<n],
      inboxes = replicate n [], partitioned = {}, cl_inFlight = [], snapshotCh = False, clock = 0\<rparr>"

text \<open>\<open>route\<close>: the message is recorded as in flight even when it is dropped.\<close>

definition route :: "Message \<Rightarrow> cluster \<Rightarrow> cluster option" where
  "route m c =
     (let dropped = ((msg_from m, msg_to m) \<in> partitioned c);
          rec = \<lparr>if_from = msg_from m, if_to = msg_to m, if_type = rpcTypeName (msg_body m),
                 if_term = rpcTerm (msg_body m), if_sentAt = clock c\<rparr>;
          c1 = c\<lparr>cl_inFlight := pruneInFlight (clock c) (cl_inFlight c @ [rec])\<rparr>
      in if dropped then Some c1
         else if msg_to m \<ge> length (inboxes c1) then None
         else if length (inboxes c1 ! msg_to m) < inbox_capacity
         then Some (c1\<lparr>inboxes := (inboxes c1)[msg_to m := inboxes c1 ! msg_to m @ [m]]\<rparr>)
         else Some c1)"

fun route_all :: "Message list \<Rightarrow> cluster \<Rightarrow> cluster option" where
  "route_all [] c = Some c"
| "route_all (m # ms) c = (case route m c of None \<Rightarrow> None | Some c1 \<Rightarrow> route_all ms c1)"

text \<open>A node has run: store it, then deliver what it sent.\<close>

definition node_ran :: "nat \<Rightarrow> outcome \<Rightarrow> cluster \<Rightarrow> cluster option" where
  "node_ran i r c =
     (case r of None \<Rightarrow> None
      | Some (n, ms) \<Rightarrow> route_all ms (c\<lparr>cl_nodes := (cl_nodes c)[i := n]\<rparr>))"

text \<open>\<open>Cluster.SubmitCommand\<close>: the first node that takes the command.\<close>

fun submit_from :: "string \<Rightarrow> nat list \<Rightarrow> cluster \<Rightarrow> (cluster \<times> bool) option" where
  "submit_from cmd [] c = Some (c, False)"
| "submit_from cmd (i # is) c =
     (case SubmitCommand cmd (cl_nodes c ! i) of
        None \<Rightarrow> None
      | Some (n, ms, ok) \<Rightarrow>
          if ok then (case node_ran i (Some (n, ms)) c of None \<Rightarrow> None | Some c1 \<Rightarrow> Some (c1, True))
          else submit_from cmd is c)"

definition cluster_SubmitCommand :: "string \<Rightarrow> cluster \<Rightarrow> (cluster \<times> bool) option" where
  "cluster_SubmitCommand cmd c = submit_from cmd [0..<length (cl_nodes c)] c"

text \<open>\<open>c.nodes[id]\<close> panics on an id out of range, a negative one included.\<close>

definition KillNode :: "int \<Rightarrow> cluster \<Rightarrow> cluster option" where
  "KillNode i c =
     (if i < 0 \<or> i \<ge> int (length (cl_nodes c)) then None
      else Some (c\<lparr>cl_nodes := (cl_nodes c)[nat i := Kill (cl_nodes c ! nat i)]\<rparr>))"

definition RestartNode :: "int \<Rightarrow> cluster \<Rightarrow> cluster option" where
  "RestartNode i c =
     (if i < 0 \<or> i \<ge> int (length (cl_nodes c)) then None
      else Some (c\<lparr>cl_nodes := (cl_nodes c)[nat i := Restart (cl_nodes c ! nat i)]\<rparr>))"

text \<open>The nested loops of \<open>Partition\<close>; a pair with a negative id never matches a message.\<close>

definition Partition :: "int list \<Rightarrow> int list \<Rightarrow> cluster \<Rightarrow> cluster" where
  "Partition groupA groupB c =
     notifySnapshot
       (c\<lparr>partitioned := partitioned c \<union>
            set (concat (map (\<lambda>a. concat (map (\<lambda>b.
              if a \<ge> 0 \<and> b \<ge> 0 then [(nat a, nat b), (nat b, nat a)] else []) groupB)) groupA))\<rparr>)"

definition Heal :: "cluster \<Rightarrow> cluster" where
  "Heal c = notifySnapshot (c\<lparr>partitioned := {}\<rparr>)"

definition buildSnapshot :: "cluster \<Rightarrow> cluster \<times> ClusterSnapshot" where
  "buildSnapshot c =
     (let c1 = c\<lparr>cl_inFlight := pruneInFlight (clock c) (cl_inFlight c)\<rparr>
      in (c1, \<lparr>cs_nodes = map snapshot (cl_nodes c1), cs_inFlight = cl_inFlight c1\<rparr>))"

section \<open>The events of a cluster\<close>

datatype cl_event =
    Deliver nat
  | Timeout nat
  | Heartbeat nat
  | Changed nat
  | Submit string
  | KillEv int
  | RestartEv int
  | PartitionEv "int list" "int list"
  | HealEv
  | Elapse nat

text \<open>
  \<open>Deliver i\<close>: node \<open>i\<close> receives from its inbox. \<open>Heartbeat i\<close>: a heartbeat
  goroutine of node \<open>i\<close> ticks. \<open>Changed i\<close>: node \<open>i\<close> drains its dirty flag and calls
  \<open>onChange\<close>. An event that is not enabled leaves the cluster as it is.
\<close>

fun cluster_step :: "cl_event \<Rightarrow> cluster \<Rightarrow> cluster option" where
  "cluster_step (Deliver i) c =
     (if i < length (cl_nodes c) \<and> i < length (inboxes c) then
        (case inboxes c ! i of
           [] \<Rightarrow> Some c
         | m # rest \<Rightarrow> node_ran i (run_inbox m (cl_nodes c ! i)) (c\<lparr>inboxes := (inboxes c)[i := rest]\<rparr>))
      else Some c)"
| "cluster_step (Timeout i) c =
     (if i < length (cl_nodes c) \<and> timerArmed (cl_nodes c ! i)
      then node_ran i (run_timer (cl_nodes c ! i)) c else Some c)"
| "cluster_step (Heartbeat i) c =
     (if i < length (cl_nodes c) \<and> hb_loops (cl_nodes c ! i) \<noteq> []
      then node_ran i (heartbeatTick (cl_nodes c ! i)) c else Some c)"
| "cluster_step (Changed i) c =
     (if i < length (cl_nodes c) \<and> changeCh (cl_nodes c ! i)
      then Some (notifySnapshot (c\<lparr>cl_nodes := (cl_nodes c)[i := (cl_nodes c ! i)\<lparr>changeCh := False\<rparr>]\<rparr>))
      else Some c)"
| "cluster_step (Submit cmd) c = map_option fst (cluster_SubmitCommand cmd c)"
| "cluster_step (KillEv i) c = KillNode i c"
| "cluster_step (RestartEv i) c = RestartNode i c"
| "cluster_step (PartitionEv a b) c = Some (Partition a b c)"
| "cluster_step HealEv c = Some (Heal c)"
| "cluster_step (Elapse d) c = Some (c\<lparr>clock := clock c + d\<rparr>)"

fun cluster_run :: "cl_event list \<Rightarrow> cluster \<Rightarrow> cluster option" where
  "cluster_run [] c = Some c"
| "cluster_run (e # es) c = (case cluster_step e c of None \<Rightarrow> None | Some c1 \<Rightarrow> cluster_run es c1)"

end
