(* ===== verification/Raft_Network.thy ===== *)
theory Raft_Network
  imports Raft_Lemmas Raft_Cluster
begin

text \<open>
  The abstract network: the nodes of a cluster and the set of all messages ever sent. A
  message once sent may be delivered at any time, more than once, in any order, or never, so
  every behaviour of the mailboxes, the partitions and the scheduler of \<open>Raft_Cluster\<close> is
  one of the network; the simulation at the end proves it. What holds in every reachable
  network therefore holds in every reachable cluster. A step relation is given for any
  admissibility condition \<open>adm\<close> on events, so that a property that needs a condition on
  the schedule names it.
\<close>

record net =
  net_nodes :: "node list"
  sent :: "Message set"

definition net_init :: "nat \<Rightarrow> net" where
  "net_init N = \<lparr>net_nodes = cl_nodes (New N), sent = {}\<rparr>"

inductive net_step :: "(node_event \<Rightarrow> node \<Rightarrow> bool) \<Rightarrow> net \<Rightarrow> net \<Rightarrow> bool"
  for adm :: "node_event \<Rightarrow> node \<Rightarrow> bool" where
  node_acts: "i < length (net_nodes s) \<Longrightarrow> (\<And>m. e = Recv m \<Longrightarrow> m \<in> sent s \<and> msg_to m = i) \<Longrightarrow>
     adm e (net_nodes s ! i) \<Longrightarrow> node_step e (net_nodes s ! i) = Some (n', ms) \<Longrightarrow>
     net_step adm s (s\<lparr>net_nodes := (net_nodes s)[i := n'], sent := sent s \<union> set ms\<rparr>)"

lemma net_step_cases [consumes 1, case_names acts]:
  assumes "net_step adm s t"
  obtains i e n' ms where "i < length (net_nodes s)" "\<And>m. e = Recv m \<Longrightarrow> m \<in> sent s \<and> msg_to m = i"
    "adm e (net_nodes s ! i)" "node_step e (net_nodes s ! i) = Some (n', ms)"
    "t = s\<lparr>net_nodes := (net_nodes s)[i := n'], sent := sent s \<union> set ms\<rparr>"
  using assms by (cases rule: net_step.cases) blast

definition any_event :: "node_event \<Rightarrow> node \<Rightarrow> bool" where
  "any_event e n = True"

abbreviation net_reach :: "(node_event \<Rightarrow> node \<Rightarrow> bool) \<Rightarrow> nat \<Rightarrow> net \<Rightarrow> bool" where
  "net_reach adm N \<equiv> reach (\<lambda>s. s = net_init N) (net_step adm)"

lemma net_step_mono: "net_step adm s t \<Longrightarrow> (\<And>e n. adm e n \<Longrightarrow> adm' e n) \<Longrightarrow> net_step adm' s t"
  by (cases rule: net_step_cases, assumption) (blast intro: net_step.node_acts)

section \<open>Who the nodes are, and that no handler panics\<close>

definition node_ok :: "nat \<Rightarrow> nat \<Rightarrow> node \<Rightarrow> bool" where
  "node_ok N i n \<longleftrightarrow> node_id n = i \<and> peers n = filter (\<lambda>j. j \<noteq> i) [0..<N] \<and>
     (role n = Candidate \<longrightarrow> votesReceived n \<noteq> None) \<and>
     (role n = Leader \<longrightarrow> nextIndex n \<noteq> None \<and> matchIndex n \<noteq> None \<and>
        (\<forall>p \<in> set (peers n). 0 < go_get (nextIndex n) p))"

lemma node_ok_step:
  assumes "node_ok N i n" and "node_step e n = Some (n', ms)"
  shows "node_ok N i n'"
proof -
  have id: "node_id n' = node_id n" "peers n' = peers n"
    using node_step_identity [OF assms(2)] by simp_all
  have "(role n' = Candidate \<longrightarrow> votesReceived n' \<noteq> None) \<and>
     (role n' = Leader \<longrightarrow> nextIndex n' \<noteq> None \<and> matchIndex n' \<noteq> None \<and>
        (\<forall>p \<in> set (peers n). 0 < go_get (nextIndex n') p))"
    using assms(2)
  proof (cases rule: node_step_cases)
    case (vote m a)
    then have "n' = fst (handleRequestVote (msg_from m) a n)" by (metis fst_conv)
    with assms(1) show ?thesis by (simp add: node_ok_def handleRequestVote_sel)
  next
    case (vote_reply m r)
    from vote_reply(4) show ?thesis
    proof (cases rule: handleRequestVoteReply_cases)
      case (won n2 vs)
      have "peers n2 = peers n" using won(3) by (auto split: if_splits)
      with becomeLeader_sel [OF won(6)] show ?thesis by simp
    qed (use assms(1) in \<open>auto simp: node_ok_def\<close>)
  next
    case (append m a)
    then have "n' = fst (handleAppendEntries (msg_from m) a n)" by (metis fst_conv)
    with assms(1) show ?thesis by (simp add: node_ok_def handleAppendEntries_sel)
  next
    case (append_reply m r)
    from append_reply(4) show ?thesis
    proof (cases rule: handleAppendEntriesReply_cases)
      case (matched mi ni)
      with assms(1) show ?thesis by (auto simp: node_ok_def)
    next
      case (backed_off ni)
      with assms(1) show ?thesis by (auto simp: node_ok_def)
    qed (use assms(1) in \<open>auto simp: node_ok_def\<close>)
  next
    case (command cmd ok)
    from command(2) assms(1) show ?thesis
      by (cases rule: SubmitCommand_cases) (auto simp: node_ok_def)
  qed (use assms(1) in \<open>auto simp: node_ok_def Kill_def Restart_def startElection_def Let_def\<close>)
  with assms(1) id show ?thesis by (simp add: node_ok_def)
qed

text \<open>In such a state every event of the node has a result: nothing panics.\<close>

lemma node_step_total:
  assumes "node_ok N i n"
  shows "\<exists>n' ms. node_step e n = Some (n', ms)"
proof (cases e)
  case (Recv m)
  show ?thesis
  proof (cases "msg_body m")
    case (VoteReply r)
    obtain vs where "role (maybeStepDown (rvr_term r) n) = Candidate \<longrightarrow> votesReceived n = Some vs"
      using assms by (auto simp: node_ok_def split: if_splits)
    then show ?thesis
      using becomeLeader_Some
      by (fastforce simp: Recv VoteReply run_inbox_def handleMessage_def handleRequestVoteReply_def Let_def)
  next
    case (AppendReply r)
    show ?thesis
    proof (cases "role (maybeStepDown (aer_term r) n) = Leader")
      case True
      then have "role n = Leader" by (auto split: if_splits)
      then obtain f g where "nextIndex n = Some f" "matchIndex n = Some g"
        using assms by (auto simp: node_ok_def)
      then show ?thesis
        by (auto simp: Recv AppendReply run_inbox_def handleMessage_def handleAppendEntriesReply_def
            Let_def go_put_def)
    next
      case False
      then show ?thesis
        by (auto simp: Recv AppendReply run_inbox_def handleMessage_def handleAppendEntriesReply_def Let_def)
    qed
  qed (auto simp: Recv run_inbox_def handleMessage_def intro: prod.exhaust)
next
  case Timer
  then show ?thesis by (auto simp: run_timer_def Let_def intro: prod.exhaust)
next
  case Tick
  then show ?thesis
    using assms send_to_all_Some [of "peers n" n]
    by (auto simp: heartbeatTick_def sendHeartbeatsLocked_def node_ok_def)
next
  case (Cmd cmd)
  define n1 where "n1 = notifyChange (n\<lparr>rlog := rlog n @
        [\<lparr>le_index = length (rlog n) + 1, le_term = currentTerm n, le_command = cmd\<rparr>]\<rparr>)"
  have "\<exists>ms. send_to_all (peers n1) n1 = Some ms" if "role n = Leader"
    using assms that by (intro send_to_all_Some) (auto simp: node_ok_def n1_def)
  then have "\<exists>ms ok. SubmitCommand cmd n = Some (n1, ms, ok)" if "role n = Leader"
    using that by (auto simp: SubmitCommand_def Let_def n1_def)
  then show ?thesis
    by (cases "role n = Leader") (auto simp: Cmd SubmitCommand_def)
qed auto

text \<open>The messages a node sends are its own, to its peers or back to the sender.\<close>

lemma node_step_sends:
  assumes "node_step e n = Some (n', ms)" and "m \<in> set ms"
  shows "msg_from m = node_id n \<and> (msg_to m \<in> set (peers n) \<or> (\<exists>m0. e = Recv m0 \<and> msg_to m = msg_from m0))"
  using assms(1)
proof (cases rule: node_step_cases)
  case (vote m0 a)
  with assms(2) show ?thesis by (auto simp: handleRequestVote_def Let_def)
next
  case (vote_reply m0 r)
  from vote_reply(4) show ?thesis
  proof (cases rule: handleRequestVoteReply_cases)
    case (won n2 vs)
    have n2: "peers n2 = peers n" "node_id n2 = node_id n" using won(3) by (auto split: if_splits)
    obtain p where "p \<in> set (peers n')" "sendAppendEntries p n' = Some m"
      using becomeLeader_mem [OF won(6) assms(2)] by auto
    with becomeLeader_sel [OF won(6)] n2 show ?thesis
      by (auto elim: sendAppendEntries_msg)
  qed (use assms(2) in auto)
next
  case (append m0 a)
  with assms(2) show ?thesis
    by (auto simp: handleAppendEntries_def Let_def append_reply_def split: if_splits)
next
  case (append_reply m0 r)
  from append_reply(4) assms(2) show ?thesis by (cases rule: handleAppendEntriesReply_cases) auto
next
  case heartbeat
  with assms(2) show ?thesis
    by (auto dest!: sendHeartbeatsLocked_mem elim!: sendAppendEntries_msg)
next
  case (command cmd ok)
  from command(2) show ?thesis
  proof (cases rule: SubmitCommand_cases)
    case taken
    obtain p where "p \<in> set (peers n')" "sendAppendEntries p n' = Some m"
      using send_to_all_mem [OF taken(4) assms(2)] by auto
    with taken(3) show ?thesis by (auto elim!: sendAppendEntries_msg)
  qed (use assms(2) in auto)
qed (use assms(2) in \<open>auto simp: startElection_def Let_def\<close>)

definition net_ok :: "nat \<Rightarrow> net \<Rightarrow> bool" where
  "net_ok N s \<longleftrightarrow> length (net_nodes s) = N \<and> (\<forall>i < N. node_ok N i (net_nodes s ! i)) \<and>
     (\<forall>m \<in> sent s. msg_from m < N \<and> msg_to m < N)"

lemma net_ok_init: "net_ok N (net_init N)"
  by (simp add: net_ok_def net_init_def New_def node_ok_def NewNode_def)

lemma net_ok_step:
  assumes "net_ok N s" and "net_step adm s t"
  shows "net_ok N t"
  using assms(2)
proof (cases rule: net_step_cases)
  case (acts i e n' ms)
  have i: "node_ok N i (net_nodes s ! i)" "i < N" using assms(1) acts by (auto simp: net_ok_def)
  have "node_ok N i n'" using node_ok_step [OF i(1) acts(4)] .
  moreover have "msg_from m < N \<and> msg_to m < N" if "m \<in> set ms" for m
    using node_step_sends [OF acts(4) that] i acts(2) assms(1)
    by (auto simp: node_ok_def net_ok_def)
  ultimately show ?thesis
    using assms(1) acts by (auto simp: net_ok_def nth_list_update)
qed

interpretation net_identity: invariant_system "\<lambda>s. s = net_init N" "net_step adm" "net_ok N" for N adm
  by unfold_locales (auto intro: net_ok_init net_ok_step)

end
