(* ===== verification/Raft_Votes.thy ===== *)
theory Raft_Votes
  imports Raft_Network
begin

text \<open>
  Votes and elections. Whatever the schedule, no node grants its vote to two candidates in
  one term. A candidate counts every granted reply it receives, also one that answers an
  earlier election of its own: where a schedule delivers no such stale reply
  (\<open>fresh_votes\<close>), there is at most one leader per term.
\<close>

section \<open>Quorums\<close>

locale quorum_system =
  fixes universe :: "'a set" and quorum :: "'a set \<Rightarrow> bool"
  assumes quorum_meet: "A \<subseteq> universe \<Longrightarrow> B \<subseteq> universe \<Longrightarrow> quorum A \<Longrightarrow> quorum B \<Longrightarrow> A \<inter> B \<noteq> {}"
begin

lemma one_winner:
  assumes "A \<subseteq> universe" "B \<subseteq> universe" "quorum A" "quorum B"
    and "\<And>v. v \<in> A \<Longrightarrow> vote v a" "\<And>v. v \<in> B \<Longrightarrow> vote v b"
    and "\<And>v x y. vote v x \<Longrightarrow> vote v y \<Longrightarrow> x = y"
  shows "a = b"
proof -
  obtain v where "v \<in> A" "v \<in> B" using quorum_meet [OF assms(1-4)] by blast
  then show ?thesis using assms(5,6,7) by blast
qed

end

text \<open>The quorum the code uses: \<open>clusterSize/2 + 1\<close> of the nodes \<open>0 .. N-1\<close>.\<close>

definition is_majority :: "nat \<Rightarrow> nat set \<Rightarrow> bool" where
  "is_majority N A \<longleftrightarrow> N div 2 + 1 \<le> card A"

interpretation majorities: quorum_system "{..<N}" "is_majority N" for N
proof
  fix A B :: "nat set"
  assume sub: "A \<subseteq> {..<N}" "B \<subseteq> {..<N}" and maj: "is_majority N A" "is_majority N B"
  show "A \<inter> B \<noteq> {}"
  proof
    assume "A \<inter> B = {}"
    then have "card A + card B = card (A \<union> B)"
      using sub by (simp add: card_Un_disjoint finite_subset)
    also have "\<dots> \<le> N" using card_mono [of "{..<N}" "A \<union> B"] sub by simp
    finally show False using maj by (simp add: is_majority_def)
  qed
qed

lemma length_others: "i < N \<Longrightarrow> length (filter (\<lambda>j. j \<noteq> i) [0..<N]) = N - 1"
proof -
  assume "i < N"
  have "length (filter (\<lambda>j. j \<noteq> i) [0..<N]) = card ({0..<N} - {i})"
    by (subst distinct_card [symmetric]) (auto intro!: arg_cong [where f = card])
  with \<open>i < N\<close> show ?thesis by simp
qed

lemma majority_node_ok: "node_ok N i n \<Longrightarrow> i < N \<Longrightarrow> majority n = N div 2 + 1"
  by (simp add: majority_def node_ok_def length_others)

section \<open>Granting\<close>

definition granted :: "net \<Rightarrow> nat \<Rightarrow> nat \<Rightarrow> nat \<Rightarrow> bool" where
  "granted s v c t \<longleftrightarrow>
     (\<exists>m \<in> sent s. msg_from m = v \<and> msg_to m = c \<and> msg_body m = VoteReply \<lparr>rvr_term = t, rvr_granted = True\<rparr>)"

lemma node_step_grants:
  assumes "node_step e n = Some (n', ms)" and "m \<in> set ms" and "msg_body m = VoteReply r" and "rvr_granted r"
  obtains m0 a where "e = Recv m0" "msg_body m0 = RequestVote a" "msg_to m = msg_from m0"
    "rvr_term r = currentTerm n'" "votedFor n' = Some (rv_candidate a)"
  using assms(1)
proof (cases rule: node_step_cases)
  case (vote m0 a)
  show ?thesis
    by (rule that [of m0 a]) (use vote assms(2-4) in \<open>auto simp: handleRequestVote_def Let_def split: if_splits\<close>)
next
  case (vote_reply m0 r0)
  from vote_reply(4) show ?thesis
  proof (cases rule: handleRequestVoteReply_cases)
    case (won n2 vs)
    show ?thesis using becomeLeader_mem [OF won(6) assms(2)] assms(3)
      by (auto elim!: sendAppendEntries_msg)
  qed (use assms(2) in auto)
next
  case (append m0 a)
  with assms(2,3,4) show ?thesis
    by (auto simp: handleAppendEntries_def Let_def append_reply_def split: if_splits)
next
  case (append_reply m0 r0)
  from append_reply(4) assms(2) show ?thesis by (cases rule: handleAppendEntriesReply_cases) auto
next
  case heartbeat
  with assms(2,3) show ?thesis
    by (auto dest!: sendHeartbeatsLocked_mem elim!: sendAppendEntries_msg)
next
  case (command cmd ok)
  from command(2) show ?thesis
  proof (cases rule: SubmitCommand_cases)
    case taken
    show ?thesis using send_to_all_mem [OF taken(4) assms(2)] assms(3)
      by (auto elim!: sendAppendEntries_msg)
  qed (use assms(2) in auto)
qed (use assms(2,3) in \<open>auto simp: startElection_def Let_def\<close>)

lemma node_step_requests:
  assumes "node_step e n = Some (n', ms)" and "m \<in> set ms" and "msg_body m = RequestVote a"
  shows "rv_candidate a = node_id n"
  using assms(1)
proof (cases rule: node_step_cases)
  case (vote m0 a0)
  with assms(2,3) show ?thesis by (auto simp: handleRequestVote_def Let_def)
next
  case (vote_reply m0 r0)
  from vote_reply(4) show ?thesis
  proof (cases rule: handleRequestVoteReply_cases)
    case (won n2 vs)
    show ?thesis using becomeLeader_mem [OF won(6) assms(2)] assms(3)
      by (auto elim!: sendAppendEntries_msg)
  qed (use assms(2) in auto)
next
  case (append m0 a0)
  with assms(2,3) show ?thesis
    by (auto simp: handleAppendEntries_def Let_def append_reply_def split: if_splits)
next
  case (append_reply m0 r0)
  from append_reply(4) assms(2) show ?thesis by (cases rule: handleAppendEntriesReply_cases) auto
next
  case heartbeat
  with assms(2,3) show ?thesis
    by (auto dest!: sendHeartbeatsLocked_mem elim!: sendAppendEntries_msg)
next
  case (command cmd ok)
  from command(2) show ?thesis
  proof (cases rule: SubmitCommand_cases)
    case taken
    show ?thesis using send_to_all_mem [OF taken(4) assms(2)] assms(3)
      by (auto elim!: sendAppendEntries_msg)
  qed (use assms(2) in auto)
qed (use assms(2,3) in \<open>auto simp: startElection_def Let_def\<close>)

definition vote_inv :: "net \<Rightarrow> bool" where
  "vote_inv s \<longleftrightarrow>
     (\<forall>m \<in> sent s. \<forall>a. msg_body m = RequestVote a \<longrightarrow> rv_candidate a = msg_from m) \<and>
     (\<forall>v c t. granted s v c t \<longrightarrow> t \<le> currentTerm (net_nodes s ! v) \<and>
        (t = currentTerm (net_nodes s ! v) \<longrightarrow> votedFor (net_nodes s ! v) = Some c)) \<and>
     (\<forall>v c c' t. granted s v c t \<longrightarrow> granted s v c' t \<longrightarrow> c = c')"

lemma vote_inv_step:
  assumes ok: "net_ok N s" and inv: "vote_inv s" and step: "net_step adm s t"
  shows "vote_inv t"
  using step
proof (cases rule: net_step_cases)
  case (acts i e n' ms)
  let ?n = "net_nodes s ! i"
  have i: "node_ok N i ?n" "i < N" using ok acts by (auto simp: net_ok_def)
  have id: "node_id ?n = i" using i by (simp add: node_ok_def)
  have req: "\<forall>m \<in> sent t. \<forall>a. msg_body m = RequestVote a \<longrightarrow> rv_candidate a = msg_from m"
    using inv node_step_requests [OF acts(4)] node_step_sends [OF acts(4)]
    by (auto simp: vote_inv_def acts(5))
  have new: "v = i \<and> u = currentTerm n' \<and> votedFor n' = Some c" if g0: "granted t v c u" "\<not> granted s v c u" for v c u
  proof -
    obtain m where m: "m \<in> set ms" "msg_from m = v" "msg_to m = c"
        "msg_body m = VoteReply \<lparr>rvr_term = u, rvr_granted = True\<rparr>"
      using g0 by (auto simp: granted_def acts(5))
    obtain m0 a where g: "e = Recv m0" "msg_body m0 = RequestVote a" "msg_to m = msg_from m0"
        "u = currentTerm n'" "votedFor n' = Some (rv_candidate a)"
      using node_step_grants [OF acts(4) m(1) m(4)] by auto
    have "rv_candidate a = msg_from m0"
      using inv acts(2) g by (auto simp: vote_inv_def)
    with m g node_step_sends [OF acts(4) m(1)] id show ?thesis by simp
  qed
  have old: "u \<le> currentTerm ?n \<and> (u = currentTerm ?n \<longrightarrow> votedFor ?n = Some c)" if "granted s i c u" for c u
    using inv that by (auto simp: vote_inv_def)
  have mono: "currentTerm ?n \<le> currentTerm n'" by (rule node_step_term [OF acts(4)])
  have now: "u \<le> currentTerm n' \<and> (u = currentTerm n' \<longrightarrow> votedFor n' = Some c)" if "granted t i c u" for c u
  proof (cases "granted s i c u")
    case True
    have le: "u \<le> currentTerm n'" using old [OF True] mono by simp
    have "votedFor n' = Some c" if "u = currentTerm n'"
    proof -
      have eq: "u = currentTerm ?n" using that old [OF True] mono by linarith
      have "votedFor ?n = Some c" using old [OF True] eq by (rule conjunct2 [THEN mp])
      moreover have "currentTerm n' = currentTerm ?n" using that eq by (rule subst)
      ultimately show ?thesis by (intro node_step_vote [OF acts(4)])
    qed
    with le show ?thesis by simp
  next
    case False
    have "u = currentTerm n'" "votedFor n' = Some c" using new [OF that False] by blast+
    then show ?thesis by blast
  qed
  have nth: "net_nodes t ! v = (if v = i then n' else net_nodes s ! v)" for v
    using acts(1) by (simp add: acts(5) nth_list_update)
  have terms: "u \<le> currentTerm (net_nodes t ! v) \<and>
      (u = currentTerm (net_nodes t ! v) \<longrightarrow> votedFor (net_nodes t ! v) = Some c)" if "granted t v c u" for v c u
  proof (cases "v = i")
    case True
    with now that show ?thesis by (simp add: nth)
  next
    case False
    with new that have "granted s v c u" by blast
    with False inv show ?thesis by (auto simp: nth vote_inv_def)
  qed
  have "c = c'" if "granted t v c u" "granted t v c' u" for v c c' u
  proof (cases "granted s v c u \<and> granted s v c' u")
    case True
    with inv show ?thesis by (auto simp: vote_inv_def)
  next
    case False
    with new that have v: "v = i" and u: "u = currentTerm n'" by blast+
    from that show ?thesis using now [of c u] now [of c' u] by (simp add: v u)
  qed
  with req terms show ?thesis by (auto simp: vote_inv_def)
qed

interpretation votes: relative_invariant "\<lambda>s. s = net_init N" "net_step adm" "net_ok N" vote_inv for N adm
proof unfold_locales
  show "vote_inv s" if "s = net_init N" for s
    using that by (simp add: vote_inv_def granted_def net_init_def)
qed (rule vote_inv_step)

section \<open>Campaigns\<close>

text \<open>A reply is fresh for a candidate when it does not answer an election of an earlier term.\<close>

definition fresh_votes :: "node_event \<Rightarrow> node \<Rightarrow> bool" where
  "fresh_votes e n =
     (case e of
        Recv m \<Rightarrow> (case msg_body m of
          VoteReply r \<Rightarrow> rvr_granted r \<and> role n = Candidate \<longrightarrow> currentTerm n \<le> rvr_term r
        | _ \<Rightarrow> True)
      | _ \<Rightarrow> True)"

lemma node_step_campaign:
  assumes "node_step e n = Some (n', ms)" and "role n' \<noteq> Follower"
  obtains (started) "role n' = Candidate" "votesReceived n' = Some [node_id n]" "votedFor n' = Some (node_id n)"
  | (kept) "role n \<noteq> Follower" "currentTerm n' = currentTerm n" "votesReceived n' = votesReceived n"
      "votedFor n' = votedFor n \<or> votedFor n = None"
      "role n' = Leader \<longrightarrow> role n = Leader \<or> (\<exists>ws. votesReceived n' = Some ws \<and> majority n \<le> length ws)"
  | (counted) m r old where "role n = Candidate" "currentTerm n' = currentTerm n" "votedFor n' = votedFor n"
      "e = Recv m" "msg_body m = VoteReply r" "rvr_granted r" "rvr_term r \<le> currentTerm n"
      "votesReceived n = Some old" "votesReceived n' = Some (List.insert (msg_from m) old)"
      "role n' = Leader \<longrightarrow> majority n \<le> length (List.insert (msg_from m) old)"
  using assms(1)
proof (cases rule: node_step_cases)
  case (vote m a)
  then have n': "n' = fst (handleRequestVote (msg_from m) a n)" by (metis fst_conv)
  show ?thesis
    by (rule kept) (use assms(2) in \<open>auto simp: n' handleRequestVote_sel split: if_splits\<close>,
        use assms(2) in \<open>auto simp: n' handleRequestVote_def Let_def split: if_splits\<close>)
next
  case (vote_reply m r)
  from vote_reply(4) show ?thesis
  proof (cases rule: handleRequestVoteReply_cases)
    case ignored
    with assms(2) show ?thesis by (intro kept) (auto split: if_splits)
  next
    case (counted vs)
    show ?thesis
    proof (cases "rvr_granted r")
      case True
      with counted vote_reply show ?thesis by (auto intro!: that(3))
    next
      case False
      with counted vote_reply show ?thesis by (auto intro!: that(2))
    qed
  next
    case (won n2 vs)
    note L = becomeLeader_sel [OF won(6)]
    show ?thesis
    proof (cases "rvr_granted r")
      case True
      with won vote_reply L show ?thesis by (auto intro!: that(3))
    next
      case False
      with won vote_reply L show ?thesis by (auto intro!: that(2))
    qed
  qed
next
  case (append m a)
  then have n': "n' = fst (handleAppendEntries (msg_from m) a n)" by (metis fst_conv)
  show ?thesis
    by (rule kept) (use assms(2) in \<open>auto simp: n' handleAppendEntries_sel split: if_splits\<close>)
next
  case (append_reply m r)
  from append_reply(4) show ?thesis
    by (cases rule: handleAppendEntriesReply_cases) (use assms(2) in \<open>auto intro!: kept split: if_splits\<close>)
next
  case election
  then have n': "n' = fst (startElection (n\<lparr>timerArmed := False\<rparr>))" by (metis fst_conv)
  show ?thesis by (rule started) (simp_all add: n' startElection_sel)
next
  case (command cmd ok)
  from command(2) show ?thesis
    by (cases rule: SubmitCommand_cases) (use assms(2) in \<open>auto intro!: kept\<close>)
qed (use assms(2) in \<open>auto intro!: kept simp: Kill_def Restart_def\<close>)

definition campaign_ok :: "net \<Rightarrow> nat \<Rightarrow> nat \<Rightarrow> node \<Rightarrow> bool" where
  "campaign_ok s N i n \<longleftrightarrow> role n \<noteq> Follower \<longrightarrow>
     votedFor n = Some i \<and>
     (\<exists>vs. votesReceived n = Some vs \<and> distinct vs \<and> set vs \<subseteq> {..<N} \<and>
        (\<forall>v \<in> set vs. v = i \<or> granted s v i (currentTerm n)) \<and>
        (role n = Leader \<longrightarrow> N div 2 + 1 \<le> length vs))"

definition campaign_inv :: "nat \<Rightarrow> net \<Rightarrow> bool" where
  "campaign_inv N s \<longleftrightarrow> (\<forall>i < N. campaign_ok s N i (net_nodes s ! i))"

lemma campaign_ok_mono:
  assumes "campaign_ok s N i n" and "sent s \<subseteq> sent t"
  shows "campaign_ok t N i n"
proof -
  have "granted s v c u \<Longrightarrow> granted t v c u" for v c u
    using assms(2) by (auto simp: granted_def)
  with assms(1) show ?thesis unfolding campaign_ok_def by blast
qed

lemma campaign_inv_step:
  assumes ok: "net_ok N s" and inv: "campaign_inv N s" and step: "net_step fresh_votes s t"
  shows "campaign_inv N t"
  using step
proof (cases rule: net_step_cases)
  case (acts i e n' ms)
  let ?n = "net_nodes s ! i"
  have i: "node_ok N i ?n" "i < N" using ok acts by (auto simp: net_ok_def)
  have id: "node_id ?n = i" and maj: "majority ?n = N div 2 + 1"
    using i by (simp_all add: node_ok_def majority_node_ok)
  have old: "campaign_ok t N j (net_nodes s ! j)" if "j < N" for j
    using inv that acts(5) by (auto simp: campaign_inv_def intro: campaign_ok_mono)
  have "campaign_ok t N i n'"
  proof (cases "role n' = Follower")
    case True
    then show ?thesis by (simp add: campaign_ok_def)
  next
    case False
    with acts(4) show ?thesis
    proof (cases rule: node_step_campaign)
      case started
      with i(2) show ?thesis by (auto simp: campaign_ok_def id)
    next
      case kept
      with old [OF i(2)] show ?thesis by (auto simp: campaign_ok_def maj)
    next
      case (counted m r old')
      have fresh: "rvr_term r = currentTerm ?n"
        using acts(3) counted by (auto simp: fresh_votes_def)
      have "granted t (msg_from m) i (currentTerm ?n)" "msg_from m < N"
        using acts(2) [OF counted(4)] counted(5,6) fresh ok
        by (auto simp: granted_def acts(5) net_ok_def intro!: bexI [of _ m])
      with counted old [OF i(2)] show ?thesis
        by (auto simp: campaign_ok_def maj)
    qed
  qed
  with old acts(1,5) show ?thesis by (auto simp: campaign_inv_def nth_list_update)
qed

lemma campaign_inv_init: "campaign_inv N (net_init N)"
  by (simp add: campaign_inv_def campaign_ok_def net_init_def New_def NewNode_def)

interpretation campaigns: relative_invariant
  "\<lambda>s. s = net_init N" "net_step fresh_votes" "net_ok N" "campaign_inv N" for N
  by unfold_locales (auto intro: campaign_inv_init campaign_inv_step)

lemma leader_unique:
  assumes ok: "net_ok N s" and votes: "vote_inv s" and camp: "campaign_inv N s"
    and ij: "i < N" "j < N" and lead: "role (net_nodes s ! i) = Leader" "role (net_nodes s ! j) = Leader"
    and tm: "currentTerm (net_nodes s ! i) = currentTerm (net_nodes s ! j)"
  shows "i = j"
proof -
  let ?t = "currentTerm (net_nodes s ! i)"
  define vote where "vote v c \<longleftrightarrow> granted s v c ?t \<or>
      (v = c \<and> c < N \<and> votedFor (net_nodes s ! c) = Some c \<and> currentTerm (net_nodes s ! c) = ?t)" for v c
  obtain A where A: "distinct A" "set A \<subseteq> {..<N}" "N div 2 + 1 \<le> length A"
      "\<forall>v \<in> set A. v = i \<or> granted s v i ?t" "votedFor (net_nodes s ! i) = Some i"
    using camp ij lead by (auto simp: campaign_inv_def campaign_ok_def)
  obtain B where B: "distinct B" "set B \<subseteq> {..<N}" "N div 2 + 1 \<le> length B"
      "\<forall>v \<in> set B. v = j \<or> granted s v j ?t" "votedFor (net_nodes s ! j) = Some j"
    using camp ij lead tm by (auto simp: campaign_inv_def campaign_ok_def)
  have single: "x = y" if "vote v x" "vote v y" for v x y
    using that votes unfolding vote_inv_def vote_def by (metis option.inject)
  show ?thesis
  proof (rule majorities.one_winner [of "set A" N "set B" vote])
    show "is_majority N (set A)" "is_majority N (set B)"
      using A(1,3) B(1,3) by (simp_all add: is_majority_def distinct_card)
    show "vote v i" if "v \<in> set A" for v
      using A(4,5) ij(1) that by (auto simp: vote_def)
    show "vote v j" if "v \<in> set B" for v
      using B(4,5) ij(2) tm that by (auto simp: vote_def)
  qed (use A(2) B(2) single in blast)+
qed

end
