(* ===== verification/Raft_Simulation.thy ===== *)
theory Raft_Simulation
  imports Raft_Votes
begin

text \<open>
  The cluster with its mailboxes, partitions and clock is simulated by the abstract network:
  a cluster step is at most one network step, and what waits in a mailbox has been sent. So
  the invariants of the network are invariants of every cluster run; and no run panics unless
  an operator names a node that does not exist.
\<close>

section \<open>The simulation relation\<close>

definition sim :: "cluster \<Rightarrow> net \<Rightarrow> bool" where
  "sim c s \<longleftrightarrow> net_nodes s = cl_nodes c \<and> length (inboxes c) = length (cl_nodes c) \<and>
     (\<forall>i < length (inboxes c). \<forall>m \<in> set (inboxes c ! i). m \<in> sent s \<and> msg_to m = i)"

lemma sim_init: "sim (New N) (net_init N)"
  by (simp add: sim_def net_init_def New_def)

lemma sim_sent: "sim c s \<Longrightarrow> i < length (inboxes c) \<Longrightarrow> m \<in> set (inboxes c ! i) \<Longrightarrow> m \<in> sent s"
  by (auto simp: sim_def)

lemma sim_inbox_tail:
  assumes "sim c s" and "i < length (inboxes c)" and "inboxes c ! i = m # rest"
  shows "sim (c\<lparr>inboxes := (inboxes c)[i := rest]\<rparr>) s"
proof -
  have "\<forall>m \<in> set rest. m \<in> sent s \<and> msg_to m = i"
    using assms by (auto simp: sim_def)
  with assms(1,2) show ?thesis by (simp add: sim_def nth_list_update)
qed

lemma route_sim:
  assumes "route m c = Some c'" and "sim c s" and "m \<in> sent s"
  shows "sim c' s \<and> cl_nodes c' = cl_nodes c"
  using assms
  by (auto simp: route_def sim_def Let_def nth_list_update split: if_splits) 

lemma route_all_sim:
  "route_all ms c = Some c' \<Longrightarrow> sim c s \<Longrightarrow> set ms \<subseteq> sent s \<Longrightarrow> sim c' s"
  by (induction ms arbitrary: c) (auto split: option.splits dest: route_sim)

lemma node_ran_sim:
  assumes "sim c s" and "i < length (cl_nodes c)"
    and "\<And>m. e = Recv m \<Longrightarrow> m \<in> sent s \<and> msg_to m = i" and "adm e (cl_nodes c ! i)"
    and "node_ran i (node_step e (cl_nodes c ! i)) c = Some c'"
  shows "\<exists>s'. net_step adm s s' \<and> sim c' s'"
proof -
  obtain n' ms where r: "node_step e (cl_nodes c ! i) = Some (n', ms)"
      "route_all ms (c\<lparr>cl_nodes := (cl_nodes c)[i := n']\<rparr>) = Some c'"
    using assms(5) by (auto simp: node_ran_def split: option.splits)
  define s' where "s' = s\<lparr>net_nodes := (net_nodes s)[i := n'], sent := sent s \<union> set ms\<rparr>"
  have "net_step adm s s'"
    unfolding s'_def
    by (rule node_acts) (use assms(1-4) r in \<open>auto simp: sim_def\<close>)
  moreover have "sim (c\<lparr>cl_nodes := (cl_nodes c)[i := n']\<rparr>) s'"
    using assms(1) by (auto simp: sim_def s'_def)
  then have "sim c' s'" by (rule route_all_sim [OF r(2)]) (simp add: s'_def)
  ultimately show ?thesis by blast
qed

section \<open>Schedules\<close>

text \<open>An admissibility condition on a cluster event: only deliveries can be restricted.\<close>

definition event_adm :: "(node_event \<Rightarrow> node \<Rightarrow> bool) \<Rightarrow> cl_event \<Rightarrow> cluster \<Rightarrow> bool" where
  "event_adm adm e c =
     (case e of
        Deliver i \<Rightarrow> i < length (cl_nodes c) \<longrightarrow> inboxes c ! i \<noteq> [] \<longrightarrow> adm (Recv (hd (inboxes c ! i))) (cl_nodes c ! i)
      | _ \<Rightarrow> True)"

fun schedule_adm :: "(node_event \<Rightarrow> node \<Rightarrow> bool) \<Rightarrow> cl_event list \<Rightarrow> cluster \<Rightarrow> bool" where
  "schedule_adm adm [] c = True"
| "schedule_adm adm (e # es) c =
     (event_adm adm e c \<and> (case cluster_step e c of None \<Rightarrow> True | Some c1 \<Rightarrow> schedule_adm adm es c1))"

definition restricts_deliveries :: "(node_event \<Rightarrow> node \<Rightarrow> bool) \<Rightarrow> bool" where
  "restricts_deliveries adm \<longleftrightarrow> (\<forall>e n. (\<forall>m. e \<noteq> Recv m) \<longrightarrow> adm e n)"

lemma restricts_any [simp]: "restricts_deliveries any_event"
  by (simp add: restricts_deliveries_def any_event_def)

lemma restricts_fresh [simp]: "restricts_deliveries fresh_votes"
  by (auto simp: restricts_deliveries_def fresh_votes_def split: node_event.split)

lemma schedule_any [simp]: "schedule_adm any_event es c"
  by (induction es arbitrary: c) (auto simp: event_adm_def any_event_def split: option.split cl_event.split)

lemma submit_from_sim:
  assumes "submit_from cmd is c = Some (c', ok)" and "set is \<subseteq> {..<length (cl_nodes c)}" and "sim c s"
    and "restricts_deliveries adm"
  shows "(c' = c \<and> \<not> ok) \<or> (ok \<and> (\<exists>s'. net_step adm s s' \<and> sim c' s'))"
  using assms(1,2)
proof (induction "is")
  case (Cons i "is")
  obtain n ms ok1 where r: "SubmitCommand cmd (cl_nodes c ! i) = Some (n, ms, ok1)"
    using Cons.prems(1) by (auto split: option.splits)
  show ?case
  proof (cases ok1)
    case True
    then have "node_ran i (node_step (Cmd cmd) (cl_nodes c ! i)) c = Some c'" and ok
      using Cons.prems(1) r by (auto split: option.splits)
    moreover have "\<exists>s'. net_step adm s s' \<and> sim c' s'"
      by (rule node_ran_sim [of c s i "Cmd cmd"])
        (use assms(3,4) Cons.prems(2) calculation in \<open>auto simp: restricts_deliveries_def\<close>)
    ultimately show ?thesis by simp
  next
    case False
    with Cons r show ?thesis by simp
  qed
qed simp

lemma stutter_sim:
  assumes "sim c s" and "i < length (cl_nodes c)" and "node_step e (cl_nodes c ! i) = Some (n', [])"
    and "\<And>m. e \<noteq> Recv m" and "restricts_deliveries adm"
    and "cl_nodes c' = (cl_nodes c)[i := n']" "inboxes c' = inboxes c"
  shows "\<exists>s'. net_step adm s s' \<and> sim c' s'"
proof -
  have "net_step adm s (s\<lparr>net_nodes := (net_nodes s)[i := n'], sent := sent s \<union> set []\<rparr>)"
    by (rule node_acts) (use assms in \<open>auto simp: sim_def restricts_deliveries_def\<close>)
  moreover have "sim c' (s\<lparr>net_nodes := (net_nodes s)[i := n'], sent := sent s \<union> set []\<rparr>)"
    using assms(1,6,7) by (auto simp: sim_def)
  ultimately show ?thesis by blast
qed

lemma cluster_step_sim:
  assumes "cluster_step e c = Some c'" and "sim c s" and adm: "restricts_deliveries adm" and "event_adm adm e c"
  shows "sim c' s \<or> (\<exists>s'. net_step adm s s' \<and> sim c' s')"
proof (cases e)
  case (Deliver i)
  show ?thesis
  proof (cases "i < length (cl_nodes c) \<and> inboxes c ! i \<noteq> []")
    case True
    then obtain m rest where m: "inboxes c ! i = m # rest" by (cases "inboxes c ! i") auto
    have i: "i < length (inboxes c)" using True assms(2) by (simp add: sim_def)
    let ?c = "c\<lparr>inboxes := (inboxes c)[i := rest]\<rparr>"
    have "\<exists>s'. net_step adm s s' \<and> sim c' s'"
    proof (rule node_ran_sim [of ?c s i "Recv m"])
      show "sim ?c s" using assms(2) i m by (rule sim_inbox_tail)
      show "m' \<in> sent s \<and> msg_to m' = i" if "Recv m = Recv m'" for m'
      proof -
        have "\<forall>m \<in> set (inboxes c ! i). m \<in> sent s \<and> msg_to m = i" using assms(2) i by (simp add: sim_def)
        then show ?thesis using that m by simp
      qed
    qed (use assms True i m Deliver in \<open>auto simp: event_adm_def\<close>)
    then show ?thesis ..
  next
    case False
    with assms Deliver show ?thesis by (auto simp: sim_def split: if_splits)
  qed
next
  case (Timeout i)
  show ?thesis
  proof (cases "i < length (cl_nodes c) \<and> timerArmed (cl_nodes c ! i)")
    case True
    have "\<exists>s'. net_step adm s s' \<and> sim c' s'"
      by (rule node_ran_sim [of c s i Timer])
        (use assms True Timeout in \<open>auto simp: restricts_deliveries_def\<close>)
    then show ?thesis ..
  next
    case False
    with assms Timeout show ?thesis by auto
  qed
next
  case (Heartbeat i)
  show ?thesis
  proof (cases "i < length (cl_nodes c) \<and> hb_loops (cl_nodes c ! i) \<noteq> []")
    case True
    have "\<exists>s'. net_step adm s s' \<and> sim c' s'"
      by (rule node_ran_sim [of c s i Tick])
        (use assms True Heartbeat in \<open>auto simp: restricts_deliveries_def\<close>)
    then show ?thesis ..
  next
    case False
    with assms Heartbeat show ?thesis by auto
  qed
next
  case (Changed i)
  show ?thesis
  proof (cases "i < length (cl_nodes c) \<and> changeCh (cl_nodes c ! i)")
    case True
    then show ?thesis
      using assms(1) stutter_sim [OF assms(2) _ _ _ adm, of i Drain "(cl_nodes c ! i)\<lparr>changeCh := False\<rparr>" c']
      by (auto simp: Changed notifySnapshot_def)
  next
    case False
    with assms Changed show ?thesis by auto
  qed
next
  case (Submit cmd)
  then obtain ok where "submit_from cmd [0..<length (cl_nodes c)] c = Some (c', ok)"
    using assms(1) by (auto simp: cluster_SubmitCommand_def)
  then show ?thesis
    using submit_from_sim [OF _ _ assms(2) adm] assms(2) by fastforce
next
  case (KillEv i)
  then show ?thesis
    using assms(1) stutter_sim [OF assms(2) _ _ _ adm, of "nat i" Crash "Kill (cl_nodes c ! nat i)" c']
    by (auto simp: KillNode_def nat_less_iff split: if_splits)
next
  case (RestartEv i)
  then show ?thesis
    using assms(1) stutter_sim [OF assms(2) _ _ _ adm, of "nat i" Revive "Restart (cl_nodes c ! nat i)" c']
    by (auto simp: RestartNode_def nat_less_iff split: if_splits)
qed (use assms in \<open>auto simp: sim_def Partition_def Heal_def notifySnapshot_def\<close>)

lemma cluster_run_sim:
  assumes "cluster_run es c = Some c'" and "sim c s" and "net_reach adm N s"
    and "restricts_deliveries adm" and "schedule_adm adm es c"
  shows "\<exists>s'. net_reach adm N s' \<and> sim c' s'"
  using assms(1,2,3,5)
proof (induction es arbitrary: c s)
  case (Cons e es)
  then obtain c1 where c1: "cluster_step e c = Some c1" "cluster_run es c1 = Some c'"
      "event_adm adm e c" "schedule_adm adm es c1"
    by (auto split: option.splits)
  from cluster_step_sim [OF c1(1) Cons.prems(2) assms(4) c1(3)]
  obtain s1 where "sim c1 s1" "net_reach adm N s1"
    using Cons.prems(3) by (blast intro: reach_step)
  with c1 Cons.IH show ?case by blast
qed auto

lemma cluster_run_reach:
  assumes "cluster_run es (New N) = Some c" and "restricts_deliveries adm" and "schedule_adm adm es (New N)"
  shows "\<exists>s. net_reach adm N s \<and> sim c s"
  using cluster_run_sim [OF assms(1) sim_init _ assms(2,3)] by (blast intro: reach_init)

lemma cluster_run_append: "cluster_run (es @ es') c = (case cluster_run es c of None \<Rightarrow> None | Some c' \<Rightarrow> cluster_run es' c')"
  by (induction es arbitrary: c) (auto split: option.split)

lemma cluster_run_trans: "cluster_run es c = Some c1 \<Longrightarrow> cluster_run es' c1 = Some c2 \<Longrightarrow> cluster_run (es @ es') c = Some c2"
  by (simp add: cluster_run_append)

section \<open>No panic\<close>

definition names_nodes :: "nat \<Rightarrow> cl_event \<Rightarrow> bool" where
  "names_nodes N e =
     (case e of KillEv i \<Rightarrow> 0 \<le> i \<and> i < int N | RestartEv i \<Rightarrow> 0 \<le> i \<and> i < int N | _ \<Rightarrow> True)"

lemma route_total: "msg_to m < length (inboxes c) \<Longrightarrow> \<exists>c'. route m c = Some c' \<and> length (inboxes c') = length (inboxes c)"
  by (auto simp: route_def Let_def)

lemma route_all_total:
  "\<forall>m \<in> set ms. msg_to m < length (inboxes c) \<Longrightarrow> \<exists>c'. route_all ms c = Some c'"
proof (induction ms arbitrary: c)
  case (Cons m ms)
  obtain c1 where c1: "route m c = Some c1" "length (inboxes c1) = length (inboxes c)"
    using route_total [of m c] Cons.prems by auto
  then have "\<exists>c'. route_all ms c1 = Some c'" using Cons by auto
  with c1 show ?case by auto
qed simp

lemma node_ran_total:
  assumes "sim c s" and "net_ok N s" and "i < N"
    and "\<And>m. e = Recv m \<Longrightarrow> m \<in> sent s"
  shows "\<exists>c'. node_ran i (node_step e (cl_nodes c ! i)) c = Some c'"
proof -
  have n: "node_ok N i (cl_nodes c ! i)" and len: "length (inboxes c) = N"
    using assms(1-3) by (auto simp: sim_def net_ok_def)
  obtain n' ms where r: "node_step e (cl_nodes c ! i) = Some (n', ms)"
    using node_step_total [OF n] by blast
  have "msg_to m < N" if "m \<in> set ms" for m
    using node_step_sends [OF r that] n assms(2,4) by (auto simp: node_ok_def net_ok_def)
  then show ?thesis
    using route_all_total [of ms "c\<lparr>cl_nodes := (cl_nodes c)[i := n']\<rparr>"] len
    by (auto simp: node_ran_def r)
qed

lemma submit_from_total:
  assumes "sim c s" and "net_ok N s" and "set is \<subseteq> {..<N}"
  shows "submit_from cmd is c \<noteq> None"
  using assms(3)
proof (induction "is")
  case (Cons i "is")
  obtain c' where c': "node_ran i (node_step (Cmd cmd) (cl_nodes c ! i)) c = Some c'"
    using node_ran_total [OF assms(1,2), of i "Cmd cmd"] Cons.prems by auto
  then obtain n ms ok where "SubmitCommand cmd (cl_nodes c ! i) = Some (n, ms, ok)"
    by (auto simp: node_ran_def split: option.splits)
  with c' Cons show ?case by (auto split: option.splits)
qed simp

lemma cluster_step_total:
  assumes "sim c s" and ok: "net_ok N s" and "names_nodes N e"
  shows "\<exists>c'. cluster_step e c = Some c'"
proof -
  have len: "length (cl_nodes c) = N" "length (inboxes c) = N"
    using assms(1,2) by (auto simp: sim_def net_ok_def)
  show ?thesis
  proof (cases e)
    case (Deliver i)
    show ?thesis
    proof (cases "i < N \<and> inboxes c ! i \<noteq> []")
      case True
      then obtain m rest where m: "inboxes c ! i = m # rest" by (cases "inboxes c ! i") auto
      have i: "i < length (inboxes c)" using True len by simp
      have "\<forall>m \<in> set (inboxes c ! i). m \<in> sent s \<and> msg_to m = i" using assms(1) i by (simp add: sim_def)
      then have "m \<in> sent s" using m by simp
      then show ?thesis
        using node_ran_total [OF sim_inbox_tail [OF assms(1) i m] ok, of i "Recv m"] True m len
        by (auto simp: Deliver)
    next
      case False
      with len show ?thesis by (auto simp: Deliver)
    qed
  next
    case (Submit cmd)
    then show ?thesis
      using submit_from_total [OF assms(1) ok, of "[0..<N]" cmd] len
      by (auto simp: cluster_SubmitCommand_def lessThan_atLeast0)
  next
    case (Timeout i)
    then show ?thesis using node_ran_total [OF assms(1) ok, of i Timer] len by auto
  next
    case (Heartbeat i)
    then show ?thesis using node_ran_total [OF assms(1) ok, of i Tick] len by auto
  next
    case (KillEv i)
    then show ?thesis using assms(3) len by (simp add: KillNode_def names_nodes_def)
  next
    case (RestartEv i)
    then show ?thesis using assms(3) len by (simp add: RestartNode_def names_nodes_def)
  qed auto
qed

lemma cluster_run_total:
  assumes "sim c s" and "net_reach any_event N s" and "\<forall>e \<in> set es. names_nodes N e"
  shows "\<exists>c'. cluster_run es c = Some c'"
  using assms
proof (induction es arbitrary: c s)
  case (Cons e es)
  have ok: "net_ok N s" using Cons.prems(2) by (rule net_identity.reach_inv)
  obtain c1 where c1: "cluster_step e c = Some c1"
    using cluster_step_total [OF Cons.prems(1) ok] Cons.prems(3) by auto
  have "event_adm any_event e c"
    by (simp add: event_adm_def any_event_def split: cl_event.split)
  from cluster_step_sim [OF c1 Cons.prems(1) restricts_any this]
  obtain s1 where "sim c1 s1" "net_reach any_event N s1"
    using Cons.prems(2) by (blast intro: reach_step)
  with Cons.IH [of c1 s1] Cons.prems(3) c1 show ?case by simp
qed simp

end
