(* ===== verification/Raft_Log.thy ===== *)
theory Raft_Log
  imports Raft_Simulation
begin

text \<open>
  The logs of the cluster. In every reachable network, and so in every cluster run, every log
  is indexed 1, 2, 3, ... without a gap, its terms never decrease and never exceed the
  term of its node; and a node that is the leader after an event still has every entry it
  had before.
\<close>

section \<open>Indexing\<close>

definition indexed :: "nat \<Rightarrow> LogEntry list \<Rightarrow> bool" where
  "indexed b es \<longleftrightarrow> (\<forall>k < length es. le_index (es ! k) = Suc (b + k))"

lemma indexed_Nil [simp]: "indexed b []"
  by (simp add: indexed_def)

lemma indexed_Cons [simp]: "indexed b (e # es) \<longleftrightarrow> le_index e = Suc b \<and> indexed (Suc b) es"
  by (auto simp: indexed_def less_Suc_eq_0_disj)

lemma indexed_append: "indexed b (xs @ ys) \<longleftrightarrow> indexed b xs \<and> indexed (b + length xs) ys"
  by (induction xs arbitrary: b) auto

lemma indexed_take: "indexed b es \<Longrightarrow> indexed b (take k es)"
  using indexed_append [of b "take k es" "drop k es"] by simp

lemma indexed_drop: "indexed b es \<Longrightarrow> k \<le> length es \<Longrightarrow> indexed (b + k) (drop k es)"
  by (auto simp: indexed_def)

lemma indexed_nth: "indexed b es \<Longrightarrow> k < length es \<Longrightarrow> le_index (es ! k) = Suc (b + k)"
  by (simp add: indexed_def)

lemma indexed_upt: "indexed 0 es \<Longrightarrow> map le_index es = [1..<Suc (length es)]"
  by (rule nth_equalityI) (simp_all add: indexed_def del: upt_Suc)

section \<open>Terms along a log\<close>

lemma sorted_join:
  assumes "sorted xs" "sorted ys" "xs \<noteq> [] \<Longrightarrow> ys \<noteq> [] \<Longrightarrow> last xs \<le> hd (ys :: nat list)"
  shows "sorted (xs @ ys)"
proof (cases "xs = [] \<or> ys = []")
  case True
  with assms show ?thesis by auto
next
  case False
  have "x \<le> y" if "x \<in> set xs" "y \<in> set ys" for x y
  proof -
    have "sorted (butlast xs @ [last xs])" "x \<in> set (butlast xs @ [last xs])"
      using assms(1) that(1) False by simp_all
    then have "x \<le> last xs" by (auto simp only: sorted_append set_append list.set Un_iff empty_iff insert_iff)
    also have "\<dots> \<le> hd ys" using False assms(3) by simp
    also have "\<dots> \<le> y" using assms(2) that(2) by (cases ys) auto
    finally show ?thesis .
  qed
  with assms show ?thesis by (auto simp: sorted_append)
qed

definition log_ok :: "nat \<Rightarrow> LogEntry list \<Rightarrow> bool" where
  "log_ok t l \<longleftrightarrow> indexed 0 l \<and> sorted (map le_term l) \<and> (\<forall>e \<in> set l. le_term e \<le> t)"

definition ae_ok :: "AppendEntriesArgs \<Rightarrow> bool" where
  "ae_ok a \<longleftrightarrow> indexed (ae_prevLogIndex a) (ae_entries a) \<and> sorted (map le_term (ae_entries a)) \<and>
     (\<forall>e \<in> set (ae_entries a). le_term e \<le> ae_term a) \<and>
     (0 < ae_prevLogIndex a \<longrightarrow> ae_entries a \<noteq> [] \<longrightarrow> ae_prevLogTerm a \<le> le_term (hd (ae_entries a)))"

lemma log_ok_mono: "log_ok t l \<Longrightarrow> t \<le> t' \<Longrightarrow> log_ok t' l"
  by (force simp: log_ok_def)

text \<open>The request a leader builds from a good log is good.\<close>

lemma request_ok:
  assumes "log_ok t l" and es: "ae_entries a = drop (ae_prevLogIndex a) l"
    and pt: "ae_prevLogTerm a = (if 0 < ae_prevLogIndex a \<and> ae_prevLogIndex a \<le> length l
                         then le_term (l ! (ae_prevLogIndex a - 1)) else 0)"
    and t: "ae_term a = t"
  shows "ae_ok a"
proof -
  let ?p = "ae_prevLogIndex a"
  have idx: "indexed ?p (drop ?p l)"
  proof (cases "?p \<le> length l")
    case True
    with assms(1) indexed_drop [of 0 l ?p] show ?thesis by (simp add: log_ok_def)
  next
    case False
    then show ?thesis by (simp add: indexed_def)
  qed
  have "ae_prevLogTerm a \<le> le_term (hd (drop ?p l))" if "0 < ?p" "drop ?p l \<noteq> []"
  proof -
    have "?p < length l" using that by simp
    moreover have "map le_term l ! (?p - 1) \<le> map le_term l ! ?p"
      using assms(1) calculation by (intro sorted_nth_mono) (auto simp: log_ok_def)
    ultimately show ?thesis using that pt by (simp add: hd_drop_conv_nth)
  qed
  with assms(1) idx t es show "ae_ok a"
    by (auto simp: ae_ok_def log_ok_def drop_map [symmetric] sorted_wrt_drop dest: in_set_dropD)
qed

lemma sendAppendEntries_ok:
  assumes "sendAppendEntries p n = Some m" and "log_ok (currentTerm n) (rlog n)" and "msg_body m = AppendEntries a"
  shows "ae_ok a"
  using assms(1)
proof (rule sendAppendEntries_msg)
  fix a' assume m: "msg_body m = AppendEntries a'" and a': "ae_entries a' = drop (ae_prevLogIndex a') (rlog n)"
    "ae_prevLogTerm a' = (if 0 < ae_prevLogIndex a' \<and> ae_prevLogIndex a' \<le> length (rlog n)
                         then le_term (rlog n ! (ae_prevLogIndex a' - 1)) else 0)" "ae_term a' = currentTerm n"
  have "ae_ok a'" by (rule request_ok [OF assms(2) a'])
  with m assms(3) show ?thesis by simp
qed

lemma append_spec_ok:
  assumes log: "log_ok t l" and ae: "ae_ok a" and prev: "prev_matches a l" and t: "ae_term a \<le> t"
  shows "log_ok t (append_spec (ae_prevLogIndex a) (ae_entries a) l)"
proof -
  let ?p = "ae_prevLogIndex a" and ?es = "ae_entries a"
  let ?k = "match_len ?es (drop ?p l)"
  have p: "?p \<le> length l" using prev by (auto simp: prev_matches_def split: if_splits)
  have k: "?k \<le> length ?es" "?k \<le> length l - ?p"
    using match_len_le [of ?es "drop ?p l"] by simp_all
  show ?thesis
  proof (cases "?k = length ?es")
    case True
    with log show ?thesis by (simp add: append_spec_def Let_def)
  next
    case False
    let ?xs = "take (?p + ?k) l" and ?ys = "drop ?k ?es"
    have len: "length ?xs = ?p + ?k" using p k by simp
    have "indexed 0 ?xs" using log indexed_take by (simp add: log_ok_def)
    moreover have "indexed (?p + ?k) ?ys" using ae indexed_drop [OF _ k(1)] by (simp add: ae_ok_def)
    ultimately have idx: "indexed 0 (?xs @ ?ys)" unfolding indexed_append len by simp
    have "last (map le_term ?xs) \<le> hd (map le_term ?ys)" if ne: "?xs \<noteq> []" "?ys \<noteq> []"
    proof -
      have last: "last (map le_term ?xs) = le_term (l ! (?p + ?k - 1))"
        using ne len p k by (simp add: last_map last_conv_nth)
      have hd: "hd (map le_term ?ys) = le_term (?es ! ?k)"
        using False k by (simp add: hd_map hd_drop_conv_nth)
      show ?thesis
      proof (cases "?k = 0")
        case True
        then have "0 < ?p" using ne len by auto
        with prev ae ne True have "le_term (l ! (?p + ?k - 1)) \<le> le_term (?es ! ?k)"
          by (auto simp: prev_matches_def ae_ok_def hd_conv_nth split: if_splits)
        then show ?thesis unfolding last hd .
      next
        case kpos: False
        have "map le_term (take ?k (drop ?p l)) ! (?k - 1) = map le_term (take ?k ?es) ! (?k - 1)"
          by (simp only: match_len_terms)
        then have "le_term (l ! (?p + ?k - 1)) = le_term (?es ! (?k - 1))"
          using kpos k p by (simp add: nth_append)
        also have "\<dots> \<le> le_term (?es ! ?k)"
        proof -
          have "map le_term ?es ! (?k - 1) \<le> map le_term ?es ! ?k"
            using ae False k by (intro sorted_nth_mono) (auto simp: ae_ok_def)
          then show ?thesis using False k by simp
        qed
        finally show ?thesis by (simp add: last hd)
      qed
    qed
    then have "sorted (map le_term ?xs @ map le_term ?ys)"
      using log ae by (intro sorted_join) (auto simp: log_ok_def ae_ok_def take_map [symmetric]
          drop_map [symmetric] sorted_wrt_take sorted_wrt_drop)
    with idx log ae t show ?thesis
      using False by (auto simp: append_spec_def Let_def log_ok_def ae_ok_def
          dest!: in_set_takeD in_set_dropD intro: order_trans)
  qed
qed

lemma handleAppendEntries_log:
  "rlog (fst (handleAppendEntries f a n)) =
     (if ae_term a < currentTerm n \<or> \<not> prev_matches a (rlog n) then rlog n
      else append_spec (ae_prevLogIndex a) (ae_entries a) (rlog n))"
proof -
  have "ae_prevLogIndex a \<le> length (rlog n)" if "prev_matches a (rlog n)"
    using that by (auto simp: prev_matches_def split: if_splits)
  then show ?thesis
    using append_entries_spec [of "ae_prevLogIndex a" "rlog n" "ae_entries a"]
    by (auto simp: handleAppendEntries_def Let_def)
qed

section \<open>One event\<close>

lemma node_step_log:
  assumes step: "node_step e n = Some (n', ms)" and log: "log_ok (currentTerm n) (rlog n)"
    and ae: "\<And>m a. e = Recv m \<Longrightarrow> msg_body m = AppendEntries a \<Longrightarrow> ae_ok a"
  shows "log_ok (currentTerm n') (rlog n')"
  using step
proof (cases rule: node_step_cases)
  case (vote m a)
  then have "n' = fst (handleRequestVote (msg_from m) a n)" by (metis fst_conv)
  with log show ?thesis by (auto simp: handleRequestVote_sel intro: log_ok_mono)
next
  case (vote_reply m r)
  from vote_reply(4) show ?thesis
  proof (cases rule: handleRequestVoteReply_cases)
    case (won n2 vs)
    have "rlog n2 = rlog n" "currentTerm n2 = currentTerm n" using won(3) by auto
    with becomeLeader_sel(3,5) [OF won(6)] log show ?thesis by simp
  qed (use log in \<open>auto intro: log_ok_mono\<close>)
next
  case (append m a)
  then have n': "n' = fst (handleAppendEntries (msg_from m) a n)" by (metis fst_conv)
  have log': "log_ok (max (ae_term a) (currentTerm n)) (rlog n)"
    using log by (rule log_ok_mono) simp
  with append_spec_ok [OF log' ae [OF append(1,3)]] show ?thesis
    by (auto simp: n' handleAppendEntries_log handleAppendEntries_sel)
next
  case (append_reply m r)
  from append_reply(4) log show ?thesis
    by (cases rule: handleAppendEntriesReply_cases) (auto intro: log_ok_mono)
next
  case election
  then have "n' = fst (startElection (n\<lparr>timerArmed := False\<rparr>))" by (metis fst_conv)
  with log show ?thesis by (simp add: startElection_sel log_ok_mono)
next
  case (command cmd ok)
  from command(2) log show ?thesis
    by (cases rule: SubmitCommand_cases)
      (auto simp: log_ok_def indexed_append sorted_append)
qed (use log in \<open>auto simp: Kill_def Restart_def\<close>)

lemma node_step_requests_ok:
  assumes step: "node_step e n = Some (n', ms)" and log: "log_ok (currentTerm n') (rlog n')"
    and m: "m \<in> set ms" "msg_body m = AppendEntries a"
  shows "ae_ok a"
  using step
proof (cases rule: node_step_cases)
  case (vote m0 a0)
  with m show ?thesis by (auto simp: handleRequestVote_def Let_def)
next
  case (vote_reply m0 r)
  from vote_reply(4) show ?thesis
  proof (cases rule: handleRequestVoteReply_cases)
    case (won n2 vs)
    then show ?thesis using becomeLeader_mem [OF won(6) m(1)] sendAppendEntries_ok log m(2) by blast
  qed (use m in auto)
next
  case (append m0 a0)
  with m show ?thesis by (auto simp: handleAppendEntries_def Let_def append_reply_def split: if_splits)
next
  case (append_reply m0 r)
  from append_reply(4) m show ?thesis by (cases rule: handleAppendEntriesReply_cases) auto
next
  case heartbeat
  then show ?thesis using sendHeartbeatsLocked_mem [OF _ m(1)] sendAppendEntries_ok log m(2) by blast
next
  case (command cmd ok)
  from command(2) show ?thesis
  proof (cases rule: SubmitCommand_cases)
    case taken
    then show ?thesis using send_to_all_mem [OF _ m(1)] sendAppendEntries_ok log m(2) by blast
  qed (use m in auto)
qed (use m in \<open>auto simp: startElection_def Let_def\<close>)

section \<open>The network\<close>

definition logs_inv :: "net \<Rightarrow> bool" where
  "logs_inv s \<longleftrightarrow> (\<forall>n \<in> set (net_nodes s). log_ok (currentTerm n) (rlog n)) \<and>
     (\<forall>m \<in> sent s. \<forall>a. msg_body m = AppendEntries a \<longrightarrow> ae_ok a)"

lemma logs_inv_init: "logs_inv (net_init N)"
  by (auto simp: logs_inv_def net_init_def New_def NewNode_def log_ok_def indexed_def)

lemma logs_inv_step:
  assumes "logs_inv s" and "net_step adm s t"
  shows "logs_inv t"
  using assms(2)
proof (cases rule: net_step_cases)
  case (acts i e n' ms)
  have "log_ok (currentTerm (net_nodes s ! i)) (rlog (net_nodes s ! i))"
    using assms(1) acts(1) by (simp add: logs_inv_def)
  then have log': "log_ok (currentTerm n') (rlog n')"
    by (rule node_step_log [OF acts(4)]) (use assms(1) acts(2) in \<open>auto simp: logs_inv_def\<close>)
  then have "ae_ok a" if "m \<in> set ms" "msg_body m = AppendEntries a" for m a
    using node_step_requests_ok [OF acts(4)] that by blast
  with log' assms(1) show ?thesis
    by (auto simp: logs_inv_def acts(5) dest: set_update_subset_insert [THEN subsetD])
qed

interpretation logs: invariant_system "\<lambda>s. s = net_init N" "net_step adm" logs_inv for N adm
  by unfold_locales (auto intro: logs_inv_init logs_inv_step)

section \<open>A leader never loses an entry\<close>

lemma leader_append_only:
  assumes "node_step e n = Some (n', ms)" and "role n' = Leader"
  shows "prefix (rlog n) (rlog n')"
  using assms(1)
proof (cases rule: node_step_cases)
  case (vote m a)
  then have "n' = fst (handleRequestVote (msg_from m) a n)" by (metis fst_conv)
  then show ?thesis by (simp add: handleRequestVote_sel)
next
  case (vote_reply m r)
  from vote_reply(4) show ?thesis
  proof (cases rule: handleRequestVoteReply_cases)
    case (won n2 vs)
    have "rlog n2 = rlog n" using won(3) by auto
    with becomeLeader_sel(5) [OF won(6)] show ?thesis by simp
  qed auto
next
  case (append m a)
  then have n': "n' = fst (handleAppendEntries (msg_from m) a n)" by (metis fst_conv)
  then show ?thesis using assms(2) by (auto simp: handleAppendEntries_log handleAppendEntries_sel split: if_splits)
next
  case (append_reply m r)
  from append_reply(4) show ?thesis by (cases rule: handleAppendEntriesReply_cases) auto
next
  case election
  then have "n' = fst (startElection (n\<lparr>timerArmed := False\<rparr>))" by (metis fst_conv)
  then show ?thesis by (simp add: startElection_sel)
next
  case (command cmd ok)
  from command(2) show ?thesis by (cases rule: SubmitCommand_cases) auto
qed (auto simp: Kill_def Restart_def)

end
