(* ===== verification/Raft_Steps.thy ===== *)
theory Raft_Steps
  imports Raft_Log
begin

text \<open>
  What one step of the cluster does to one node, and the invariants of a run that are not
  about the network: the bounds of the mailboxes and of the window of messages in flight.
\<close>

section \<open>One node under one cluster step\<close>

lemma route_nodes: "route m c = Some c' \<Longrightarrow> cl_nodes c' = cl_nodes c"
  by (auto simp: route_def Let_def split: if_splits)

lemma route_all_nodes: "route_all ms c = Some c' \<Longrightarrow> cl_nodes c' = cl_nodes c"
  by (induction ms arbitrary: c) (auto split: option.splits dest: route_nodes)

lemma node_ran_nodes:
  assumes "node_ran i r c = Some c'"
  shows "\<exists>n ms. r = Some (n, ms) \<and> cl_nodes c' = (cl_nodes c)[i := n]"
  using assms by (auto simp: node_ran_def split: option.splits dest: route_all_nodes)

definition moved :: "node \<Rightarrow> node \<Rightarrow> bool" where
  "moved n n' \<longleftrightarrow> n' = n \<or> (\<exists>e ms. node_step e n = Some (n', ms))"

lemma moved_refl [simp, intro]: "moved n n"
  by (simp add: moved_def)

lemma movedI: "node_step e n = Some (n', ms) \<Longrightarrow> moved n n'"
  by (auto simp: moved_def)

lemma moved_update:
  assumes "cl_nodes c' = (cl_nodes c)[j := n]" and "node_step e (cl_nodes c ! j) = Some (n, ms)"
    and "i < length (cl_nodes c)"
  shows "moved (cl_nodes c ! i) (cl_nodes c' ! i)"
  using assms by (cases "i = j") (auto intro: movedI)

lemma submit_from_moved:
  assumes "submit_from cmd is c = Some (c', ok)" and "i < length (cl_nodes c)"
  shows "moved (cl_nodes c ! i) (cl_nodes c' ! i)"
  using assms
proof (induction "is")
  case (Cons j "is")
  from Cons.prems(1) obtain n ms ok1 where r: "SubmitCommand cmd (cl_nodes c ! j) = Some (n, ms, ok1)"
    by (auto split: option.splits)
  show ?case
  proof (cases ok1)
    case True
    with Cons.prems(1) r have "node_ran j (Some (n, ms)) c = Some c'"
      by (auto split: option.splits)
    then have "cl_nodes c' = (cl_nodes c)[j := n]" by (auto dest: node_ran_nodes)
    moreover have "node_step (Cmd cmd) (cl_nodes c ! j) = Some (n, ms)" using r by simp
    ultimately show ?thesis using Cons.prems(2) by (rule moved_update)
  next
    case False
    with Cons r show ?thesis by simp
  qed
qed simp

lemma cluster_step_moved:
  assumes "cluster_step e c = Some c'" and "i < length (cl_nodes c)"
  shows "moved (cl_nodes c ! i) (cl_nodes c' ! i)"
proof (cases e)
  case (Deliver j)
  show ?thesis
  proof (cases "j < length (cl_nodes c) \<and> j < length (inboxes c) \<and> inboxes c ! j \<noteq> []")
    case True
    then obtain m rest where "inboxes c ! j = m # rest" by (cases "inboxes c ! j") auto
    with True assms(1) Deliver obtain n ms where "cl_nodes c' = (cl_nodes c)[j := n]"
        "node_step (Recv m) (cl_nodes c ! j) = Some (n, ms)"
      by (auto dest!: node_ran_nodes)
    then show ?thesis using assms(2) by (rule moved_update)
  next
    case False
    with assms(1) Deliver show ?thesis by (auto split: if_splits)
  qed
next
  case (Timeout j)
  then consider "c' = c" | n ms where "cl_nodes c' = (cl_nodes c)[j := n]" "node_step Timer (cl_nodes c ! j) = Some (n, ms)"
    using assms(1) by (auto dest!: node_ran_nodes split: if_splits)
  then show ?thesis using assms(2) by cases (blast intro: moved_update moved_refl)+
next
  case (Heartbeat j)
  then consider "c' = c" | n ms where "cl_nodes c' = (cl_nodes c)[j := n]" "node_step Tick (cl_nodes c ! j) = Some (n, ms)"
    using assms(1) by (auto dest!: node_ran_nodes split: if_splits)
  then show ?thesis using assms(2) by cases (blast intro: moved_update moved_refl)+
next
  case (Changed j)
  then have "c' = c \<or> (changeCh (cl_nodes c ! j) \<and> cl_nodes c' = (cl_nodes c)[j := (cl_nodes c ! j)\<lparr>changeCh := False\<rparr>])"
    using assms(1) by (auto simp: notifySnapshot_def split: if_splits)
  then show ?thesis
    using assms(2) moved_update [of c' c j _ Drain] by auto
next
  case (Submit cmd)
  with assms show ?thesis by (auto simp: cluster_SubmitCommand_def intro: submit_from_moved)
next
  case (KillEv j)
  with assms moved_update [of c' c "nat j" _ Crash] show ?thesis
    by (auto simp: KillNode_def split: if_splits)
next
  case (RestartEv j)
  with assms moved_update [of c' c "nat j" _ Revive] show ?thesis
    by (auto simp: RestartNode_def split: if_splits)
qed (use assms in \<open>auto simp: Partition_def Heal_def notifySnapshot_def\<close>)

lemma cluster_step_length:
  assumes "cluster_step e c = Some c'"
  shows "length (cl_nodes c') = length (cl_nodes c)"
proof (cases e)
  case (Submit cmd)
  have "length (cl_nodes d) = length (cl_nodes c)" if "submit_from cmd is c = Some (d, ok)" for "is" d ok
    using that by (induction "is") (auto split: option.splits if_splits dest!: node_ran_nodes)
  with assms Submit show ?thesis by (auto simp: cluster_SubmitCommand_def)
qed (use assms in \<open>auto split: if_splits list.splits dest!: node_ran_nodes
      simp: notifySnapshot_def KillNode_def RestartNode_def Partition_def Heal_def\<close>)

text \<open>A reflexive and transitive relation that every event of a node keeps holds along a run.\<close>

lemma cluster_run_nodes:
  assumes refl: "\<And>n. R n n" and trans: "\<And>a b d. R a b \<Longrightarrow> R b d \<Longrightarrow> R a d"
    and step: "\<And>e n n' ms. node_step e n = Some (n', ms) \<Longrightarrow> R n n'"
    and run: "cluster_run es c = Some c'" and i: "i < length (cl_nodes c)"
  shows "R (cl_nodes c ! i) (cl_nodes c' ! i)"
  using run i
proof (induction es arbitrary: c)
  case (Cons e es)
  then obtain c1 where c1: "cluster_step e c = Some c1" "cluster_run es c1 = Some c'"
    by (auto split: option.splits)
  have "R (cl_nodes c ! i) (cl_nodes c1 ! i)"
    using cluster_step_moved [OF c1(1) Cons.prems(2)] by (auto simp: moved_def intro: refl step)
  moreover have "R (cl_nodes c1 ! i) (cl_nodes c' ! i)"
    using Cons.IH [OF c1(2)] Cons.prems(2) cluster_step_length [OF c1(1)] by simp
  ultimately show ?case by (rule trans)
qed (auto intro: refl)

section \<open>What is applied stays applied\<close>

text \<open>
  \<open>commitIndex\<close> itself can go back: a follower whose log is shorter than its commit index
  clamps it (\<open>follow_commit\<close>). \<open>lastApplied\<close> cannot, and is never behind it.
\<close>

lemma follow_commit_applied:
  "lastApplied n \<le> lastApplied (follow_commit c n)"
  "commitIndex n \<le> lastApplied n \<Longrightarrow> commitIndex (follow_commit c n) \<le> lastApplied (follow_commit c n)"
  by (auto simp: follow_commit_def)

lemma handleAppendEntries_applied:
  "lastApplied n \<le> lastApplied (fst (handleAppendEntries f a n))"
  "commitIndex n \<le> lastApplied n \<Longrightarrow>
     commitIndex (fst (handleAppendEntries f a n)) \<le> lastApplied (fst (handleAppendEntries f a n))"
  by (auto simp: handleAppendEntries_def Let_def simp del: follow_commit_sel
      intro!: order_trans [OF _ follow_commit_applied(1)] follow_commit_applied(2))

lemma advance_from_applied:
  "lastApplied n \<le> lastApplied (advance_from i n)"
  "commitIndex n \<le> lastApplied n \<Longrightarrow> commitIndex (advance_from i n) \<le> lastApplied (advance_from i n)"
  by (induction i n rule: advance_from.induct) simp_all

lemma node_step_applied:
  assumes "node_step e n = Some (n', ms)"
  shows "lastApplied n \<le> lastApplied n' \<and> (commitIndex n \<le> lastApplied n \<longrightarrow> commitIndex n' \<le> lastApplied n')"
  using assms
proof (cases rule: node_step_cases)
  case (vote m a)
  then have "n' = fst (handleRequestVote (msg_from m) a n)" by (metis fst_conv)
  then show ?thesis by (simp add: handleRequestVote_sel)
next
  case (vote_reply m r)
  from vote_reply(4) show ?thesis
  proof (cases rule: handleRequestVoteReply_cases)
    case (won n2 vs)
    have "lastApplied n2 = lastApplied n" "commitIndex n2 = commitIndex n" using won(3) by auto
    with becomeLeader_sel(6,7) [OF won(6)] show ?thesis by simp
  qed auto
next
  case (append m a)
  then have n': "n' = fst (handleAppendEntries (msg_from m) a n)" by (metis fst_conv)
  show ?thesis unfolding n' by (blast intro: handleAppendEntries_applied)
next
  case (append_reply m r)
  from append_reply(4) show ?thesis
  proof (cases rule: handleAppendEntriesReply_cases)
    case (matched mi ni)
    then show ?thesis
      using advance_from_applied [of "n\<lparr>matchIndex := mi, nextIndex := Some ni\<rparr>"]
      by (simp add: maybeAdvanceCommitIndex_def)
  qed auto
next
  case election
  then have "n' = fst (startElection (n\<lparr>timerArmed := False\<rparr>))" by (metis fst_conv)
  then show ?thesis by (simp add: startElection_sel)
next
  case (command cmd ok)
  from command(2) show ?thesis by (cases rule: SubmitCommand_cases) auto
qed (auto simp: Kill_def Restart_def)

section \<open>Bounds of the mailboxes and of the in-flight window\<close>

definition bounded :: "cluster \<Rightarrow> bool" where
  "bounded c \<longleftrightarrow> list_all (\<lambda>b. length b \<le> inbox_capacity) (inboxes c) \<and> length (cl_inFlight c) \<le> maxInFlight"

lemma pruneInFlight_length: "length (pruneInFlight now ms) \<le> maxInFlight"
  by (simp add: pruneInFlight_def Let_def)

lemma pruneInFlight_young: "m \<in> set (pruneInFlight now ms) \<Longrightarrow> now - if_sentAt m < inFlightTTL"
  by (auto simp: pruneInFlight_def Let_def split: if_splits dest!: in_set_dropD)

lemma bounded_nth: "bounded c \<Longrightarrow> i < length (inboxes c) \<Longrightarrow> length (inboxes c ! i) \<le> inbox_capacity"
  by (simp add: bounded_def list_all_length)

lemma bounded_update:
  assumes "bounded c" and "length b \<le> inbox_capacity"
  shows "bounded (c\<lparr>inboxes := (inboxes c)[i := b]\<rparr>)"
  using assms by (auto simp: bounded_def list_all_iff dest!: set_update_subset_insert [THEN subsetD])

lemma bounded_nodes [simp]: "bounded (c\<lparr>cl_nodes := ns\<rparr>) = bounded c"
  by (simp add: bounded_def)

lemma bounded_notify [simp]: "bounded (notifySnapshot c) = bounded c"
  by (simp add: bounded_def notifySnapshot_def)

lemma bounded_new: "bounded (New N)"
  by (simp add: bounded_def New_def list_all_length)

lemma route_bounded:
  assumes "route m c = Some c'" and "bounded c"
  shows "bounded c'"
proof -
  let ?p = "pruneInFlight (clock c) (cl_inFlight c @ [\<lparr>if_from = msg_from m, if_to = msg_to m,
      if_type = rpcTypeName (msg_body m), if_term = rpcTerm (msg_body m), if_sentAt = clock c\<rparr>])"
  have 1: "bounded (c\<lparr>cl_inFlight := ?p\<rparr>)"
    using assms(2) pruneInFlight_length by (simp add: bounded_def)
  then have "bounded ((c\<lparr>cl_inFlight := ?p\<rparr>)\<lparr>inboxes := (inboxes c)[msg_to m := inboxes c ! msg_to m @ [m]]\<rparr>)"
    if "length (inboxes c ! msg_to m) < inbox_capacity"
    using that bounded_update [OF 1, of "inboxes c ! msg_to m @ [m]" "msg_to m"] by simp
  with 1 assms(1) show ?thesis by (auto simp: route_def Let_def split: if_splits)
qed

lemma route_all_bounded: "route_all ms c = Some c' \<Longrightarrow> bounded c \<Longrightarrow> bounded c'"
  by (induction ms arbitrary: c) (auto split: option.splits dest: route_bounded)

lemma node_ran_bounded: "node_ran i r c = Some c' \<Longrightarrow> bounded c \<Longrightarrow> bounded c'"
  by (auto simp: node_ran_def split: option.splits intro: route_all_bounded)

lemma submit_from_bounded: "submit_from cmd is c = Some (c', ok) \<Longrightarrow> bounded c \<Longrightarrow> bounded c'"
  by (induction "is") (auto split: option.splits if_splits intro: node_ran_bounded)

lemma cluster_step_bounded:
  assumes "cluster_step e c = Some c'" and "bounded c"
  shows "bounded c'"
proof (cases e)
  case (Deliver i)
  show ?thesis
  proof (cases "i < length (cl_nodes c) \<and> i < length (inboxes c) \<and> inboxes c ! i \<noteq> []")
    case True
    then obtain m rest where m: "inboxes c ! i = m # rest" by (cases "inboxes c ! i") auto
    with True bounded_nth [OF assms(2), of i] have "bounded (c\<lparr>inboxes := (inboxes c)[i := rest]\<rparr>)"
      by (intro bounded_update [OF assms(2)]) simp
    with assms(1) Deliver True m show ?thesis by (auto intro: node_ran_bounded)
  next
    case False
    with assms Deliver show ?thesis by (auto split: if_splits)
  qed
next
  case (Elapse d)
  with assms show ?thesis by (auto simp: bounded_def)
next
  case (PartitionEv a b)
  with assms show ?thesis by (auto simp: Partition_def bounded_def notifySnapshot_def)
next
  case HealEv
  with assms show ?thesis by (auto simp: Heal_def bounded_def notifySnapshot_def)
qed (use assms in \<open>auto simp: cluster_SubmitCommand_def KillNode_def RestartNode_def
      intro: node_ran_bounded submit_from_bounded split: if_splits\<close>)

lemma cluster_run_bounded: "cluster_run es c = Some c' \<Longrightarrow> bounded c \<Longrightarrow> bounded c'"
  by (induction es arbitrary: c) (auto split: option.splits dest: cluster_step_bounded)

section \<open>Partitions last until they are healed\<close>

lemma route_partitioned: "route m c = Some c' \<Longrightarrow> partitioned c' = partitioned c"
  by (auto simp: route_def Let_def split: if_splits)

lemma route_all_partitioned: "route_all ms c = Some c' \<Longrightarrow> partitioned c' = partitioned c"
  by (induction ms arbitrary: c) (auto split: option.splits dest: route_partitioned)

lemma node_ran_partitioned: "node_ran i r c = Some c' \<Longrightarrow> partitioned c' = partitioned c"
  by (auto simp: node_ran_def split: option.splits dest: route_all_partitioned)

lemma submit_from_partitioned: "submit_from cmd is c = Some (c', ok) \<Longrightarrow> partitioned c' = partitioned c"
proof (induction "is")
  case (Cons i "is")
  then show ?case by (simp split: option.splits prod.splits if_splits) (blast dest: node_ran_partitioned)+
qed simp

lemma Partition_eq:
  "partitioned (Partition A B c) = partitioned c \<union>
     (\<Union>x\<in>set A. \<Union>y\<in>set B. set (if x \<ge> 0 \<and> y \<ge> 0 then [(nat x, nat y), (nat y, nat x)] else []))"
  by (simp only: Partition_def notifySnapshot_def set_concat set_map image_image) simp

lemma cluster_step_partitioned:
  assumes "cluster_step e c = Some c'" and "e \<noteq> HealEv"
  shows "partitioned c \<subseteq> partitioned c'"
proof (cases e)
  case (Submit cmd)
  with assms(1) show ?thesis
    by (auto simp: cluster_SubmitCommand_def simp del: upt_Suc dest: submit_from_partitioned)
next
  case (Deliver i)
  with assms(1) show ?thesis
    by (simp split: if_splits list.splits) (force dest: node_ran_partitioned)+
next
  case (Timeout i)
  with assms(1) show ?thesis by (simp split: if_splits) (force dest: node_ran_partitioned)+
next
  case (Heartbeat i)
  with assms(1) show ?thesis by (simp split: if_splits) (force dest: node_ran_partitioned)+
next
  case (PartitionEv a b)
  with assms(1) Partition_eq [of a b c] show ?thesis by simp
qed (use assms in \<open>auto simp: notifySnapshot_def KillNode_def RestartNode_def split: if_splits\<close>)

lemma cluster_run_partitioned:
  "cluster_run es c = Some c' \<Longrightarrow> HealEv \<notin> set es \<Longrightarrow> partitioned c \<subseteq> partitioned c'"
proof (induction es arbitrary: c)
  case (Cons e es)
  then obtain c1 where c1: "cluster_step e c = Some c1" "cluster_run es c1 = Some c'"
    by (auto split: option.splits)
  have "e \<noteq> HealEv" "HealEv \<notin> set es" using Cons.prems(2) by auto
  with cluster_step_partitioned [OF c1(1)] Cons.IH [OF c1(2)] show ?case by blast
qed simp

lemma Partition_pairs:
  assumes "a \<in> set A" "b \<in> set B" "0 \<le> a" "0 \<le> b"
  shows "(nat a, nat b) \<in> partitioned (Partition A B c)" "(nat b, nat a) \<in> partitioned (Partition A B c)"
proof -
  have "(nat a, nat b) \<in> set (if a \<ge> 0 \<and> b \<ge> 0 then [(nat a, nat b), (nat b, nat a)] else [])"
    "(nat b, nat a) \<in> set (if a \<ge> 0 \<and> b \<ge> 0 then [(nat a, nat b), (nat b, nat a)] else [])"
    using assms(3,4) by simp_all
  moreover note Partition_eq [of A B c]
  ultimately show "(nat a, nat b) \<in> partitioned (Partition A B c)" "(nat b, nat a) \<in> partitioned (Partition A B c)"
    using assms(1,2) by blast+
qed

section \<open>Delivering an append twice\<close>

lemma match_len_full: "map le_term (take (length es) xs) = map le_term es \<Longrightarrow> match_len es xs = length es"
  by (induction es xs rule: match_len.induct) auto

lemma append_spec_again:
  assumes "p \<le> length l"
  shows "append_spec p es (append_spec p es l) = append_spec p es l"
  using match_len_full [OF append_spec_terms [OF assms, of es]]
  by (simp add: append_spec_def [of p es "append_spec p es l"])

lemma prev_matches_append:
  assumes "prev_matches a l"
  shows "prev_matches a (append_spec (ae_prevLogIndex a) es l)"
proof (cases "ae_prevLogIndex a = 0")
  case False
  let ?p = "ae_prevLogIndex a" and ?l = "append_spec (ae_prevLogIndex a) es l"
  have p: "?p \<le> length l" "le_term (l ! (?p - 1)) = ae_prevLogTerm a"
    using assms False by (auto simp: prev_matches_def split: if_splits)
  have "?p \<le> length ?l" using append_spec_length [OF p(1), of es] by simp
  moreover have "?l ! (?p - 1) = l ! (?p - 1)"
    using append_spec_prefix [OF p(1), of es] False by (metis diff_less gr_zeroI nth_take zero_less_one)
  ultimately show ?thesis using p(2) False by (simp add: prev_matches_def)
qed (simp add: prev_matches_def)

lemma prev_matches_le: "prev_matches a l \<Longrightarrow> ae_prevLogIndex a \<le> length l"
  by (auto simp: prev_matches_def split: if_splits)

end
