(* ===== verification/Raft_Properties.thy ===== *)
theory Raft_Properties
  imports Raft_Steps
begin

text \<open>
  The properties of the Raft implementation: first what holds on every schedule, then
  election safety with the condition it needs, and the schedules on which the code breaks a
  guarantee of Raft.
\<close>

section \<open>Every schedule\<close>




text \<open>
  C5: One vote per term: on every schedule, also with lost, duplicated and reordered messages
  and restarts, a node that has sent a granted vote to one candidate in a term never sends one
  to another candidate in that term.
\<close>

theorem one_vote_per_term:
  assumes "net_reach any_event N s" and "granted s v c t" and "granted s v c' t"
  shows "c = c'"
proof -
  have "vote_inv s" by (rule votes.both.reach_inv [OF assms(1), THEN conjunct2])
  with assms(2,3) show ?thesis by (auto simp: vote_inv_def)
qed

lemma one_vote_per_term_witness:
  "\<exists>s. net_reach any_event 2 s \<and> {c. granted s 1 c 1} = {0}"
proof -
  let ?c = "the (cluster_run [Timeout 0, Deliver 1] (New 2))"
  have run: "cluster_run [Timeout 0, Deliver 1] (New 2) \<noteq> None" by code_simp
  have box: "inboxes ?c ! 0 = [\<lparr>msg_from = 1, msg_to = 0, msg_body = VoteReply \<lparr>rvr_term = 1, rvr_granted = True\<rparr>\<rparr>]"
    and len: "length (inboxes ?c) = 2" by code_simp+
  obtain s where s: "net_reach any_event 2 s" "sim ?c s"
    using cluster_run_reach [OF option.collapse [OF run, symmetric] restricts_any schedule_any] by blast
  have "\<lparr>msg_from = 1, msg_to = 0, msg_body = VoteReply \<lparr>rvr_term = 1, rvr_granted = True\<rparr>\<rparr> \<in> sent s"
    by (rule sim_sent [OF s(2), of 0]) (unfold box len, simp_all)
  then have "granted s 1 0 1" unfolding granted_def by (intro bexI) auto
  with one_vote_per_term [OF s(1)] s(1) show ?thesis by blast
qed



definition keeps :: "node \<Rightarrow> node \<Rightarrow> bool" where
  "keeps n n' \<longleftrightarrow> currentTerm n \<le> currentTerm n' \<and> lastApplied n \<le> lastApplied n' \<and>
     (currentTerm n' = currentTerm n \<and> votedFor n \<noteq> None \<longrightarrow> votedFor n' = votedFor n)"

text \<open>
  C19: What a node keeps: along every run from any state of the cluster its term never goes
  down, a vote it has cast is not changed within the term, and its count of applied entries
  never goes down.
\<close>

theorem node_memory_kept:
  assumes "cluster_run es c = Some c'" and "i < length (cl_nodes c)"
  shows "keeps (cl_nodes c ! i) (cl_nodes c' ! i)"
proof (rule cluster_run_nodes [OF _ _ _ assms])
  show "keeps a d" if "keeps a b" "keeps b d" for a b d
    using that by (auto simp: keeps_def)
  show "keeps n n'" if "node_step e n = Some (n', ms)" for e n n' ms
    using node_step_term [OF that] node_step_applied [OF that] node_step_vote [OF that]
    by (auto simp: keeps_def)
qed (simp add: keeps_def)

lemma node_memory_kept_witness:
  "keeps (cl_nodes (New 2) ! 1) (cl_nodes (the (cluster_run [Timeout 0, Deliver 1] (New 2))) ! 1)"
proof -
  have "cluster_run [Timeout 0, Deliver 1] (New 2) \<noteq> None" "1 < length (cl_nodes (New 2))" by code_simp+
  then show ?thesis using node_memory_kept by (metis option.collapse)
qed

text \<open>
  C20: Leader append-only: whatever one event of the cluster does, a node that is a leader
  after it still has every entry it had before, in the same places.
\<close>

theorem leader_log_append_only:
  assumes "cluster_step e c = Some c'" and "i < length (cl_nodes c)" and "role (cl_nodes c' ! i) = Leader"
  shows "prefix (rlog (cl_nodes c ! i)) (rlog (cl_nodes c' ! i))"
  using cluster_step_moved [OF assms(1,2)] leader_append_only [OF _ assms(3)]
  by (auto simp: moved_def)

lemma leader_log_append_only_witness:
  "let c = the (cluster_run [Timeout 0, Deliver 1, Deliver 0, Submit ''x''] (New 2)); c' = the (cluster_step (Submit ''y'') c)
   in length (rlog (cl_nodes c ! 0)) = 1 \<and> length (rlog (cl_nodes c' ! 0)) = 2 \<and>
      prefix (rlog (cl_nodes c ! 0)) (rlog (cl_nodes c' ! 0))"
proof -
  let ?c = "the (cluster_run [Timeout 0, Deliver 1, Deliver 0, Submit ''x''] (New 2))"
  let ?r = "cluster_step (Submit ''y'') ?c"
  have r: "?r \<noteq> None" and l: "length (rlog (cl_nodes ?c ! 0)) = 1" "length (rlog (cl_nodes (the ?r) ! 0)) = 2"
    and i: "0 < length (cl_nodes ?c)" and lead: "role (cl_nodes (the ?r) ! 0) = Leader"
    by code_simp+
  from l leader_log_append_only [OF option.collapse [OF r, symmetric] i lead]
  show ?thesis by (simp only: Let_def simp_thms)
qed

text \<open>
  C10: The follower's append loop, entry by entry, is this closed form: keep the entries whose
  terms already agree; if all do, change nothing, also when the log is longer; otherwise cut
  the log at the first disagreement and append the rest.
\<close>

theorem append_loop_closed_form:
  assumes "p \<le> length l"
  shows "append_entries (p + 1) es l =
    (let k = match_len es (drop p l) in if k = length es then l else take (p + k) l @ drop k es)"
  using append_entries_spec [OF assms] by (simp add: append_spec_def)

lemma append_loop_closed_form_witness:
  "let e = \<lambda>i t c. \<lparr>le_index = i, le_term = t, le_command = c\<rparr>;
       l = [e 1 1 ''a'', e 2 1 ''b'', e 3 1 ''c'']; es = [e 2 1 ''b'', e 3 2 ''d'']
   in append_entries (1 + 1) es l = [e 1 1 ''a'', e 2 1 ''b'', e 3 2 ''d''] \<and>
      append_entries (1 + 1) es l =
        (let k = match_len es (drop 1 l) in if k = length es then l else take (1 + k) l @ drop k es)"
  by (simp only: Let_def append_loop_closed_form list.size) code_simp

text \<open>
  An accepted AppendEntries: the log before \<open>PrevLogIndex\<close> is untouched, after it come the
  leader's entries (in their terms), nothing beyond them is lost unless an entry disagreed,
  and the same request delivered again changes nothing in the log.
\<close>

theorem accepted_append:
  assumes "handleAppendEntries f a n = (n', ms)" and "currentTerm n \<le> ae_term a" and "prev_matches a (rlog n)"
  shows "take (ae_prevLogIndex a) (rlog n') = take (ae_prevLogIndex a) (rlog n) \<and>
    map le_term (take (length (ae_entries a)) (drop (ae_prevLogIndex a) (rlog n'))) = map le_term (ae_entries a) \<and>
    rlog (fst (handleAppendEntries f a n')) = rlog n'"
proof -
  have n': "n' = fst (handleAppendEntries f a n)" using assms(1) by simp
  have l: "rlog n' = append_spec (ae_prevLogIndex a) (ae_entries a) (rlog n)"
    using assms(2,3) by (simp add: n' handleAppendEntries_log)
  have t: "currentTerm n' = ae_term a" using assms(2) by (simp add: n' handleAppendEntries_sel)
  note p = prev_matches_le [OF assms(3)]
  have "rlog (fst (handleAppendEntries f a n')) = rlog n'"
    using prev_matches_append [OF assms(3), of "ae_entries a"] append_spec_again [OF p, of "ae_entries a"]
    by (simp add: handleAppendEntries_log t l)
  with append_spec_prefix [OF p] append_spec_terms [OF p] show ?thesis by (simp add: l)
qed

definition demo_follower :: node where
  "demo_follower = (NewNode 1 [0, 2])\<lparr>currentTerm := 1,
     rlog := [\<lparr>le_index = 1, le_term = 1, le_command = ''a''\<rparr>, \<lparr>le_index = 2, le_term = 1, le_command = ''b''\<rparr>]\<rparr>"

definition demo_append :: AppendEntriesArgs where
  "demo_append = \<lparr>ae_term = 2, ae_leader = 0, ae_prevLogIndex = 1, ae_prevLogTerm = 1,
     ae_entries = [\<lparr>le_index = 2, le_term = 2, le_command = ''c''\<rparr>], ae_leaderCommit = 1\<rparr>"

lemma accepted_append_witness:
  "let n' = fst (handleAppendEntries 0 demo_append demo_follower)
   in map le_command (rlog n') = [''a'', ''c''] \<and> rlog (fst (handleAppendEntries 0 demo_append n')) = rlog n'"
proof -
  have "currentTerm demo_follower \<le> ae_term demo_append" "prev_matches demo_append (rlog demo_follower)"
    "map le_command (rlog (fst (handleAppendEntries 0 demo_append demo_follower))) = [''a'', ''c'']"
    by code_simp+
  with accepted_append [of 0 demo_append demo_follower "fst (handleAppendEntries 0 demo_append demo_follower)"
      "snd (handleAppendEntries 0 demo_append demo_follower)"]
  show ?thesis by (simp only: Let_def prod.collapse simp_thms)
qed


text \<open>
  A crashed node is silent: until it is restarted no message, timer or heartbeat makes it
  send anything or changes its log, its term, its vote or its commit index. (A command
  submitted to it directly is the exception, see the schedule at the end.)
\<close>

theorem crashed_node_is_silent:
  assumes "node_step e n = Some (n', ms)" and "\<not> alive n" and "case e of Cmd c \<Rightarrow> False | Revive \<Rightarrow> False | _ \<Rightarrow> True"
  shows "ms = [] \<and> \<not> alive n' \<and> rlog n' = rlog n \<and> currentTerm n' = currentTerm n \<and>
    votedFor n' = votedFor n \<and> commitIndex n' = commitIndex n \<and> role n' = role n"
  using assms
  by (cases e) (auto simp: run_inbox_def run_timer_def heartbeatTick_def Kill_def split: if_splits)

lemma crashed_node_is_silent_witness:
  "let n = Kill demo_follower; r = the (node_step (Recv \<lparr>msg_from = 0, msg_to = 1, msg_body = AppendEntries demo_append\<rparr>) n)
   in length (rlog n) = 2 \<and> snd r = [] \<and> rlog (fst r) = rlog n"
proof -
  let ?e = "Recv \<lparr>msg_from = 0, msg_to = 1, msg_body = AppendEntries demo_append\<rparr>"
  let ?r = "node_step ?e (Kill demo_follower)"
  have r: "?r \<noteq> None" and n: "\<not> alive (Kill demo_follower)" "length (rlog (Kill demo_follower)) = 2"
    by code_simp+
  have "?r = Some (fst (the ?r), snd (the ?r))" unfolding prod.collapse by (rule option.collapse [OF r, symmetric])
  with n crashed_node_is_silent [of ?e "Kill demo_follower" "fst (the ?r)" "snd (the ?r)"] show ?thesis
    by (simp only: Let_def node_event.case simp_thms)
qed

text \<open>
  C23: A partition cuts every message between its two groups, in both directions, whatever the
  cluster does until the next heal: such a message is shown as in flight and reaches no mailbox.
\<close>

theorem partition_cuts_messages:
  assumes "cluster_run (PartitionEv A B # es) c = Some c'" and "HealEv \<notin> set es"
    and "a \<in> set A" "b \<in> set B" "0 \<le> a" "0 \<le> b"
    and "(msg_from m, msg_to m) \<in> {(nat a, nat b), (nat b, nat a)}"
  shows "\<exists>c''. route m c' = Some c'' \<and> inboxes c'' = inboxes c' \<and> cl_nodes c'' = cl_nodes c'"
proof -
  have "cluster_run es (Partition A B c) = Some c'" using assms(1) by simp
  from cluster_run_partitioned [OF this assms(2)]
  have "(nat a, nat b) \<in> partitioned c'" "(nat b, nat a) \<in> partitioned c'"
    using Partition_pairs [OF assms(3-6)] by (auto dest: subsetD)
  with assms(7) have "(msg_from m, msg_to m) \<in> partitioned c'" by (elim insertE) simp_all
  then show ?thesis by (simp add: route_def Let_def)
qed

lemma partition_cuts_messages_witness:
  "let c' = the (cluster_run [PartitionEv [0] [1, 2], Timeout 0] (New 3));
       m = \<lparr>msg_from = 1, msg_to = 0, msg_body = VoteReply \<lparr>rvr_term = 1, rvr_granted = True\<rparr>\<rparr>
   in length (cl_inFlight c') = 2 \<and> (\<exists>c''. route m c' = Some c'' \<and> inboxes c'' = inboxes c' \<and> cl_nodes c'' = cl_nodes c')"
proof -
  let ?r = "cluster_run [PartitionEv [0] [1, 2], Timeout 0] (New 3)"
  let ?m = "\<lparr>msg_from = 1, msg_to = 0, msg_body = VoteReply \<lparr>rvr_term = 1, rvr_granted = True\<rparr>\<rparr>"
  have r: "?r \<noteq> None" and n: "length (cl_inFlight (the ?r)) = 2" by code_simp+
  have "\<exists>c''. route ?m (the ?r) = Some c'' \<and> inboxes c'' = inboxes (the ?r) \<and> cl_nodes c'' = cl_nodes (the ?r)"
    by (rule partition_cuts_messages [OF option.collapse [OF r, symmetric], of 0 1]) auto
  with n show ?thesis by (simp only: Let_def simp_thms)
qed

text \<open>
  C24: Bounds: in every run a mailbox never holds more than 128 messages, and a snapshot shows
  at most 256 messages in flight, none of them sent 150 ms ago or earlier.
\<close>

theorem mailboxes_and_window_bounded:
  assumes "cluster_run es (New N) = Some c"
  shows "list_all (\<lambda>b. length b \<le> 128) (inboxes c) \<and>
    length (cs_inFlight (snd (buildSnapshot c))) \<le> 256 \<and>
    list_all (\<lambda>m. clock c - if_sentAt m < 150) (cs_inFlight (snd (buildSnapshot c)))"
  using cluster_run_bounded [OF assms bounded_new] pruneInFlight_length [of "clock c" "cl_inFlight c"]
    pruneInFlight_young [of _ "clock c" "cl_inFlight c"]
  by (auto simp: bounded_def inbox_capacity_def maxInFlight_def inFlightTTL_def buildSnapshot_def Let_def list_all_iff)

lemma mailboxes_and_window_bounded_witness:
  "let c = the (cluster_run [Timeout 0, Elapse 100, Deliver 1, Elapse 60] (New 3))
   in length (cl_inFlight c) = 3 \<and> length (cs_inFlight (snd (buildSnapshot c))) = 1 \<and>
      list_all (\<lambda>m. clock c - if_sentAt m < 150) (cs_inFlight (snd (buildSnapshot c)))"
proof -
  let ?r = "cluster_run [Timeout 0, Elapse 100, Deliver 1, Elapse 60] (New 3)"
  have r: "?r \<noteq> None" and n: "length (cl_inFlight (the ?r)) = 3"
    "length (cs_inFlight (snd (buildSnapshot (the ?r)))) = 1" by code_simp+
  from n mailboxes_and_window_bounded [OF option.collapse [OF r, symmetric]] show ?thesis
    by (simp only: Let_def simp_thms)
qed

section \<open>Election safety, and the schedules that break it\<close>

text \<open>
  Election safety: after a run in which no candidate receives a granted vote reply of an
  earlier term, at most one node is the leader of any term.
\<close>

theorem election_safety:
  assumes "cluster_run es (New N) = Some c" and "schedule_adm fresh_votes es (New N)"
  shows "length (filter (\<lambda>n. role n = Leader \<and> currentTerm n = t) (cl_nodes c)) \<le> 1"
proof (rule length_filter_le_1)
  fix i j
  assume ij: "i < length (cl_nodes c)" "j < length (cl_nodes c)"
    "role (cl_nodes c ! i) = Leader \<and> currentTerm (cl_nodes c ! i) = t"
    "role (cl_nodes c ! j) = Leader \<and> currentTerm (cl_nodes c ! j) = t"
  obtain s where s: "net_reach fresh_votes N s" "sim c s"
    using cluster_run_reach [OF assms(1) restricts_fresh assms(2)] by blast
  have inv: "net_ok N s" "vote_inv s" "campaign_inv N s"
    using votes.both.reach_inv [OF s(1)] campaigns.both.reach_inv [OF s(1)] by simp_all
  have "net_nodes s = cl_nodes c" "length (cl_nodes c) = N" using s(2) inv(1) by (simp_all add: sim_def net_ok_def)
  with leader_unique [OF inv, of i j] ij show "i = j" by simp
qed

lemma election_safety_witness:
  "let c = the (cluster_run [Timeout 0, Deliver 1, Timeout 2, Deliver 0, Deliver 2] (New 3))
   in map role (cl_nodes c) = [Leader, Follower, Candidate] \<and>
      length (filter (\<lambda>n. role n = Leader \<and> currentTerm n = 1) (cl_nodes c)) \<le> 1"
proof -
  let ?es = "[Timeout 0, Deliver 1, Timeout 2, Deliver 0, Deliver 2]"
  let ?r = "cluster_run ?es (New 3)"
  have r: "?r \<noteq> None" and adm: "schedule_adm fresh_votes ?es (New 3)"
    and roles: "map role (cl_nodes (the ?r)) = [Leader, Follower, Candidate]" by code_simp+
  from roles election_safety [OF option.collapse [OF r, symmetric] adm, of 1] show ?thesis
    by (simp only: Let_def simp_thms)
qed


definition split_schedule :: "cl_event list" where
  "split_schedule =
     [Timeout 2, Deliver 0, Deliver 2, PartitionEv [2] [0, 1], Submit ''A'', Submit ''B'', Deliver 0, Deliver 1,
      Deliver 1, Timeout 0, Deliver 1, Deliver 0, Deliver 1, Deliver 0,
      HealEv, Heartbeat 0, Heartbeat 0, Deliver 2, Deliver 2, Deliver 2, Deliver 0, Submit ''X'', Deliver 0]"

text \<open>
  Commitment is not safe: a follower acknowledges its whole log, not what the request made
  it verify, so the stale tail of a deposed leader counts as replicas. After this schedule of
  a partition and a heal, with fresh votes only, the leader has committed the command X while
  no other node of three holds it.
\<close>

theorem unreplicated_entry_committed:
  "let c = the (cluster_run split_schedule (New 3)); n = cl_nodes c ! 0
   in schedule_adm fresh_votes split_schedule (New 3) \<and> role n = Leader \<and>
      0 < commitIndex n \<and> le_command (rlog n ! (commitIndex n - 1)) = ''X'' \<and>
      \<not> list_ex (\<lambda>n. list_ex (\<lambda>e. le_command e = ''X'') (rlog n)) (tl (cl_nodes c))"
  by code_simp

text \<open>
  A leader deposes itself: \<open>Run\<close> starts an election whenever the timer fires, the leader's
  too, and \<open>becomeLeader\<close> does not stop it. A stable, connected leader of term 1 whose timer
  fires leads term 2 next, with the heartbeat goroutine of term 1 still running beside the
  new one.
\<close>

theorem leader_deposes_itself:
  "let lead = [Timeout 0, Deliver 1, Deliver 0]; n1 = cl_nodes (the (cluster_run lead (New 3))) ! 0;
       n2 = cl_nodes (the (cluster_run (lead @ [Timeout 0, Deliver 1, Deliver 1, Deliver 0, Deliver 0]) (New 3))) ! 0
   in (role n1, currentTerm n1, hb_loops n1) = (Leader, 1, [0]) \<and> timerArmed n1 \<and>
      (role n2, currentTerm n2, hb_loops n2) = (Leader, 2, [0, 1])"
  by code_simp

text \<open>
  A crashed leader takes commands: \<open>Kill\<close> keeps the role and \<open>SubmitCommand\<close> looks at the
  role alone, so with the leader of term 1 killed and node 2 elected in term 2, a command
  goes to the dead node 0, and the live leader never sees it.
\<close>

theorem crashed_leader_takes_command:
  "let es = [Timeout 0, Deliver 1, Deliver 0, KillEv 0, Deliver 2, Timeout 2, Deliver 1, Deliver 1, Deliver 2,
             Deliver 2];
       c = the (cluster_run es (New 3)); r = the (cluster_SubmitCommand ''x'' c)
   in map IsLeader (cl_nodes c) = [False, False, True] \<and> snd r \<and>
      map (\<lambda>n. length (rlog n)) (cl_nodes (fst r)) = [1, 0, 0]"
  by code_simp

end
