(* ===== verification/Raft_Matching.thy ===== *)
theory Raft_Matching
  imports Raft_Log
begin

text \<open>
  Log matching. A link of a log is an entry's position, term and command with the term of the
  entry before it. Where no stale vote is counted, every link in a log or in a request under
  way was made by the one leader of its term, and two links with the same position and term are
  the same; so two logs that agree on the term of a position agree on everything up to it.
\<close>

section \<open>Links\<close>

type_synonym link = "nat \<times> nat \<times> string \<times> nat"

definition link_term :: "link \<Rightarrow> nat" where
  "link_term x = fst (snd x)"

text \<open>The links of a run of entries that stands after \<open>b\<close> entries, the last of which has the term \<open>pt\<close>.\<close>

fun links_from :: "nat \<Rightarrow> nat \<Rightarrow> LogEntry list \<Rightarrow> link set" where
  "links_from b pt [] = {}"
| "links_from b pt (e # es) = insert (b, le_term e, le_command e, pt) (links_from (Suc b) (le_term e) es)"

definition log_links :: "LogEntry list \<Rightarrow> link set" where
  "log_links l = links_from 0 0 l"

definition request_links :: "AppendEntriesArgs \<Rightarrow> link set" where
  "request_links a =
     links_from (ae_prevLogIndex a) (if ae_prevLogIndex a = 0 then 0 else ae_prevLogTerm a) (ae_entries a)"

text \<open>The term before position \<open>k\<close> of a log.\<close>

definition term_before :: "nat \<Rightarrow> LogEntry list \<Rightarrow> nat" where
  "term_before k l = (if k = 0 then 0 else le_term (l ! (k - 1)))"

lemma links_from_append:
  "links_from b pt (xs @ ys) =
     links_from b pt xs \<union> links_from (b + length xs) (if xs = [] then pt else le_term (last xs)) ys"
  by (induction xs arbitrary: b pt) auto

lemma links_from_position: "x \<in> links_from b pt es \<Longrightarrow> b \<le> fst x \<and> fst x < b + length es"
  by (induction es arbitrary: b pt) fastforce+

lemma links_from_nth:
  "i < length es \<Longrightarrow>
     (b + i, le_term (es ! i), le_command (es ! i), if i = 0 then pt else le_term (es ! (i - 1))) \<in> links_from b pt es"
proof (induction es arbitrary: b pt i)
  case (Cons e es)
  show ?case
  proof (cases i)
    case (Suc j)
    with Cons.prems Cons.IH [of j "Suc b" "le_term e"] show ?thesis by (cases j) auto
  qed simp
qed simp

lemma log_links_append:
  "log_links (xs @ ys) = log_links xs \<union> links_from (length xs) (term_before (length xs) xs) ys"
  by (cases "xs = []") (simp_all add: log_links_def links_from_append term_before_def last_conv_nth)

lemma links_prefix: "prefix xs ys \<Longrightarrow> log_links xs \<subseteq> log_links ys"
  by (auto simp: prefix_def log_links_append)

lemma links_drop:
  assumes "k \<le> length l"
  shows "links_from k (term_before k l) (drop k l) \<subseteq> log_links l"
proof -
  have "length (take k l) = k" "term_before k (take k l) = term_before k l"
    using assms by (auto simp: term_before_def)
  then show ?thesis using log_links_append [of "take k l" "drop k l"] by simp
qed

lemma link_position: "x \<in> log_links l \<Longrightarrow> fst x < length l"
  using links_from_position [of x 0 0 l] by (simp add: log_links_def)

lemma log_linksI: "i < length l \<Longrightarrow> (i, le_term (l ! i), le_command (l ! i), term_before i l) \<in> log_links l"
  using links_from_nth [of i l 0 0] by (simp add: log_links_def term_before_def)

text \<open>A follower that accepts a request only links what its log or the request links.\<close>

lemma links_append_spec:
  assumes "prev_matches a l"
  shows "log_links (append_spec (ae_prevLogIndex a) (ae_entries a) l) \<subseteq> log_links l \<union> request_links a"
proof -
  let ?p = "ae_prevLogIndex a" and ?es = "ae_entries a"
  let ?k = "match_len ?es (drop ?p l)"
  define pt where "pt = (if ?p = 0 then 0 else ae_prevLogTerm a)"
  have p: "?p \<le> length l" using assms by (auto simp: prev_matches_def split: if_splits)
  have k: "?k \<le> length ?es" "?k \<le> length l - ?p" using match_len_le [of ?es "drop ?p l"] by simp_all
  show ?thesis
  proof (cases "?k = length ?es")
    case True
    then show ?thesis by (simp add: append_spec_def Let_def)
  next
    case False
    let ?xs = "take (?p + ?k) l"
    have len: "length ?xs = ?p + ?k" using p k by simp
    have before: "term_before (?p + ?k) ?xs = (if ?k = 0 then pt else le_term (last (take ?k ?es)))"
    proof (cases "?k = 0")
      case True
      with assms p show ?thesis by (auto simp: term_before_def prev_matches_def pt_def split: if_splits)
    next
      case kpos: False
      have "map le_term (take ?k (drop ?p l)) ! (?k - 1) = map le_term (take ?k ?es) ! (?k - 1)"
        by (simp only: match_len_terms)
      then have "le_term (l ! (?p + ?k - 1)) = le_term (?es ! (?k - 1))"
        using kpos k p by (simp add: nth_append)
      moreover have "last (take ?k ?es) = ?es ! (?k - 1)"
        using kpos k by (subst last_conv_nth) auto
      ultimately show ?thesis using kpos k p by (simp add: term_before_def)
    qed
    have "request_links a = links_from ?p pt (take ?k ?es @ drop ?k ?es)" by (simp add: request_links_def pt_def)
    also have "\<dots> = links_from ?p pt (take ?k ?es) \<union>
        links_from (?p + ?k) (if ?k = 0 then pt else le_term (last (take ?k ?es))) (drop ?k ?es)"
      unfolding links_from_append using k False by (auto simp: min_def)
    finally have req: "links_from (?p + ?k) (term_before (?p + ?k) ?xs) (drop ?k ?es) \<subseteq> request_links a"
      unfolding before by blast
    have "log_links ?xs \<subseteq> log_links l" by (intro links_prefix take_is_prefix)
    moreover have "append_spec ?p ?es l = ?xs @ drop ?k ?es" using False by (simp add: append_spec_def Let_def)
    ultimately show ?thesis using req by (simp only: log_links_append len) blast
  qed
qed

text \<open>A leader's request only links what its log links.\<close>

lemma sendAppendEntries_links:
  assumes "sendAppendEntries p n = Some m" and "msg_body m = AppendEntries a"
  shows "request_links a \<subseteq> log_links (rlog n)"
  using assms(1)
proof (rule sendAppendEntries_msg)
  fix a' assume m: "msg_body m = AppendEntries a'" and es: "ae_entries a' = drop (ae_prevLogIndex a') (rlog n)"
    and pt: "ae_prevLogTerm a' = (if 0 < ae_prevLogIndex a' \<and> ae_prevLogIndex a' \<le> length (rlog n)
                         then le_term (rlog n ! (ae_prevLogIndex a' - 1)) else 0)"
  have a: "a' = a" using m assms(2) by simp
  show ?thesis
  proof (cases "ae_prevLogIndex a \<le> length (rlog n)")
    case True
    have "(if ae_prevLogIndex a = 0 then 0 else ae_prevLogTerm a) = term_before (ae_prevLogIndex a) (rlog n)"
      using True pt by (auto simp: term_before_def a)
    with links_drop [OF True] es show ?thesis by (simp add: request_links_def a)
  next
    case False
    with es show ?thesis by (simp add: request_links_def a)
  qed
qed

section \<open>One event\<close>

text \<open>
  After an event a node's log links what it linked, what a request it received links, or one new
  entry of the term it leads.
\<close>

lemma node_step_links:
  assumes "node_step e n = Some (n', ms)"
  obtains (kept) "log_links (rlog n') \<subseteq> log_links (rlog n)"
  | (appended) m a where "e = Recv m" "msg_body m = AppendEntries a"
      "log_links (rlog n') \<subseteq> log_links (rlog n) \<union> request_links a"
  | (created) cmd where "role n = Leader" "role n' = Leader" "currentTerm n' = currentTerm n"
      "log_links (rlog n') = insert (length (rlog n), currentTerm n, cmd, term_before (length (rlog n)) (rlog n)) (log_links (rlog n))"
  using assms
proof (cases rule: node_step_cases)
  case (vote m a)
  then have "n' = fst (handleRequestVote (msg_from m) a n)" by (metis fst_conv)
  then show ?thesis by (intro kept) (simp add: handleRequestVote_sel)
next
  case (vote_reply m r)
  from vote_reply(4) show ?thesis
  proof (cases rule: handleRequestVoteReply_cases)
    case (won n2 vs)
    have "rlog n2 = rlog n" using won(3) by auto
    with becomeLeader_sel(5) [OF won(6)] show ?thesis by (intro kept) simp
  qed (auto intro!: kept split: if_splits)
next
  case (append m a)
  then have n': "n' = fst (handleAppendEntries (msg_from m) a n)" by (metis fst_conv)
  have "log_links (rlog n') \<subseteq> log_links (rlog n) \<union> request_links a"
    using links_append_spec [of a "rlog n"] by (simp add: n' handleAppendEntries_log)
  with append show ?thesis by (intro appended)
next
  case (append_reply m r)
  from append_reply(4) show ?thesis
    by (cases rule: handleAppendEntriesReply_cases) (auto intro!: kept)
next
  case election
  then have "n' = fst (startElection (n\<lparr>timerArmed := False\<rparr>))" by (metis fst_conv)
  then show ?thesis by (intro kept) (simp add: startElection_sel)
next
  case (command cmd ok)
  from command(2) show ?thesis
  proof (cases rule: SubmitCommand_cases)
    case taken
    then show ?thesis by (intro created [of cmd]) (simp_all add: log_links_append)
  qed (auto intro!: kept)
qed (auto intro!: kept simp: Kill_def Restart_def)

text \<open>The requests a node sends link what its log links.\<close>

lemma node_step_request_links:
  assumes step: "node_step e n = Some (n', ms)" and m: "m \<in> set ms" "msg_body m = AppendEntries a"
  shows "request_links a \<subseteq> log_links (rlog n')"
  using step
proof (cases rule: node_step_cases)
  case (vote m0 a0)
  with m show ?thesis by (auto simp: handleRequestVote_def Let_def)
next
  case (vote_reply m0 r)
  from vote_reply(4) show ?thesis
  proof (cases rule: handleRequestVoteReply_cases)
    case (won n2 vs)
    then show ?thesis using becomeLeader_mem [OF won(6) m(1)] sendAppendEntries_links m(2) by blast
  qed (use m in auto)
next
  case (append m0 a0)
  with m show ?thesis by (auto simp: handleAppendEntries_def Let_def append_reply_def split: if_splits)
next
  case (append_reply m0 r)
  from append_reply(4) m show ?thesis by (cases rule: handleAppendEntriesReply_cases) auto
next
  case heartbeat
  then show ?thesis using sendHeartbeatsLocked_mem [OF _ m(1)] sendAppendEntries_links m(2) by blast
next
  case (command cmd ok)
  from command(2) show ?thesis
  proof (cases rule: SubmitCommand_cases)
    case taken
    then show ?thesis using send_to_all_mem [OF _ m(1)] sendAppendEntries_links m(2) by blast
  qed (use m in auto)
qed (use m in \<open>auto simp: startElection_def Let_def\<close>)

text \<open>Within a term a node becomes leader only from candidate, and candidate never.\<close>

lemma node_step_same_term:
  assumes "node_step e n = Some (n', ms)" and "currentTerm n' = currentTerm n" and "role n \<noteq> Candidate"
  shows "role n' = role n \<or> role n' = Follower"
  using assms(1)
proof (cases rule: node_step_cases)
  case (vote m a)
  then have "n' = fst (handleRequestVote (msg_from m) a n)" by (metis fst_conv)
  then show ?thesis by (simp add: handleRequestVote_sel)
next
  case (vote_reply m r)
  from vote_reply(4) show ?thesis
    by (cases rule: handleRequestVoteReply_cases) (use assms(3) in auto)
next
  case (append m a)
  then have "n' = fst (handleAppendEntries (msg_from m) a n)" by (metis fst_conv)
  then show ?thesis by (simp add: handleAppendEntries_sel)
next
  case (append_reply m r)
  from append_reply(4) show ?thesis by (cases rule: handleAppendEntriesReply_cases) auto
next
  case election
  then have "n' = fst (startElection (n\<lparr>timerArmed := False\<rparr>))" by (metis fst_conv)
  with assms(2) show ?thesis by (simp add: startElection_sel)
next
  case (command cmd ok)
  from command(2) show ?thesis by (cases rule: SubmitCommand_cases) auto
qed (auto simp: Kill_def Restart_def)

section \<open>Who was elected\<close>

text \<open>A node that campaigned in a term asked for votes in it, and granted its vote to nobody else.\<close>

definition asked :: "net \<Rightarrow> nat \<Rightarrow> nat \<Rightarrow> bool" where
  "asked s v t \<longleftrightarrow> (\<exists>m \<in> sent s. msg_from m = v \<and> (\<exists>a. msg_body m = RequestVote a \<and> rv_term a = t))"

definition ask_inv :: "nat \<Rightarrow> net \<Rightarrow> bool" where
  "ask_inv N s \<longleftrightarrow>
     (\<forall>v t. asked s v t \<longrightarrow> 0 < t \<and> t \<le> currentTerm (net_nodes s ! v) \<and>
        (t = currentTerm (net_nodes s ! v) \<longrightarrow> votedFor (net_nodes s ! v) = Some v) \<and>
        (\<forall>c. granted s v c t \<longrightarrow> c = v)) \<and>
     (\<forall>i < N. role (net_nodes s ! i) \<noteq> Follower \<longrightarrow> 1 < N \<longrightarrow> asked s i (currentTerm (net_nodes s ! i)))"

lemma node_step_asks:
  assumes "node_step e n = Some (n', ms)" and "m \<in> set ms" and "msg_body m = RequestVote a"
  shows "e = Timer \<and> alive n \<and> rv_term a = currentTerm n' \<and> currentTerm n' = currentTerm n + 1 \<and> votedFor n' = Some (node_id n)"
  using assms(1)
proof (cases rule: node_step_cases)
  case (vote m0 a0)
  with assms(2,3) show ?thesis by (auto simp: handleRequestVote_def Let_def)
next
  case (vote_reply m0 r0)
  from vote_reply(4) show ?thesis
  proof (cases rule: handleRequestVoteReply_cases)
    case (won n2 vs)
    show ?thesis using becomeLeader_mem [OF won(6) assms(2)] assms(3) by (auto elim!: sendAppendEntries_msg)
  qed (use assms(2) in auto)
next
  case (append m0 a0)
  with assms(2,3) show ?thesis
    by (auto simp: handleAppendEntries_def Let_def append_reply_def split: if_splits)
next
  case (append_reply m0 r0)
  from append_reply(4) assms(2) show ?thesis by (cases rule: handleAppendEntriesReply_cases) auto
next
  case heartbeat
  with assms(2,3) show ?thesis by (auto dest!: sendHeartbeatsLocked_mem elim!: sendAppendEntries_msg)
next
  case (command cmd ok)
  from command(2) show ?thesis
  proof (cases rule: SubmitCommand_cases)
    case taken
    show ?thesis using send_to_all_mem [OF taken(4) assms(2)] assms(3) by (auto elim!: sendAppendEntries_msg)
  qed (use assms(2) in auto)
qed (use assms(2,3) in \<open>auto simp: startElection_def Let_def\<close>)

lemma startElection_asks:
  assumes "(n', ms) = startElection n" and "p \<in> set (peers n)"
  shows "\<exists>m \<in> set ms. msg_from m = node_id n \<and> (\<exists>a. msg_body m = RequestVote a \<and> rv_term a = currentTerm n')"
  using assms by (auto simp: startElection_def Let_def)

lemma node_step_campaigns:
  assumes "node_step e n = Some (n', ms)" and "role n' \<noteq> Follower"
  shows "(role n \<noteq> Follower \<and> currentTerm n' = currentTerm n) \<or> (n', ms) = startElection (n\<lparr>timerArmed := False\<rparr>)"
  using assms(1)
proof (cases rule: node_step_cases)
  case (vote m a)
  then have "n' = fst (handleRequestVote (msg_from m) a n)" by (metis fst_conv)
  with assms(2) show ?thesis by (auto simp: handleRequestVote_sel split: if_splits)
next
  case (vote_reply m r)
  from vote_reply(4) show ?thesis
  proof (cases rule: handleRequestVoteReply_cases)
    case (won n2 vs)
    then show ?thesis using becomeLeader_sel(3) [OF won(6)] by (auto split: if_splits)
  qed (use assms(2) in \<open>auto split: if_splits\<close>)
next
  case (append m a)
  then have "n' = fst (handleAppendEntries (msg_from m) a n)" by (metis fst_conv)
  with assms(2) show ?thesis by (auto simp: handleAppendEntries_sel split: if_splits)
next
  case (append_reply m r)
  from append_reply(4) show ?thesis
    by (cases rule: handleAppendEntriesReply_cases) (use assms(2) in \<open>auto split: if_splits\<close>)
next
  case (command cmd ok)
  from command(2) show ?thesis by (cases rule: SubmitCommand_cases) (use assms(2) in auto)
qed (use assms(2) in \<open>auto simp: Kill_def Restart_def\<close>)

lemma ask_inv_step:
  assumes ok: "net_ok N s" and votes: "vote_inv s" and inv: "ask_inv N s" and step: "net_step adm s t"
  shows "ask_inv N t"
  using step
proof (cases rule: net_step_cases)
  case (acts i e n' ms)
  let ?n = "net_nodes s ! i"
  have i: "node_ok N i ?n" "i < N" and id: "node_id ?n = i" using ok acts by (auto simp: net_ok_def node_ok_def)
  have nth: "net_nodes t ! v = (if v = i then n' else net_nodes s ! v)" for v
    using acts(1) by (simp add: acts(5) nth_list_update)
  have votes': "vote_inv t" using vote_inv_step [OF ok votes step] .
  have mono: "currentTerm ?n \<le> currentTerm n'" by (rule node_step_term [OF acts(4)])
  have old_granted: "v = i \<and> u = currentTerm n' \<and> votedFor n' = Some c" if g0: "granted t v c u" "\<not> granted s v c u" for v c u
  proof -
    obtain m where m: "m \<in> set ms" "msg_from m = v" "msg_body m = VoteReply \<lparr>rvr_term = u, rvr_granted = True\<rparr>"
      using g0 by (auto simp: granted_def acts(5))
    have v: "v = i" using node_step_sends [OF acts(4) m(1)] m(2) id by simp
    have u: "u = currentTerm n'" using node_step_grants [OF acts(4) m(1) m(3)] by auto
    have "u = currentTerm (net_nodes t ! v) \<longrightarrow> votedFor (net_nodes t ! v) = Some c"
      using votes' g0(1) by (simp add: vote_inv_def)
    with v u nth show ?thesis by simp
  qed
  have A: "0 < u \<and> u \<le> currentTerm (net_nodes t ! v) \<and>
        (u = currentTerm (net_nodes t ! v) \<longrightarrow> votedFor (net_nodes t ! v) = Some v) \<and>
        (\<forall>c. granted t v c u \<longrightarrow> c = v)" if ask: "asked t v u" for v u
  proof (cases "asked s v u")
    case True
    have o: "0 < u" "u \<le> currentTerm (net_nodes s ! v)" "u = currentTerm (net_nodes s ! v) \<longrightarrow> votedFor (net_nodes s ! v) = Some v"
      "\<And>c. granted s v c u \<Longrightarrow> c = v" using inv True by (auto simp: ask_inv_def)
    have 1: "u \<le> currentTerm (net_nodes t ! v)" using o(2) mono by (auto simp: nth)
    have 2: "votedFor (net_nodes t ! v) = Some v" if "u = currentTerm (net_nodes t ! v)"
    proof (cases "v = i")
      case True
      have "currentTerm n' = currentTerm ?n" "u = currentTerm ?n" using that o(2) mono by (auto simp: nth True)
      with o(3) show ?thesis using node_step_vote [OF acts(4)] by (simp add: nth True)
    next
      case False
      with that o(3) show ?thesis by (simp add: nth)
    qed
    have 3: "c = v" if g: "granted t v c u" for c
    proof (cases "granted s v c u")
      case False
      from old_granted [OF g False] 2 show ?thesis by (simp add: nth)
    qed (rule o(4))
    from o(1) 1 2 3 show ?thesis by blast
  next
    case False
    then obtain m a where m: "m \<in> set ms" "msg_from m = v" "msg_body m = RequestVote a" "rv_term a = u"
      using ask by (auto simp: asked_def acts(5))
    have v: "v = i" using node_step_sends [OF acts(4) m(1)] m(2) id by simp
    have new: "u = currentTerm n'" "currentTerm n' = currentTerm ?n + 1" "votedFor n' = Some i"
      using node_step_asks [OF acts(4) m(1,3)] m(4) id by auto
    have "c = v" if g: "granted t v c u" for c
    proof (cases "granted s v c u")
      case True
      then have "u \<le> currentTerm ?n" using votes v by (auto simp: vote_inv_def)
      with new show ?thesis by simp
    next
      case False
      from old_granted [OF g False] new(3) v show ?thesis by simp
    qed
    with v new show ?thesis by (simp add: nth)
  qed
  have up: "asked s v u \<Longrightarrow> asked t v u" for v u by (auto simp: asked_def acts(5))
  have B: "asked t j (currentTerm (net_nodes t ! j))" if j: "j < N" "role (net_nodes t ! j) \<noteq> Follower" "1 < N" for j
  proof (cases "j = i")
    case False
    with j inv up show ?thesis by (auto simp: nth ask_inv_def)
  next
    case True
    with j have r: "role n' \<noteq> Follower" by (simp add: nth)
    from node_step_campaigns [OF acts(4) r] show ?thesis
    proof
      assume "role ?n \<noteq> Follower \<and> currentTerm n' = currentTerm ?n"
      with inv i(2) j(3) have "asked s i (currentTerm n')" by (auto simp: ask_inv_def)
      with up True show ?thesis by (simp add: nth)
    next
      assume el: "(n', ms) = startElection (?n\<lparr>timerArmed := False\<rparr>)"
      have "(if i = 0 then 1 else 0) \<in> set (peers ?n)" using i j(3) by (auto simp: node_ok_def)
      then obtain p where "p \<in> set (peers ?n)" by blast
      then obtain m a where "m \<in> set ms" "msg_from m = i" "msg_body m = RequestVote a" "rv_term a = currentTerm n'"
        using startElection_asks [OF el, of p] id by auto
      then have "asked t i (currentTerm n')" by (auto simp: asked_def acts(5))
      with True show ?thesis by (simp add: nth)
    qed
  qed
  from A B show ?thesis by (simp add: ask_inv_def)
qed

lemma ask_inv_init: "ask_inv N (net_init N)"
  by (simp add: ask_inv_def asked_def net_init_def New_def NewNode_def)

interpretation asks: relative_invariant "\<lambda>s. s = net_init N" "net_step adm" "\<lambda>s. net_ok N s \<and> vote_inv s" "ask_inv N"
  for N adm
proof -
  show "relative_invariant (\<lambda>s. s = net_init N) (net_step adm) (\<lambda>s. net_ok N s \<and> vote_inv s) (ask_inv N)"
    by (rule relative_invariant.intro [OF votes.both.invariant_system_axioms])
      (unfold_locales, auto intro: ask_inv_init ask_inv_step)
qed

text \<open>
  The quorum that elected \<open>k\<close> in term \<open>t\<close>, as it can be read from the messages ever sent: the
  evidence stays when the node has long moved on.
\<close>

definition elected :: "nat \<Rightarrow> net \<Rightarrow> nat \<Rightarrow> nat \<Rightarrow> bool" where
  "elected N s t k \<longleftrightarrow> k < N \<and> (1 < N \<longrightarrow> asked s k t) \<and>
     (\<exists>Q. Q \<subseteq> {..<N} \<and> is_majority N Q \<and> (\<forall>v \<in> Q. v = k \<or> granted s v k t))"

lemma elected_mono: "elected N s t k \<Longrightarrow> sent s \<subseteq> sent s' \<Longrightarrow> elected N s' t k"
  unfolding elected_def asked_def granted_def by (meson subsetD)

lemma elected_unique:
  assumes "vote_inv s" and "ask_inv N s" and "elected N s t k" "elected N s t k'"
  shows "k = k'"
proof -
  obtain Q where Q: "Q \<subseteq> {..<N}" "is_majority N Q" "\<And>v. v \<in> Q \<Longrightarrow> v = k \<or> granted s v k t"
    using assms(3) by (auto simp: elected_def)
  obtain R where R: "R \<subseteq> {..<N}" "is_majority N R" "\<And>v. v \<in> R \<Longrightarrow> v = k' \<or> granted s v k' t"
    using assms(4) by (auto simp: elected_def)
  obtain v where v: "v \<in> Q" "v \<in> R" using majorities.quorum_meet [OF Q(1) R(1) Q(2) R(2)] by blast
  have one: "k = k'" if "\<not> 1 < N" using assms(3,4) that by (auto simp: elected_def)
  have ask: "1 < N \<Longrightarrow> granted s k c t \<Longrightarrow> c = k" "1 < N \<Longrightarrow> granted s k' c t \<Longrightarrow> c = k'" for c
    using assms(2-4) by (auto simp: elected_def ask_inv_def)
  have "c = c'" if "granted s v c t" "granted s v c' t" for c c'
    using assms(1) that by (auto simp: vote_inv_def)
  with Q(3) [OF v(1)] R(3) [OF v(2)] one ask show ?thesis by blast
qed

lemma leader_elected:
  assumes "campaign_inv N s" and "ask_inv N s" and "i < N" and "role (net_nodes s ! i) = Leader"
  shows "elected N s (currentTerm (net_nodes s ! i)) i"
proof -
  obtain vs where vs: "distinct vs" "set vs \<subseteq> {..<N}" "N div 2 + 1 \<le> length vs"
      "\<forall>v \<in> set vs. v = i \<or> granted s v i (currentTerm (net_nodes s ! i))"
    using assms(1,3,4) by (auto simp: campaign_inv_def campaign_ok_def)
  then have "is_majority N (set vs)" by (simp add: is_majority_def distinct_card)
  with vs assms show ?thesis by (auto simp: elected_def ask_inv_def intro!: exI [of _ "set vs"])
qed

section \<open>The invariant\<close>

definition net_links :: "net \<Rightarrow> link set" where
  "net_links s = (\<Union>n \<in> set (net_nodes s). log_links (rlog n)) \<union>
     (\<Union>a \<in> {a. \<exists>m \<in> sent s. msg_body m = AppendEntries a}. request_links a)"

text \<open>Every link belongs to the node elected in its term, which has it while it leads.\<close>

definition link_owned :: "nat \<Rightarrow> net \<Rightarrow> link \<Rightarrow> bool" where
  "link_owned N s x \<longleftrightarrow> (\<exists>k. elected N s (link_term x) k \<and> link_term x \<le> currentTerm (net_nodes s ! k) \<and>
     (currentTerm (net_nodes s ! k) = link_term x \<longrightarrow>
        role (net_nodes s ! k) \<noteq> Candidate \<and>
        (role (net_nodes s ! k) = Leader \<longrightarrow> x \<in> log_links (rlog (net_nodes s ! k)))))"

definition match_inv :: "nat \<Rightarrow> net \<Rightarrow> bool" where
  "match_inv N s \<longleftrightarrow> (\<forall>x \<in> net_links s. link_owned N s x) \<and>
     (\<forall>x \<in> net_links s. \<forall>y \<in> net_links s. fst x = fst y \<longrightarrow> link_term x = link_term y \<longrightarrow> x = y)"

lemma net_links_node: "i < length (net_nodes s) \<Longrightarrow> x \<in> log_links (rlog (net_nodes s ! i)) \<Longrightarrow> x \<in> net_links s"
  by (force simp: net_links_def)

text \<open>What a step adds to the links: at most one, of the term its maker leads.\<close>

lemma net_links_step:
  assumes "net_step adm s t"
  obtains (old) "net_links t \<subseteq> net_links s"
  | (new) i x where "i < length (net_nodes s)" "role (net_nodes s ! i) = Leader" "role (net_nodes t ! i) = Leader"
      "currentTerm (net_nodes t ! i) = currentTerm (net_nodes s ! i)"
      "link_term x = currentTerm (net_nodes s ! i)" "fst x = length (rlog (net_nodes s ! i))"
      "x \<in> log_links (rlog (net_nodes t ! i))" "net_links t \<subseteq> insert x (net_links s)"
  using assms
proof (cases rule: net_step_cases)
  case (acts i e n' ms)
  let ?l = "log_links (rlog (net_nodes s ! i))"
  have here: "?l \<subseteq> net_links s" using acts(1) net_links_node by blast
  have t: "net_links t \<subseteq> net_links s \<union> log_links (rlog n')"
  proof
    fix x assume "x \<in> net_links t"
    then consider (node) n where "n \<in> set (net_nodes t)" "x \<in> log_links (rlog n)"
      | (request) m a where "m \<in> sent t" "msg_body m = AppendEntries a" "x \<in> request_links a"
      by (auto simp: net_links_def)
    then show "x \<in> net_links s \<union> log_links (rlog n')"
    proof cases
      case node
      then have "n = n' \<or> n \<in> set (net_nodes s)" using set_update_subset_insert acts(5) by fastforce
      with node(2) show ?thesis by (auto simp: net_links_def)
    next
      case request
      then have "m \<in> sent s \<or> m \<in> set ms" by (simp add: acts(5))
      then show ?thesis
        using request node_step_request_links [OF acts(4) _ request(2)] by (auto simp: net_links_def)
    qed
  qed
  have ti: "net_nodes t ! i = n'" using acts(1) by (simp add: acts(5))
  from acts(4) show ?thesis
  proof (cases rule: node_step_links)
    case kept
    with t here show ?thesis by (intro old) blast
  next
    case (appended m a)
    have "m \<in> sent s" using acts(2) [OF appended(1)] by blast
    then have "request_links a \<subseteq> net_links s" using appended(2) by (auto simp: net_links_def)
    with t here appended(3) show ?thesis by (intro old) blast
  next
    case (created cmd)
    with t here acts(1) ti show ?thesis
      by (intro new [of i "(length (rlog (net_nodes s ! i)), currentTerm (net_nodes s ! i), cmd,
          term_before (length (rlog (net_nodes s ! i))) (rlog (net_nodes s ! i)))"])
        (auto simp: link_term_def)
  qed
qed

lemma link_owned_step:
  assumes ok: "net_ok N s" and own: "link_owned N s x" and step: "net_step adm s t"
  shows "link_owned N t x"
proof -
  obtain k where k: "elected N s (link_term x) k" "link_term x \<le> currentTerm (net_nodes s ! k)"
      "currentTerm (net_nodes s ! k) = link_term x \<Longrightarrow> role (net_nodes s ! k) \<noteq> Candidate \<and>
        (role (net_nodes s ! k) = Leader \<longrightarrow> x \<in> log_links (rlog (net_nodes s ! k)))"
    using own by (auto simp: link_owned_def)
  from step show ?thesis
  proof (cases rule: net_step_cases)
    case (acts i e n' ms)
    have el: "elected N t (link_term x) k" using elected_mono [OF k(1)] by (simp add: acts(5))
    have nth: "net_nodes t ! k = (if k = i then n' else net_nodes s ! k)"
      using acts(1) by (simp add: acts(5) nth_list_update)
    have mono: "currentTerm (net_nodes s ! i) \<le> currentTerm n'" by (rule node_step_term [OF acts(4)])
    have still: "role n' \<noteq> Candidate \<and> (role n' = Leader \<longrightarrow> x \<in> log_links (rlog n'))"
      if "k = i" "currentTerm n' = link_term x"
    proof -
      have same: "currentTerm n' = currentTerm (net_nodes s ! i)" using that mono k(2) by simp
      then have r: "role (net_nodes s ! i) \<noteq> Candidate"
        "role (net_nodes s ! i) = Leader \<Longrightarrow> x \<in> log_links (rlog (net_nodes s ! i))"
        using k(3) that by auto
      have "role n' = Leader \<Longrightarrow> log_links (rlog (net_nodes s ! i)) \<subseteq> log_links (rlog n')"
        using leader_append_only [OF acts(4)] by (intro links_prefix)
      with r node_step_same_term [OF acts(4) same r(1)] show ?thesis by auto
    qed
    have "link_term x \<le> currentTerm (net_nodes t ! k)" using k(2) mono by (auto simp: nth)
    moreover have "role (net_nodes t ! k) \<noteq> Candidate \<and>
        (role (net_nodes t ! k) = Leader \<longrightarrow> x \<in> log_links (rlog (net_nodes t ! k)))"
      if "currentTerm (net_nodes t ! k) = link_term x"
      using that still k(3) unfolding nth by (auto split: if_splits)
    ultimately show ?thesis unfolding link_owned_def using el by blast
  qed
qed

lemma match_inv_step:
  assumes ok: "net_ok N s" and votes: "vote_inv s" and camp: "campaign_inv N s" and ask: "ask_inv N s"
    and inv: "match_inv N s" and step: "net_step fresh_votes s t"
  shows "match_inv N t"
  using step
proof (cases rule: net_links_step)
  case old
  with inv link_owned_step [OF ok _ step] show ?thesis unfolding match_inv_def by blast
next
  case (new i x)
  have i: "i < N" using new(1) ok by (simp add: net_ok_def)
  have el: "elected N s (link_term x) i"
    using leader_elected [OF camp ask i new(2)] new(5) by simp
  have fresh: "y = x" if y: "y \<in> net_links s" "fst y = fst x" "link_term y = link_term x" for y
  proof -
    obtain k where k: "elected N s (link_term y) k" "currentTerm (net_nodes s ! k) = link_term y \<longrightarrow>
        role (net_nodes s ! k) = Leader \<longrightarrow> y \<in> log_links (rlog (net_nodes s ! k))"
    proof -
      have "link_owned N s y" using inv y(1) by (simp add: match_inv_def)
      then show ?thesis unfolding link_owned_def by (elim exE conjE) (rule that, assumption, blast)
    qed
    have "k = i" using elected_unique [OF votes ask] k(1) el y(3) by simp
    with k(2) new(2,5) y(3) have "y \<in> log_links (rlog (net_nodes s ! i))" by simp
    from link_position [OF this] y(2) new(6) show ?thesis by simp
  qed
  have sub: "sent s \<subseteq> sent t" using step by (cases rule: net_step_cases) simp
  have "link_owned N t x"
    unfolding link_owned_def using elected_mono [OF el sub] new by (intro exI [of _ i]) simp
  then have A: "\<forall>y \<in> net_links t. link_owned N t y"
    using new(8) inv link_owned_step [OF ok _ step] unfolding match_inv_def by blast
  have B: "y = z" if "y \<in> net_links t" "z \<in> net_links t" "fst y = fst z" "link_term y = link_term z" for y z
  proof -
    have "y = x \<or> y \<in> net_links s" "z = x \<or> z \<in> net_links s" using that new(8) by blast+
    then show ?thesis using that(3,4) fresh [of y] fresh [of z] inv unfolding match_inv_def by metis
  qed
  from A B show ?thesis unfolding match_inv_def by blast
qed

lemma match_inv_init: "match_inv N (net_init N)"
  by (auto simp: match_inv_def net_links_def net_init_def New_def NewNode_def log_links_def)

interpretation matching: relative_invariant "\<lambda>s. s = net_init N" "net_step fresh_votes"
  "\<lambda>s. (net_ok N s \<and> vote_inv s) \<and> ask_inv N s \<and> campaign_inv N s" "match_inv N" for N
proof -
  have base: "invariant_system (\<lambda>s. s = net_init N) (net_step fresh_votes)
      (\<lambda>s. (net_ok N s \<and> vote_inv s) \<and> ask_inv N s \<and> campaign_inv N s)" for N
    by unfold_locales (simp_all add: ask_inv_init campaign_inv_init net_ok_init votes.rel_init,
        blast intro: net_ok_step vote_inv_step ask_inv_step campaign_inv_step)
  show "relative_invariant (\<lambda>s. s = net_init N) (net_step fresh_votes)
      (\<lambda>s. (net_ok N s \<and> vote_inv s) \<and> ask_inv N s \<and> campaign_inv N s) (match_inv N)" for N
    by (rule relative_invariant.intro [OF base]) (unfold_locales, auto intro: match_inv_init match_inv_step)
qed

section \<open>Log matching\<close>

lemma links_match:
  assumes single: "\<And>x y. x \<in> L \<Longrightarrow> y \<in> L \<Longrightarrow> fst x = fst y \<Longrightarrow> link_term x = link_term y \<Longrightarrow> x = y"
    and sub: "log_links l \<subseteq> L" "log_links l' \<subseteq> L" and idx: "indexed 0 l" "indexed 0 l'"
    and k: "k < length l" "k < length l'" "le_term (l ! k) = le_term (l' ! k)"
  shows "take (Suc k) l = take (Suc k) l'"
  using k
proof (induction k)
  case (Suc k)
  let ?x = "(Suc k, le_term (l ! Suc k), le_command (l ! Suc k), term_before (Suc k) l)"
  let ?y = "(Suc k, le_term (l' ! Suc k), le_command (l' ! Suc k), term_before (Suc k) l')"
  have "?x \<in> L" "?y \<in> L" using sub Suc.prems log_linksI by blast+
  then have "?x = ?y" by (rule single) (simp_all add: link_term_def Suc.prems)
  moreover have "le_index (l ! Suc k) = le_index (l' ! Suc k)" using idx Suc.prems by (simp add: indexed_nth)
  ultimately have eq: "l ! Suc k = l' ! Suc k" "le_term (l ! k) = le_term (l' ! k)"
    by (simp_all add: term_before_def)
  have "take (Suc k) l = take (Suc k) l'" using Suc eq(2) by simp
  with eq(1) Suc.prems show ?case by (simp add: take_Suc_conv_app_nth)
next
  case 0
  let ?x = "(0 :: nat, le_term (l ! 0), le_command (l ! 0), term_before 0 l)"
  let ?y = "(0 :: nat, le_term (l' ! 0), le_command (l' ! 0), term_before 0 l')"
  have "?x \<in> L" "?y \<in> L" using sub 0 log_linksI by blast+
  then have "?x = ?y" by (rule single) (simp_all add: link_term_def 0)
  moreover have "le_index (l ! 0) = le_index (l' ! 0)" using idx 0 by (simp add: indexed_nth)
  ultimately have "l ! 0 = l' ! 0" by simp
  with 0 show ?case by (cases l; cases l') auto
qed

lemma match_inv_logs:
  assumes "match_inv N s" and "logs_inv s" and "i < length (net_nodes s)" "j < length (net_nodes s)"
    and "k < length (rlog (net_nodes s ! i))" "k < length (rlog (net_nodes s ! j))"
    and "le_term (rlog (net_nodes s ! i) ! k) = le_term (rlog (net_nodes s ! j) ! k)"
  shows "take (Suc k) (rlog (net_nodes s ! i)) = take (Suc k) (rlog (net_nodes s ! j))"
proof (rule links_match [OF _ _ _ _ _ assms(5-7)])
  show "x = y" if "x \<in> net_links s" "y \<in> net_links s" "fst x = fst y" "link_term x = link_term y" for x y
    using assms(1) that unfolding match_inv_def by blast
  show "log_links (rlog (net_nodes s ! i)) \<subseteq> net_links s" "log_links (rlog (net_nodes s ! j)) \<subseteq> net_links s"
    using assms(3,4) net_links_node by blast+
  show "indexed 0 (rlog (net_nodes s ! i))" "indexed 0 (rlog (net_nodes s ! j))"
    using assms(2-4) by (simp_all add: logs_inv_def log_ok_def)
qed

text \<open>No entry has the term 0: a cluster with more than one node asks for votes in positive terms.\<close>

lemma link_term_pos:
  assumes "ask_inv N s" and "match_inv N s" and "1 < N" and "x \<in> net_links s"
  shows "0 < link_term x"
  using assms unfolding match_inv_def link_owned_def elected_def ask_inv_def by blast

end
