(* ===== verification/Raft_Repair.thy ===== *)
theory Raft_Repair
  imports Raft_Matching
begin

text \<open>
  Log repair. A heartbeat round is a request of the leader, its handling by the follower and the
  handling of the reply: a rejected request moves \<open>nextIndex\<close> back by one. So after at most
  \<open>nextIndex\<close> rounds a request is accepted, and then, where logs match, the follower holds the
  leader's whole log.
\<close>

definition exchange :: "node \<Rightarrow> node \<Rightarrow> (node \<times> node) option" where
  "exchange l f =
     (case sendAppendEntries (node_id f) l of
        None \<Rightarrow> None
      | Some m \<Rightarrow>
          (case run_inbox m f of
             Some (f', [r]) \<Rightarrow> map_option (\<lambda>(l', ms). (l', f')) (run_inbox r l)
           | _ \<Rightarrow> None))"

fun exchanges :: "nat \<Rightarrow> node \<Rightarrow> node \<Rightarrow> (node \<times> node) option" where
  "exchanges 0 l f = Some (l, f)"
| "exchanges (Suc k) l f = (case exchange l f of None \<Rightarrow> None | Some (l', f') \<Rightarrow> exchanges k l' f')"

text \<open>The request of a round.\<close>

definition request_to :: "node \<Rightarrow> node \<Rightarrow> AppendEntriesArgs" where
  "request_to f l =
     (let p = go_get (nextIndex l) (node_id f) - 1
      in \<lparr>ae_term = currentTerm l, ae_leader = node_id l, ae_prevLogIndex = p,
          ae_prevLogTerm = (if 0 < p \<and> p \<le> length (rlog l) then le_term (rlog l ! (p - 1)) else 0),
          ae_entries = drop p (rlog l), ae_leaderCommit = commitIndex l\<rparr>)"

definition repairing :: "node \<Rightarrow> node \<Rightarrow> bool" where
  "repairing l f \<longleftrightarrow> role l = Leader \<and> alive l \<and> alive f \<and> currentTerm f \<le> currentTerm l \<and>
     nextIndex l \<noteq> None \<and> matchIndex l \<noteq> None \<and> 0 < go_get (nextIndex l) (node_id f)"

lemma handleAppendEntries_replies:
  assumes "currentTerm f \<le> ae_term a"
  shows "snd (handleAppendEntries from a f) =
    [append_reply (fst (handleAppendEntries from a f)) from (ae_term a) (prev_matches a (rlog f))
       (if prev_matches a (rlog f) then lastLogIndex (fst (handleAppendEntries from a f)) else 0)]"
  using assms by (simp add: handleAppendEntries_def Let_def max_def lastLogIndex_def append_reply_def)

lemma send_request_to:
  assumes "repairing l f"
  shows "sendAppendEntries (node_id f) l =
    Some \<lparr>msg_from = node_id l, msg_to = node_id f, msg_body = AppendEntries (request_to f l)\<rparr>"
proof -
  obtain k where k: "go_get (nextIndex l) (node_id f) = Suc k"
    using assms by (cases "go_get (nextIndex l) (node_id f)") (auto simp: repairing_def)
  then show ?thesis by (simp add: sendAppendEntries_def request_to_def Let_def Suc_le_eq)
qed

lemma exchange_rejected:
  assumes rep: "repairing l f" and no: "\<not> prev_matches (request_to f l) (rlog f)"
  obtains l' f' where "exchange l f = Some (l', f')" "repairing l' f'" "rlog l' = rlog l" "rlog f' = rlog f"
    "node_id f' = node_id f" "Suc (go_get (nextIndex l') (node_id f)) = go_get (nextIndex l) (node_id f)"
    "currentTerm l' = currentTerm l"
    "l' = l\<lparr>nextIndex := nextIndex l'\<rparr>" "\<And>q. q \<noteq> node_id f \<Longrightarrow> go_get (nextIndex l') q = go_get (nextIndex l) q"
    "role f' = Follower"
proof -
  let ?a = "request_to f l" and ?p = "node_id f"
  let ?m = "\<lparr>msg_from = node_id l, msg_to = ?p, msg_body = AppendEntries ?a\<rparr>"
  have t: "ae_term ?a = currentTerm l" by (simp add: request_to_def Let_def)
  define f' where "f' = fst (handleAppendEntries (node_id l) ?a f)"
  have "handleAppendEntries (node_id l) ?a f = (f', [append_reply f' (node_id l) (currentTerm l) False 0])"
    using rep no t handleAppendEntries_replies [of f ?a "node_id l"]
    by (simp add: prod_eq_iff f'_def repairing_def)
  then have f': "run_inbox ?m f = Some (f', [append_reply f' (node_id l) (currentTerm l) False 0])"
    "rlog f' = rlog f" "node_id f' = ?p" "alive f'" "currentTerm f' = currentTerm l"
    using rep no t
    by (simp_all add: run_inbox_def handleMessage_def repairing_def f'_def handleAppendEntries_log
        handleAppendEntries_sel)
  have "0 < ae_prevLogIndex ?a" using no by (cases "0 < ae_prevLogIndex ?a") (simp_all add: prev_matches_def)
  then have two: "1 < go_get (nextIndex l) ?p" by (simp add: request_to_def Let_def)
  obtain g where g: "nextIndex l = Some g" using rep by (auto simp: repairing_def)
  define l' where "l' = l\<lparr>nextIndex := Some (g(?p \<mapsto> go_get (nextIndex l) ?p - 1))\<rparr>"
  have "run_inbox (append_reply f' (node_id l) (currentTerm l) False 0) l = Some (l', [])"
    using rep two f'(3)
    by (simp add: run_inbox_def handleMessage_def append_reply_def handleAppendEntriesReply_def Let_def
        repairing_def maybeStepDown_def go_put_def g l'_def)
  then have "exchange l f = Some (l', f')" by (simp add: exchange_def send_request_to [OF rep] f'(1))
  moreover have "go_get (nextIndex l') ?p = go_get (nextIndex l) ?p - 1" by (simp add: l'_def go_get_def)
  moreover have "go_get (nextIndex l') q = go_get (nextIndex l) q" if "q \<noteq> ?p" for q
    using that by (simp add: l'_def go_get_def g)
  moreover have "role f' = Follower" using rep t by (simp add: f'_def handleAppendEntries_sel repairing_def)
  ultimately show ?thesis
    using rep two f' by (intro that [of l' f']) (auto simp: repairing_def l'_def)
qed

lemma exchange_accepted:
  assumes rep: "repairing l f" and yes: "prev_matches (request_to f l) (rlog f)"
  obtains l' f' where "exchange l f = Some (l', f')" "rlog l' = rlog l" "role l' = Leader"
    "rlog f' = append_spec (ae_prevLogIndex (request_to f l)) (ae_entries (request_to f l)) (rlog f)"
    "l' = maybeAdvanceCommitIndex (l\<lparr>matchIndex := matchIndex l', nextIndex := nextIndex l'\<rparr>)"
    "matchIndex l' \<noteq> None" "nextIndex l' \<noteq> None" "go_get (matchIndex l') (node_id f) = max (length (rlog f')) (go_get (matchIndex l) (node_id f))"
    "go_get (nextIndex l') (node_id f) = go_get (matchIndex l') (node_id f) + 1"
    "min (commitIndex l) (length (rlog f')) \<le> commitIndex f'"
    "\<And>q. q \<noteq> node_id f \<Longrightarrow> go_get (nextIndex l') q = go_get (nextIndex l) q \<and> go_get (matchIndex l') q = go_get (matchIndex l) q"
    "node_id f' = node_id f" "alive f'" "currentTerm f' = currentTerm l" "role f' = Follower"
proof -
  let ?a = "request_to f l" and ?p = "node_id f"
  let ?m = "\<lparr>msg_from = node_id l, msg_to = ?p, msg_body = AppendEntries ?a\<rparr>"
  have t: "ae_term ?a = currentTerm l" by (simp add: request_to_def Let_def)
  define f' where "f' = fst (handleAppendEntries (node_id l) ?a f)"
  have "handleAppendEntries (node_id l) ?a f =
      (f', [append_reply f' (node_id l) (currentTerm l) True (lastLogIndex f')])"
    using rep yes t handleAppendEntries_replies [of f ?a "node_id l"]
    by (simp add: prod_eq_iff f'_def repairing_def)
  then have f': "run_inbox ?m f = Some (f', [append_reply f' (node_id l) (currentTerm l) True (lastLogIndex f')])"
    "node_id f' = ?p" "alive f'" "currentTerm f' = currentTerm l" "role f' = Follower" and log: "rlog f' = append_spec (ae_prevLogIndex ?a) (ae_entries ?a) (rlog f)"
    using rep yes t
    by (simp_all add: run_inbox_def handleMessage_def repairing_def f'_def handleAppendEntries_log
        handleAppendEntries_sel)
  obtain g h where gh: "nextIndex l = Some g" "matchIndex l = Some h" using rep by (auto simp: repairing_def)
  define mi where "mi = (if go_get (Some h) ?p < lastLogIndex f' then Some (h(?p \<mapsto> lastLogIndex f')) else Some h)"
  define l' where "l' = maybeAdvanceCommitIndex (l\<lparr>matchIndex := mi, nextIndex := Some (g(?p \<mapsto> go_get mi ?p + 1))\<rparr>)"
  have "run_inbox (append_reply f' (node_id l) (currentTerm l) True (lastLogIndex f')) l = Some (l', [])"
    using rep f'(2)
    by (cases "go_get (Some h) ?p < lastLogIndex f'")
      (simp_all add: run_inbox_def handleMessage_def append_reply_def handleAppendEntriesReply_def Let_def
        repairing_def maybeStepDown_def go_put_def gh mi_def l'_def)
  moreover have l': "rlog l' = rlog l" "role l' = Leader" using rep by (simp_all add: l'_def repairing_def)
  ultimately have "exchange l f = Some (l', f')" by (simp add: exchange_def send_request_to [OF rep] f'(1))
  moreover have "nextIndex l' = Some (g(?p \<mapsto> go_get mi ?p + 1))" "matchIndex l' = mi" by (simp_all add: l'_def)
  moreover have "mi \<noteq> None" "go_get mi ?p = max (lastLogIndex f') (go_get (matchIndex l) ?p)" "\<And>q. q \<noteq> ?p \<Longrightarrow> go_get mi q = go_get (matchIndex l) q"
    by (auto simp: mi_def go_get_def gh(2))
  moreover have "l' = maybeAdvanceCommitIndex (l\<lparr>matchIndex := matchIndex l', nextIndex := nextIndex l'\<rparr>)"
    by (simp add: l'_def)
  moreover have "min (commitIndex l) (length (rlog f')) \<le> commitIndex f'"
    using rep yes t unfolding f'_def
    by (auto simp: handleAppendEntries_def repairing_def Let_def max_def request_to_def)
  ultimately show ?thesis using l' log f'(2-5)
    by (intro that [of l' f']) (simp_all add: lastLogIndex_def go_get_def gh(1))
qed

lemma repair_rounds:
  assumes "repairing l f"
  obtains k l' f' g where "k \<le> go_get (nextIndex l) (node_id f)" "exchanges k l f = Some (l', f')"
    "rlog l' = rlog l" "role l' = Leader" "prev_matches g (rlog f)"
    "ae_entries g = drop (ae_prevLogIndex g) (rlog l)"
    "ae_prevLogTerm g = (if 0 < ae_prevLogIndex g \<and> ae_prevLogIndex g \<le> length (rlog l)
                         then le_term (rlog l ! (ae_prevLogIndex g - 1)) else 0)"
    "rlog f' = append_spec (ae_prevLogIndex g) (ae_entries g) (rlog f)" "ae_term g = currentTerm l"
proof -
  have "\<exists>k l' f' g. k \<le> go_get (nextIndex l) (node_id f) \<and> exchanges k l f = Some (l', f') \<and>
      rlog l' = rlog l \<and> role l' = Leader \<and> prev_matches g (rlog f) \<and>
      ae_entries g = drop (ae_prevLogIndex g) (rlog l) \<and>
      ae_prevLogTerm g = (if 0 < ae_prevLogIndex g \<and> ae_prevLogIndex g \<le> length (rlog l)
                         then le_term (rlog l ! (ae_prevLogIndex g - 1)) else 0) \<and>
      rlog f' = append_spec (ae_prevLogIndex g) (ae_entries g) (rlog f) \<and> ae_term g = currentTerm l"
    using assms
  proof (induction "go_get (nextIndex l) (node_id f)" arbitrary: l f)
    case 0
    then show ?case by (simp add: repairing_def)
  next
    case (Suc n)
    show ?case
    proof (cases "prev_matches (request_to f l) (rlog f)")
      case True
      obtain l' f' where e: "exchange l f = Some (l', f')" "rlog l' = rlog l" "role l' = Leader"
          "rlog f' = append_spec (ae_prevLogIndex (request_to f l)) (ae_entries (request_to f l)) (rlog f)"
        by (rule exchange_accepted [OF Suc.prems True])
      have "exchanges 1 l f = Some (l', f')" by (simp add: e(1))
      with e True Suc.hyps(2) show ?thesis
        by (intro exI [of _ 1] exI [of _ l'] exI [of _ f'] exI [of _ "request_to f l"]) (simp add: request_to_def Let_def)
    next
      case False
      obtain l1 f1 where e: "exchange l f = Some (l1, f1)" "repairing l1 f1" "rlog l1 = rlog l" "rlog f1 = rlog f"
          "node_id f1 = node_id f" "Suc (go_get (nextIndex l1) (node_id f)) = go_get (nextIndex l) (node_id f)"
          "currentTerm l1 = currentTerm l"
        by (rule exchange_rejected [OF Suc.prems False])
      have "n = go_get (nextIndex l1) (node_id f1)" using e(5,6) Suc.hyps(2) by simp
      from Suc.hyps(1) [OF this e(2)] obtain k l' f' g where
        "k \<le> go_get (nextIndex l1) (node_id f1)" and k: "exchanges k l1 f1 = Some (l', f')"
        and rest: "rlog l' = rlog l1" "role l' = Leader" "prev_matches g (rlog f1)"
          "ae_entries g = drop (ae_prevLogIndex g) (rlog l1)"
          "ae_prevLogTerm g = (if 0 < ae_prevLogIndex g \<and> ae_prevLogIndex g \<le> length (rlog l1)
                         then le_term (rlog l1 ! (ae_prevLogIndex g - 1)) else 0)"
          "rlog f' = append_spec (ae_prevLogIndex g) (ae_entries g) (rlog f1)" "ae_term g = currentTerm l1"
        by blast
      then have "Suc k \<le> go_get (nextIndex l) (node_id f)" "exchanges (Suc k) l f = Some (l', f')"
        using e by simp_all
      with rest e show ?thesis by metis
    qed
  qed
  then show ?thesis using that by blast
qed

end
