(* ===== verification/Raft_Log_Properties.thy ===== *)
theory Raft_Log_Properties
  imports Raft_Repair
begin

text \<open>
  The properties of the replicated log that rest on election safety: log matching, one entry per
  position and term, and the repair of a follower's log by the leader's heartbeats.
\<close>

text \<open>What a run with fresh votes gives: the network behind it and its invariants.\<close>

lemma fresh_run_invariants:
  assumes "cluster_run es (New N) = Some c" and "schedule_adm fresh_votes es (New N)"
  obtains s where "net_nodes s = cl_nodes c" "length (cl_nodes c) = N" "net_ok N s" "vote_inv s"
    "campaign_inv N s" "ask_inv N s" "match_inv N s" "logs_inv s"
proof -
  obtain s where s: "net_reach fresh_votes N s" "sim c s"
    using cluster_run_reach [OF assms(1) restricts_fresh assms(2)] by blast
  have inv: "net_ok N s" "vote_inv s" "campaign_inv N s" "ask_inv N s" "match_inv N s" "logs_inv s"
    using matching.both.reach_inv [OF s(1)] logs.reach_inv [OF s(1)] by simp_all
  with s(2) show ?thesis by (intro that) (simp_all add: sim_def net_ok_def)
qed

lemma net_step_sent: "net_step adm s t \<Longrightarrow> sent s \<subseteq> sent t"
  by (cases rule: net_step_cases, assumption) simp

text \<open>A run from a state behind which a network is known: the messages sent only grow.\<close>

lemma cluster_run_continues:
  assumes "cluster_run es c = Some c'" and "sim c s" and "net_reach adm N s"
    and "restricts_deliveries adm" and "schedule_adm adm es c"
  shows "\<exists>s'. net_reach adm N s' \<and> sim c' s' \<and> sent s \<subseteq> sent s'"
  using assms(1,2,3,5)
proof (induction es arbitrary: c s)
  case (Cons e es)
  then obtain c1 where c1: "cluster_step e c = Some c1" "cluster_run es c1 = Some c'"
      "event_adm adm e c" "schedule_adm adm es c1"
    by (auto split: option.splits)
  from cluster_step_sim [OF c1(1) Cons.prems(2) assms(4) c1(3)]
  obtain s1 where s1: "sim c1 s1" "net_reach adm N s1" "sent s \<subseteq> sent s1"
    using Cons.prems(3) net_step_sent by (blast intro: reach_step)
  from Cons.IH [OF c1(2) s1(1,2) c1(4)] s1(3) show ?case by blast
qed auto

text \<open>
  C1: Election safety: in a run in which no candidate receives a granted vote reply of an earlier
  term, each term has at most one leader ever: a node that leads a term at one time and a node
  that leads the same term then or at any later time are the same node.
\<close>

theorem one_leader_per_term:
  assumes "cluster_run es (New N) = Some c" and "schedule_adm fresh_votes es (New N)"
    and "cluster_run es' c = Some c'" and "schedule_adm fresh_votes es' c"
    and "i < N" "j < N" and "role (cl_nodes c ! i) = Leader" and "role (cl_nodes c' ! j) = Leader"
    and "currentTerm (cl_nodes c ! i) = currentTerm (cl_nodes c' ! j)"
  shows "i = j"
proof -
  obtain s where s: "net_reach fresh_votes N s" "sim c s"
    using cluster_run_reach [OF assms(1) restricts_fresh assms(2)] by blast
  obtain s' where s': "net_reach fresh_votes N s'" "sim c' s'" "sent s \<subseteq> sent s'"
    using cluster_run_continues [OF assms(3) s(2,1) restricts_fresh assms(4)] by blast
  have inv: "campaign_inv N s" "ask_inv N s" "campaign_inv N s'" "ask_inv N s'" "vote_inv s'"
    using matching.both.reach_inv [OF s(1)] matching.both.reach_inv [OF s'(1)] by simp_all
  have nodes: "net_nodes s = cl_nodes c" "net_nodes s' = cl_nodes c'" using s(2) s'(2) by (simp_all add: sim_def)
  have "elected N s (currentTerm (cl_nodes c ! i)) i"
    using leader_elected [OF inv(1,2) assms(5)] assms(7) nodes by simp
  then have "elected N s' (currentTerm (cl_nodes c ! i)) i" by (rule elected_mono [OF _ s'(3)])
  moreover have "elected N s' (currentTerm (cl_nodes c ! i)) j"
    using leader_elected [OF inv(3,4) assms(6)] assms(8,9) nodes by simp
  ultimately show ?thesis by (rule elected_unique [OF inv(5,4)])
qed

text \<open>Node 0 is elected; later node 2 campaigns for the next term while node 0 still leads.\<close>

lemma one_leader_per_term_witness:
  "let c = the (cluster_run [Timeout 0, Deliver 1, Deliver 0] (New 3));
       c' = the (cluster_run [Deliver 2, Timeout 2, Submit ''x''] c)
   in role (cl_nodes c ! 0) = Leader \<and> map role (cl_nodes c') = [Leader, Follower, Candidate] \<and>
      (\<forall>j < 3. role (cl_nodes c' ! j) = Leader \<and> currentTerm (cl_nodes c' ! j) = currentTerm (cl_nodes c ! 0) \<longrightarrow> j = 0)"
proof -
  let ?r = "cluster_run [Timeout 0, Deliver 1, Deliver 0] (New 3)"
  let ?q = "cluster_run [Deliver 2, Timeout 2, Submit ''x''] (the ?r)"
  have r: "?r \<noteq> None" "?q \<noteq> None" and adm: "schedule_adm fresh_votes [Timeout 0, Deliver 1, Deliver 0] (New 3)"
      "schedule_adm fresh_votes [Deliver 2, Timeout 2, Submit ''x''] (the ?r)"
    and lead: "role (cl_nodes (the ?r) ! 0) = Leader"
    and roles: "map role (cl_nodes (the ?q)) = [Leader, Follower, Candidate]" by code_simp+
  have "0 = j" if "j < 3" "role (cl_nodes (the ?q) ! j) = Leader"
      "currentTerm (cl_nodes (the ?r) ! 0) = currentTerm (cl_nodes (the ?q) ! j)" for j
    using one_leader_per_term [OF option.collapse [OF r(1), symmetric] adm(1) option.collapse [OF r(2), symmetric] adm(2)
        _ that(1) lead that(2,3)] by simp
  with lead roles show ?thesis by (auto simp: Let_def)
qed

text \<open>
  C4: Log matching: after a run in which no stale vote is counted, if the logs of two nodes have
  at one position entries of the same term, then they are equal up to and including that
  position: indexes, terms and commands.
\<close>

theorem log_matching:
  assumes "cluster_run es (New N) = Some c" and "schedule_adm fresh_votes es (New N)"
    and "i < N" "j < N" and "k < length (rlog (cl_nodes c ! i))" "k < length (rlog (cl_nodes c ! j))"
    and "le_term (rlog (cl_nodes c ! i) ! k) = le_term (rlog (cl_nodes c ! j) ! k)"
  shows "take (Suc k) (rlog (cl_nodes c ! i)) = take (Suc k) (rlog (cl_nodes c ! j))"
proof -
  obtain s where s: "net_nodes s = cl_nodes c" "length (cl_nodes c) = N" "match_inv N s" "logs_inv s"
    by (rule fresh_run_invariants [OF assms(1,2)])
  from match_inv_logs [OF s(3,4), of i j k] s(1,2) assms(3-7) show ?thesis by simp
qed

definition matching_schedule :: "cl_event list" where
  "matching_schedule = [Timeout 0, Deliver 1, Deliver 0, Submit ''x'', Submit ''y'', Deliver 1, Deliver 1]"

lemma log_matching_witness:
  "let c = the (cluster_run matching_schedule (New 3))
   in map (length \<circ> rlog) (cl_nodes c) = [2, 1, 0] \<and>
      take 1 (rlog (cl_nodes c ! 0)) = take 1 (rlog (cl_nodes c ! 1))"
proof -
  let ?r = "cluster_run matching_schedule (New 3)"
  have r: "?r \<noteq> None" and adm: "schedule_adm fresh_votes matching_schedule (New 3)"
    and len: "map (length \<circ> rlog) (cl_nodes (the ?r)) = [2, 1, 0]"
    and idx: "0 < length (rlog (cl_nodes (the ?r) ! 0))" "0 < length (rlog (cl_nodes (the ?r) ! 1))"
    and tm: "le_term (rlog (cl_nodes (the ?r) ! 0) ! 0) = le_term (rlog (cl_nodes (the ?r) ! 1) ! 0)"
    by code_simp+
  from log_matching [OF option.collapse [OF r, symmetric] adm _ _ idx tm] len show ?thesis
    by (simp add: Let_def)
qed

section \<open>Repair\<close>

text \<open>An accepted request leaves a prefix-closed copy of the leader's log where logs match.\<close>

lemma accepted_holds_log:
  assumes single: "\<And>x y. x \<in> L \<Longrightarrow> y \<in> L \<Longrightarrow> fst x = fst y \<Longrightarrow> link_term x = link_term y \<Longrightarrow> x = y"
    and sub: "log_links l \<subseteq> L" "log_links k \<subseteq> L" and pos: "\<And>x. x \<in> L \<Longrightarrow> 0 < link_term x"
    and log: "log_ok t l" "log_ok t k"
    and prev: "prev_matches a k" and es: "ae_entries a = drop (ae_prevLogIndex a) l"
    and pt: "ae_prevLogTerm a = (if 0 < ae_prevLogIndex a \<and> ae_prevLogIndex a \<le> length l
                         then le_term (l ! (ae_prevLogIndex a - 1)) else 0)"
    and new: "k' = append_spec (ae_prevLogIndex a) (ae_entries a) k" and ok: "ae_ok a" "ae_term a \<le> t"
  shows "prefix l k'"
proof (cases "l = []")
  case False
  let ?p = "ae_prevLogIndex a" and ?m = "length l - 1"
  have pk: "?p \<le> length k" using prev by (auto simp: prev_matches_def split: if_splits)
  have pl: "?p \<le> length l"
  proof (rule ccontr)
    assume far: "\<not> ?p \<le> length l"
    then have "?p - 1 < length k" "le_term (k ! (?p - 1)) = 0"
      using prev pt pk by (auto simp: prev_matches_def split: if_splits)
    with log_linksI [of "?p - 1" k] sub(2) pos show False by (fastforce simp: link_term_def)
  qed
  have len: "length l \<le> length k'" using append_spec_length [OF pk, of "ae_entries a"] pl by (simp add: new es)
  have "request_links a \<subseteq> log_links l"
    using links_drop [OF pl] pt pl by (auto simp: request_links_def es term_before_def)
  then have sub': "log_links k' \<subseteq> L" using links_append_spec [OF prev] sub by (auto simp: new)
  have idx: "indexed 0 l" "indexed 0 k'"
    using log(1) append_spec_ok [OF log(2) ok(1) prev ok(2)] by (simp_all add: new log_ok_def)
  have tm: "le_term (l ! ?m) = le_term (k' ! ?m)"
  proof (cases "?p = length l")
    case True
    then have "k' = k" by (simp add: new es append_spec_def)
    with True prev pt False show ?thesis by (auto simp: prev_matches_def split: if_splits)
  next
    case less: False
    have "map le_term (take (length l - ?p) (drop ?p k')) ! (?m - ?p) = map le_term (drop ?p l) ! (?m - ?p)"
      using append_spec_terms [OF pk, of "ae_entries a"] by (simp add: new es)
    then show ?thesis using less pl False len by simp
  qed
  have m: "?m < length l" "?m < length k'" using False len by (cases l; simp)+
  have "take (Suc ?m) l = take (Suc ?m) k'" by (rule links_match [OF single sub(1) sub' idx m tm])
  then have "l = take (length l) k'" using False by simp
  then show ?thesis by (metis take_is_prefix)
qed simp


text \<open>
  Node 0 leads term 1, replicates two commands to node 1, deposes itself and leads term 2, with
  nothing ever delivered to node 2: \<open>nextIndex\<close> for node 2 is 3 and its log is empty.
\<close>

definition lagging_schedule :: "cl_event list" where
  "lagging_schedule =
     [Timeout 0, Deliver 1, Deliver 0, Submit ''x'', Submit ''y'', Timeout 0, Deliver 1, Deliver 1, Deliver 1, Deliver 1,
      Deliver 0, Deliver 0, Deliver 0, Deliver 0]"


end
