(* ===== verification/Raft_Events.thy ===== *)
theory Raft_Events
  imports Raft_Matching
begin

text \<open>
  What one event of a node does to its log, its commit index and its match indexes, and what the
  messages it sends say of the node that sends them.
\<close>

section \<open>The log\<close>

definition accepts :: "AppendEntriesArgs \<Rightarrow> node \<Rightarrow> bool" where
  "accepts a n \<longleftrightarrow> currentTerm n \<le> ae_term a \<and> prev_matches a (rlog n)"

lemma handleAppendEntries_commit:
  "commitIndex (fst (handleAppendEntries f a n)) =
     (if accepts a n \<and> commitIndex n < ae_leaderCommit a
      then min (ae_leaderCommit a) (length (rlog (fst (handleAppendEntries f a n)))) else commitIndex n)"
  by (simp add: handleAppendEntries_def accepts_def Let_def max_def)

lemma node_step_rlog:
  assumes "node_step e n = Some (n', ms)"
  obtains (kept) "rlog n' = rlog n"
  | (accepted) m a where "e = Recv m" "msg_body m = AppendEntries a" "accepts a n"
      "rlog n' = append_spec (ae_prevLogIndex a) (ae_entries a) (rlog n)"
      "currentTerm n' = ae_term a" "role n' = Follower"
  | (created) x where "role n = Leader" "role n' = Leader" "currentTerm n' = currentTerm n"
      "rlog n' = rlog n @ [x]" "le_term x = currentTerm n" "commitIndex n' = commitIndex n" "matchIndex n' = matchIndex n"
  using assms
proof (cases rule: node_step_cases)
  case (vote m a)
  then have "n' = fst (handleRequestVote (msg_from m) a n)" by (metis fst_conv)
  then show ?thesis by (intro kept) (simp add: handleRequestVote_sel)
next
  case (vote_reply m r)
  from vote_reply(4) show ?thesis
  proof (cases rule: handleRequestVoteReply_cases)
    case (won n2 vs)
    have "rlog n2 = rlog n" using won(3) by auto
    with becomeLeader_sel(5) [OF won(6)] show ?thesis by (intro kept) simp
  qed (auto intro!: kept split: if_splits)
next
  case (append m a)
  then have n': "n' = fst (handleAppendEntries (msg_from m) a n)" by (metis fst_conv)
  show ?thesis
  proof (cases "accepts a n")
    case True
    with append show ?thesis
      by (intro accepted [of m a]) (simp_all add: n' handleAppendEntries_log handleAppendEntries_sel accepts_def)
  next
    case False
    then show ?thesis by (intro kept) (auto simp: n' handleAppendEntries_log accepts_def)
  qed
next
  case (append_reply m r)
  from append_reply(4) show ?thesis by (cases rule: handleAppendEntriesReply_cases) (auto intro!: kept)
next
  case election
  then have "n' = fst (startElection (n\<lparr>timerArmed := False\<rparr>))" by (metis fst_conv)
  then show ?thesis by (intro kept) (simp add: startElection_sel)
next
  case (command cmd ok)
  from command(2) show ?thesis
  proof (cases rule: SubmitCommand_cases)
    case refused
    then show ?thesis by (intro kept) simp
  next
    case taken
    then show ?thesis
      by (intro created [of "\<lparr>le_index = length (rlog n) + 1, le_term = currentTerm n, le_command = cmd\<rparr>"]) simp_all
  qed
qed (auto intro!: kept simp: Kill_def Restart_def)

text \<open>A node that leads led before, or has just won with the log it campaigned with.\<close>

lemma node_step_leads:
  assumes "node_step e n = Some (n', ms)" and "role n' = Leader"
  shows "role n \<noteq> Follower \<and> currentTerm n' = currentTerm n \<and>
    (rlog n' = rlog n \<or> (role n = Leader \<and> (\<exists>x. rlog n' = rlog n @ [x] \<and> le_term x = currentTerm n)))"
proof -
  have "\<not> (n', ms) = startElection (n\<lparr>timerArmed := False\<rparr>)"
    using assms(2) startElection_sel(12) [of "n\<lparr>timerArmed := False\<rparr>"] by (metis fst_conv role.distinct(5))
  then have same: "role n \<noteq> Follower" "currentTerm n' = currentTerm n"
    using node_step_campaigns [OF assms(1)] assms(2) by auto
  from assms(1) show ?thesis
    by (cases rule: node_step_rlog) (use same assms(2) in auto)
qed

lemma node_step_candidate:
  assumes "node_step e n = Some (n', ms)" and "role n' = Candidate"
  shows "rlog n' = rlog n \<and>
    (role n = Candidate \<and> currentTerm n' = currentTerm n \<or> currentTerm n' = currentTerm n + 1)"
proof -
  have log: "rlog n' = rlog n" using assms(1) by (cases rule: node_step_rlog) (use assms(2) in auto)
  have "role n' \<noteq> Follower" using assms(2) by simp
  from node_step_campaigns [OF assms(1) this] show ?thesis
  proof
    assume *: "role n \<noteq> Follower \<and> currentTerm n' = currentTerm n"
    then have "role n = Candidate" using node_step_same_term [OF assms(1)] assms(2) by auto
    with * log show ?thesis by simp
  next
    assume "(n', ms) = startElection (n\<lparr>timerArmed := False\<rparr>)"
    then have "n' = fst (startElection (n\<lparr>timerArmed := False\<rparr>))" by (metis fst_conv)
    then have "currentTerm n' = currentTerm n + 1" by (simp add: startElection_sel)
    with log show ?thesis by simp
  qed
qed

section \<open>What the messages say\<close>

lemma node_step_sends_append:
  assumes step: "node_step e n = Some (n', ms)" and m: "m \<in> set ms" "msg_body m = AppendEntries a"
  shows "role n' = Leader \<and> (\<exists>p. sendAppendEntries p n' = Some m)"
  using step
proof (cases rule: node_step_cases)
  case (vote m0 a0)
  with m show ?thesis by (auto simp: handleRequestVote_def Let_def)
next
  case (vote_reply m0 r)
  from vote_reply(4) show ?thesis
  proof (cases rule: handleRequestVoteReply_cases)
    case (won n2 vs)
    then show ?thesis using becomeLeader_mem [OF won(6) m(1)] becomeLeader_sel(8) [OF won(6)] by blast
  qed (use m in auto)
next
  case (append m0 a0)
  with m show ?thesis by (auto simp: handleAppendEntries_def Let_def append_reply_def split: if_splits)
next
  case (append_reply m0 r)
  from append_reply(4) m show ?thesis by (cases rule: handleAppendEntriesReply_cases) auto
next
  case heartbeat
  then show ?thesis using sendHeartbeatsLocked_mem [OF _ m(1)] by (auto simp: IsLeader_def)
next
  case (command cmd ok)
  from command(2) show ?thesis
  proof (cases rule: SubmitCommand_cases)
    case taken
    then show ?thesis using send_to_all_mem [OF taken(4) m(1)] by auto
  qed (use m in auto)
qed (use m in \<open>auto simp: startElection_def Let_def\<close>)

lemma node_step_acks:
  assumes step: "node_step e n = Some (n', ms)" and m: "m \<in> set ms" "msg_body m = AppendReply r" "aer_success r"
  obtains m0 a where "e = Recv m0" "msg_body m0 = AppendEntries a" "accepts a n" "aer_term r = ae_term a"
    "aer_matchIndex r = length (rlog n')" "currentTerm n' = ae_term a"
    "rlog n' = append_spec (ae_prevLogIndex a) (ae_entries a) (rlog n)"
  using step
proof (cases rule: node_step_cases)
  case (vote m0 a0)
  with m show ?thesis by (auto simp: handleRequestVote_def Let_def)
next
  case (vote_reply m0 r0)
  from vote_reply(4) show ?thesis
  proof (cases rule: handleRequestVoteReply_cases)
    case (won n2 vs)
    show ?thesis using becomeLeader_mem [OF won(6) m(1)] m(2) by (auto elim!: sendAppendEntries_msg)
  qed (use m in auto)
next
  case (append m0 a0)
  have n': "n' = fst (handleAppendEntries (msg_from m0) a0 n)" using append(4) by (metis fst_conv)
  have r: "accepts a0 n \<and> aer_term r = ae_term a0 \<and> aer_matchIndex r = length (rlog n') \<and> currentTerm n' = ae_term a0"
    using append m by (auto simp: handleAppendEntries_def accepts_def append_reply_def lastLogIndex_def Let_def max_def
        split: if_splits)
  with append show ?thesis
    by (intro that [of m0 a0]) (simp_all, simp add: n' handleAppendEntries_log accepts_def)
next
  case (append_reply m0 r0)
  from append_reply(4) m show ?thesis by (cases rule: handleAppendEntriesReply_cases) auto
next
  case heartbeat
  with m show ?thesis by (auto dest!: sendHeartbeatsLocked_mem elim!: sendAppendEntries_msg)
next
  case (command cmd ok)
  from command(2) show ?thesis
  proof (cases rule: SubmitCommand_cases)
    case taken
    then show ?thesis using send_to_all_mem [OF taken(4) m(1)] m(2) by (auto elim!: sendAppendEntries_msg)
  qed (use m in auto)
qed (use m in \<open>auto simp: startElection_def Let_def\<close>)

text \<open>A request for votes states the log of its candidate.\<close>

lemma node_step_campaign_log:
  assumes step: "node_step e n = Some (n', ms)" and m: "m \<in> set ms" "msg_body m = RequestVote a"
  shows "role n' = Candidate \<and> rlog n' = rlog n \<and> rv_lastLogIndex a = length (rlog n) \<and> rv_lastLogTerm a = lastLogTerm n"
proof -
  have "e = Timer" "alive n" using node_step_asks [OF step m] by simp_all
  then have "(n', ms) = startElection (n\<lparr>timerArmed := False\<rparr>)" using step by (simp add: run_timer_def)
  then show ?thesis
    using m by (auto simp: startElection_def Let_def lastLogIndex_def lastLogTerm_def
        resetElectionTimer_def notifyChange_def)
qed

text \<open>A vote is granted to a request of the voter's new term whose log is up to date with the voter's.\<close>

lemma node_step_grant_log:
  assumes step: "node_step e n = Some (n', ms)" and m: "m \<in> set ms" "msg_body m = VoteReply r" "rvr_granted r"
  obtains m0 a where "e = Recv m0" "msg_body m0 = RequestVote a" "msg_to m = msg_from m0" "rvr_term r = rv_term a"
    "currentTerm n' = rv_term a" "rlog n' = rlog n"
    "candidateLogUpToDate (rv_lastLogIndex a) (rv_lastLogTerm a) n"
proof -
  obtain m0 a where g: "e = Recv m0" "msg_body m0 = RequestVote a" "msg_to m = msg_from m0"
    using node_step_grants [OF step m] by blast
  have "alive n" using step m(1) by (cases "alive n") (auto simp: g(1) run_inbox_def)
  then have r: "(n', ms) = handleRequestVote (msg_from m0) a n"
    using step by (simp add: g run_inbox_def handleMessage_def)
  have "candidateLogUpToDate i t (maybeStepDown u n) = candidateLogUpToDate i t n" for i t u
    by (simp add: candidateLogUpToDate_def lastLogIndex_def lastLogTerm_def)
  then show ?thesis
    by (intro that [of m0 a]) (use g r m in \<open>auto simp: handleRequestVote_def Let_def max_def split: if_splits\<close>)
qed

section \<open>The commit index and the match indexes\<close>

lemma maybeAdvanceCommitIndex_justified:
  "commitIndex (maybeAdvanceCommitIndex n) = commitIndex n \<or>
   (commitIndex n < commitIndex (maybeAdvanceCommitIndex n) \<and> commitIndex (maybeAdvanceCommitIndex n) \<le> length (rlog n) \<and>
    le_term (rlog n ! (commitIndex (maybeAdvanceCommitIndex n) - 1)) = currentTerm n \<and>
    majority n \<le> replica_count n (commitIndex (maybeAdvanceCommitIndex n)))"
  using advance_from_justified [of "lastLogIndex n" n] by (simp add: maybeAdvanceCommitIndex_def lastLogIndex_def)

lemma replica_count_cong:
  "matchIndex n = matchIndex n' \<Longrightarrow> peers n = peers n' \<Longrightarrow> replica_count n k = replica_count n' k"
  by (simp add: replica_count_def)

lemma node_step_commit:
  assumes "node_step e n = Some (n', ms)"
  obtains (kept) "commitIndex n' = commitIndex n"
  | (followed) m a where "e = Recv m" "msg_body m = AppendEntries a" "accepts a n" "commitIndex n < ae_leaderCommit a"
      "commitIndex n' = min (ae_leaderCommit a) (length (rlog n'))" "currentTerm n' = ae_term a"
      "rlog n' = append_spec (ae_prevLogIndex a) (ae_entries a) (rlog n)"
  | (advanced) "role n' = Leader" "commitIndex n < commitIndex n'" "commitIndex n' \<le> length (rlog n')"
      "le_term (rlog n' ! (commitIndex n' - 1)) = currentTerm n'" "majority n' \<le> replica_count n' (commitIndex n')"
  using assms
proof (cases rule: node_step_cases)
  case (vote m a)
  then have "n' = fst (handleRequestVote (msg_from m) a n)" by (metis fst_conv)
  then show ?thesis by (intro kept) (simp add: handleRequestVote_sel)
next
  case (vote_reply m r)
  from vote_reply(4) show ?thesis
  proof (cases rule: handleRequestVoteReply_cases)
    case (won n2 vs)
    have "commitIndex n2 = commitIndex n" using won(3) by auto
    with becomeLeader_sel(6) [OF won(6)] show ?thesis by (intro kept) simp
  qed (auto intro!: kept split: if_splits)
next
  case (append m a)
  then have n': "n' = fst (handleAppendEntries (msg_from m) a n)" by (metis fst_conv)
  show ?thesis
  proof (cases "accepts a n \<and> commitIndex n < ae_leaderCommit a")
    case True
    with append show ?thesis
      by (intro followed [of m a])
        (simp_all add: n' handleAppendEntries_commit handleAppendEntries_sel handleAppendEntries_log accepts_def)
  next
    case False
    then show ?thesis by (intro kept) (auto simp: n' handleAppendEntries_commit)
  qed
next
  case (append_reply m r)
  from append_reply(4) show ?thesis
  proof (cases rule: handleAppendEntriesReply_cases)
    case (matched mi ni)
    let ?n = "n\<lparr>matchIndex := mi, nextIndex := Some ni\<rparr>"
    have n': "n' = maybeAdvanceCommitIndex ?n" by (rule matched(5))
    have same: "majority n' = majority ?n" "replica_count n' k = replica_count ?n k" for k
      by (simp_all add: n' majority_def replica_count_def)
    from maybeAdvanceCommitIndex_justified [of ?n] show ?thesis
    proof
      assume "commitIndex (maybeAdvanceCommitIndex ?n) = commitIndex ?n"
      then show ?thesis by (intro kept) (simp add: n')
    next
      assume "commitIndex ?n < commitIndex (maybeAdvanceCommitIndex ?n) \<and>
        commitIndex (maybeAdvanceCommitIndex ?n) \<le> length (rlog ?n) \<and>
        le_term (rlog ?n ! (commitIndex (maybeAdvanceCommitIndex ?n) - 1)) = currentTerm ?n \<and>
        majority ?n \<le> replica_count ?n (commitIndex (maybeAdvanceCommitIndex ?n))"
      then show ?thesis using same matched(1) unfolding n' [symmetric]
        by (intro advanced) (simp_all add: n')
    qed
  qed (auto intro!: kept)
next
  case election
  then have "n' = fst (startElection (n\<lparr>timerArmed := False\<rparr>))" by (metis fst_conv)
  then show ?thesis by (intro kept) (simp add: startElection_sel)
next
  case (command cmd ok)
  from command(2) show ?thesis by (cases rule: SubmitCommand_cases) (auto intro!: kept)
qed (auto intro!: kept simp: Kill_def Restart_def)

text \<open>A leader's match index is what it was, or what a successful reply says.\<close>

lemma node_step_match:
  assumes "node_step e n = Some (n', ms)" and "role n' = Leader"
  shows "go_get (matchIndex n') p = 0 \<or> (role n = Leader \<and> go_get (matchIndex n') p = go_get (matchIndex n) p) \<or>
    (\<exists>m r. e = Recv m \<and> msg_from m = p \<and> msg_body m = AppendReply r \<and> aer_success r \<and> role n = Leader \<and>
       aer_term r \<le> currentTerm n \<and> go_get (matchIndex n') p = aer_matchIndex r)"
  using assms(1)
proof (cases rule: node_step_cases)
  case (vote m a)
  then have "n' = fst (handleRequestVote (msg_from m) a n)" by (metis fst_conv)
  with assms(2) show ?thesis by (auto simp: handleRequestVote_sel split: if_splits)
next
  case (vote_reply m r)
  from vote_reply(4) show ?thesis
  proof (cases rule: handleRequestVoteReply_cases)
    case (won n2 vs)
    with becomeLeader_sel(13) [OF won(6)] show ?thesis by simp
  qed (use assms(2) in \<open>auto split: if_splits\<close>)
next
  case (append m a)
  then have "n' = fst (handleAppendEntries (msg_from m) a n)" by (metis fst_conv)
  with assms(2) show ?thesis by (auto simp: handleAppendEntries_sel split: if_splits)
next
  case (append_reply m r)
  from append_reply(4) show ?thesis
  proof (cases rule: handleAppendEntriesReply_cases)
    case (matched mi ni)
    then have "go_get (matchIndex n') = (go_get (matchIndex n))(msg_from m := max (aer_matchIndex r) (go_get (matchIndex n) (msg_from m)))"
      by simp
    with matched append_reply show ?thesis by (auto simp: max_def)
  qed (use assms(2) in \<open>auto split: if_splits\<close>)
next
  case election
  then have "n' = fst (startElection (n\<lparr>timerArmed := False\<rparr>))" by (metis fst_conv)
  with assms(2) show ?thesis by (simp add: startElection_sel)
next
  case (command cmd ok)
  from command(2) assms(2) show ?thesis by (cases rule: SubmitCommand_cases) auto
qed (use assms(2) in \<open>auto simp: Kill_def Restart_def\<close>)

end
