(* ===== verification/Raft_Trace.thy ===== *)
theory Raft_Trace
  imports Raft_Events
begin

text \<open>
  The history of the network: the list of its states, the present one first. \<open>led\<close> are the logs
  that leaders have had, with their terms, \<open>camp\<close> those with which candidates campaigned. The
  logs of one term's leader are prefixes of each other, and every log is, up to each of its
  entries, one that the leader of that entry's term has had.
\<close>

section \<open>Logs that leaders have had\<close>

definition tip :: "LogEntry list \<Rightarrow> nat" where
  "tip l = (if l = [] then 0 else le_term (last l))"

lemma lastLogTerm_tip: "lastLogTerm n = tip (rlog n)"
  by (simp add: lastLogTerm_def tip_def last_conv_nth)

lemma tip_Nil [simp]: "tip [] = 0"
  by (simp add: tip_def)

lemma tip_snoc [simp]: "tip (l @ [e]) = le_term e"
  by (simp add: tip_def)

lemma tip_take: "0 < q \<Longrightarrow> q \<le> length l \<Longrightarrow> tip (take q l) = le_term (l ! (q - 1))"
  by (auto simp: tip_def last_conv_nth min_def)

lemma tip_prefix_le:
  assumes "sorted (map le_term l)" and "prefix c l"
  shows "tip c \<le> tip l"
proof (cases "c = []")
  case False
  obtain d where l: "l = c @ d" using assms(2) by (auto simp: prefix_def)
  have "le_term (last c) \<le> le_term (last d)" if "d \<noteq> []"
    using assms(1) that False by (auto simp: l sorted_append)
  with False show ?thesis by (cases "d = []") (simp_all add: tip_def l)
qed simp

definition recorded :: "(nat \<times> LogEntry list) set \<Rightarrow> LogEntry list \<Rightarrow> bool" where
  "recorded R c \<longleftrightarrow> c \<noteq> [] \<and> (\<exists>l. (tip c, l) \<in> R \<and> prefix c l)"

definition good_log :: "(nat \<times> LogEntry list) set \<Rightarrow> LogEntry list \<Rightarrow> bool" where
  "good_log R l \<longleftrightarrow> (\<forall>c. prefix c l \<longrightarrow> c \<noteq> [] \<longrightarrow> recorded R c)"

definition comparable :: "'a list \<Rightarrow> 'a list \<Rightarrow> bool" where
  "comparable l k \<longleftrightarrow> prefix l k \<or> prefix k l"

definition one_line :: "(nat \<times> LogEntry list) set \<Rightarrow> bool" where
  "one_line R \<longleftrightarrow> (\<forall>t l k. (t, l) \<in> R \<longrightarrow> (t, k) \<in> R \<longrightarrow> comparable l k)"

lemma comparable_prefixes: "comparable l k \<Longrightarrow> prefix c l \<Longrightarrow> prefix d k \<Longrightarrow> comparable c d"
  unfolding comparable_def by (meson prefix_order.trans prefix_same_cases)

lemma comparable_length: "comparable l k \<Longrightarrow> length l \<le> length k \<Longrightarrow> prefix l k"
  by (auto simp: comparable_def prefix_def)

lemma comparable_eq: "comparable l k \<Longrightarrow> length l = length k \<Longrightarrow> l = k"
  by (auto simp: comparable_def prefix_def)

lemma recorded_mono: "recorded R c \<Longrightarrow> R \<subseteq> R' \<Longrightarrow> recorded R' c"
  by (auto simp: recorded_def)

lemma good_log_mono: "good_log R l \<Longrightarrow> R \<subseteq> R' \<Longrightarrow> good_log R' l"
  by (auto simp: good_log_def intro: recorded_mono)

lemma good_log_prefix: "good_log R l \<Longrightarrow> prefix k l \<Longrightarrow> good_log R k"
  unfolding good_log_def by (meson prefix_order.trans)

lemma good_log_Nil [simp]: "good_log R []"
  by (simp add: good_log_def)

lemma good_log_snoc: "good_log R (l @ [e]) \<longleftrightarrow> good_log R l \<and> recorded R (l @ [e])"
  by (auto simp: good_log_def)

text \<open>Two recorded logs of the same last term are on one line.\<close>

lemma recorded_comparable:
  assumes "one_line R" "recorded R c" "recorded R d" "tip c = tip d"
  shows "comparable c d"
proof -
  obtain l where l: "(tip c, l) \<in> R" "prefix c l" using assms(2) by (auto simp: recorded_def)
  obtain k where k: "(tip c, k) \<in> R" "prefix d k" using assms(3,4) by (auto simp: recorded_def)
  have "comparable l k" using assms(1) l(1) k(1) by (auto simp: one_line_def)
  then show ?thesis using l(2) k(2) by (rule comparable_prefixes)
qed

lemma recorded_take: "good_log R l \<Longrightarrow> 0 < q \<Longrightarrow> q \<le> length l \<Longrightarrow> recorded R (take q l)"
  unfolding good_log_def by (elim allE [of _ "take q l"]) (auto simp: take_is_prefix)

lemma agree_take:
  assumes "one_line R" "good_log R k" "good_log R l" "q \<le> length k" "q \<le> length l"
    and "0 < q \<Longrightarrow> le_term (k ! (q - 1)) = le_term (l ! (q - 1))"
  shows "take q k = take q l"
proof (cases "q = 0")
  case False
  then have "recorded R (take q k)" "recorded R (take q l)"
    using assms(2-5) by (simp_all add: recorded_take)
  moreover have "tip (take q k) = tip (take q l)" using False assms(4-6) by (simp add: tip_take)
  ultimately have "comparable (take q k) (take q l)" using assms(1) by (intro recorded_comparable)
  then show ?thesis by (rule comparable_eq) (simp add: assms(4,5))
qed simp

lemma match_len_prefix: "prefix es xs \<Longrightarrow> match_len es xs = length es"
  by (induction es xs rule: match_len.induct) auto

text \<open>An accepted request that carries the log \<open>l\<close> from \<open>p\<close> on leaves a log that has \<open>l\<close>, or \<open>l\<close>.\<close>

lemma accept_result:
  assumes R: "one_line R" "good_log R k" "good_log R l"
    and a: "ae_prevLogIndex a \<le> length l" "ae_entries a = drop (ae_prevLogIndex a) l"
      "0 < ae_prevLogIndex a \<Longrightarrow> ae_prevLogTerm a = le_term (l ! (ae_prevLogIndex a - 1))"
    and prev: "prev_matches a k"
  shows "append_spec (ae_prevLogIndex a) (ae_entries a) k = (if prefix l k then k else l)"
proof -
  let ?p = "ae_prevLogIndex a" and ?es = "ae_entries a"
  let ?m = "match_len ?es (drop ?p k)"
  have p: "?p \<le> length k" using prev by (auto simp: prev_matches_def split: if_splits)
  have m: "?m \<le> length l - ?p" "?m \<le> length k - ?p" using match_len_le [of ?es "drop ?p k"] a(2) by simp_all
  have same: "take (?p + ?m) k = take (?p + ?m) l"
  proof (rule agree_take [OF R])
    assume pos: "0 < ?p + ?m"
    show "le_term (k ! (?p + ?m - 1)) = le_term (l ! (?p + ?m - 1))"
    proof (cases "?m = 0")
      case True
      with pos a(3) prev show ?thesis by (simp add: prev_matches_def split: if_splits)
    next
      case False
      have "map le_term (take ?m (drop ?p k)) ! (?m - 1) = map le_term (take ?m ?es) ! (?m - 1)"
        by (simp only: match_len_terms)
      then show ?thesis using False m p a(1,2) by simp
    qed
  qed (use m p a(1) in simp_all)
  show ?thesis
  proof (cases "prefix l k")
    case True
    then have "prefix ?es (drop ?p k)" using a(1,2) by (auto simp: prefix_def)
    with True show ?thesis by (simp add: append_spec_def match_len_prefix)
  next
    case False
    have "?m \<noteq> length ?es"
    proof
      assume "?m = length ?es"
      then have "take (length l) k = l" using same a(1,2) by simp
      with False show False by (metis take_is_prefix)
    qed
    with False same a(2) show ?thesis by (simp add: append_spec_def add.commute)
  qed
qed

section \<open>Sound acknowledgements\<close>

text \<open>
  A schedule with sound acknowledgements: no stale vote is counted, a leader counts no successful
  reply of an earlier term, and a follower that accepts a request is left with no entry of an
  earlier term beyond what the request carries (its reply reports the length of its whole log).
\<close>

definition sound_acks :: "node_event \<Rightarrow> node \<Rightarrow> bool" where
  "sound_acks e n \<longleftrightarrow> fresh_votes e n \<and>
     (case e of
        Recv m \<Rightarrow> (case msg_body m of
          AppendReply r \<Rightarrow> aer_success r \<and> role n = Leader \<longrightarrow> currentTerm n \<le> aer_term r
        | AppendEntries a \<Rightarrow> accepts a n \<longrightarrow>
            (\<forall>x \<in> set (drop (ae_prevLogIndex a + length (ae_entries a))
                (append_entries (ae_prevLogIndex a + 1) (ae_entries a) (rlog n))). le_term x = ae_term a)
        | _ \<Rightarrow> True)
      | _ \<Rightarrow> True)"

lemma sound_fresh: "sound_acks e n \<Longrightarrow> fresh_votes e n"
  by (simp add: sound_acks_def)

lemma restricts_sound [simp]: "restricts_deliveries sound_acks"
  using restricts_fresh by (auto simp: restricts_deliveries_def sound_acks_def split: node_event.split)

lemma sound_tail:
  assumes "sound_acks (Recv m) n" "msg_body m = AppendEntries a" "accepts a n"
    and "x \<in> set (drop (ae_prevLogIndex a + length (ae_entries a)) (append_spec (ae_prevLogIndex a) (ae_entries a) (rlog n)))"
  shows "le_term x = ae_term a"
proof -
  have "ae_prevLogIndex a \<le> length (rlog n)"
    using assms(3) by (auto simp: accepts_def prev_matches_def split: if_splits)
  then show ?thesis using assms append_entries_spec [of "ae_prevLogIndex a" "rlog n" "ae_entries a"]
    by (auto simp: sound_acks_def)
qed

section \<open>Traces\<close>

definition trace_step :: "(node_event \<Rightarrow> node \<Rightarrow> bool) \<Rightarrow> net list \<Rightarrow> net list \<Rightarrow> bool" where
  "trace_step adm tr tr' \<longleftrightarrow> tr \<noteq> [] \<and> (\<exists>t. net_step adm (hd tr) t \<and> tr' = t # tr)"

abbreviation trace_init :: "nat \<Rightarrow> net list \<Rightarrow> bool" where
  "trace_init N tr \<equiv> tr = [net_init N]"

abbreviation trace_reach :: "nat \<Rightarrow> net list \<Rightarrow> bool" where
  "trace_reach N \<equiv> reach (trace_init N) (trace_step sound_acks)"

definition led :: "net list \<Rightarrow> (nat \<times> LogEntry list) set" where
  "led tr = {(currentTerm n, rlog n) | n. role n = Leader \<and> (\<exists>s \<in> set tr. n \<in> set (net_nodes s))}"

definition camp_at :: "net \<Rightarrow> (nat \<times> nat \<times> LogEntry list) set" where
  "camp_at s = {(i, t, l). i < length (net_nodes s) \<and> role (net_nodes s ! i) = Candidate \<and>
     t = currentTerm (net_nodes s ! i) \<and> l = rlog (net_nodes s ! i)}"

definition camp :: "net list \<Rightarrow> (nat \<times> nat \<times> LogEntry list) set" where
  "camp tr = (\<Union>s \<in> set tr. camp_at s)"

text \<open>What holds of the network of a run with fresh votes, whatever the replies.\<close>

definition base_inv :: "nat \<Rightarrow> net \<Rightarrow> bool" where
  "base_inv N s \<longleftrightarrow> net_ok N s \<and> vote_inv s \<and> ask_inv N s \<and> campaign_inv N s \<and> logs_inv s"

lemma base_inv_init: "base_inv N (net_init N)"
  by (simp add: base_inv_def ask_inv_init campaign_inv_init net_ok_init votes.rel_init logs_inv_init)

lemma base_inv_step: "base_inv N s \<Longrightarrow> net_step sound_acks s t \<Longrightarrow> base_inv N t"
  using net_step_mono [of sound_acks s t fresh_votes] sound_fresh unfolding base_inv_def
  by (blast intro: net_ok_step vote_inv_step ask_inv_step campaign_inv_step logs_inv_step)

text \<open>A step with what it gives: the node that acts, its event and what is known before and after.\<close>

definition step_at :: "nat \<Rightarrow> net \<Rightarrow> nat \<Rightarrow> node_event \<Rightarrow> node \<Rightarrow> Message list \<Rightarrow> net \<Rightarrow> bool" where
  "step_at N s i e n' ms t \<longleftrightarrow> i < N \<and> (\<forall>m. e = Recv m \<longrightarrow> m \<in> sent s \<and> msg_to m = i) \<and>
     sound_acks e (net_nodes s ! i) \<and> node_step e (net_nodes s ! i) = Some (n', ms) \<and>
     net_nodes t = (net_nodes s)[i := n'] \<and> sent t = sent s \<union> set ms \<and> base_inv N s \<and> base_inv N t"

lemma step_atI:
  assumes "net_step sound_acks s t" "base_inv N s"
  obtains i e n' ms where "step_at N s i e n' ms t"
  using assms(1)
proof (cases rule: net_step_cases)
  case (acts i e n' ms)
  have "length (net_nodes s) = N" using assms(2) by (simp add: base_inv_def net_ok_def)
  then have "step_at N s i e n' ms t"
    unfolding step_at_def using acts assms base_inv_step [OF assms(2,1)] by simp
  then show ?thesis by (rule that)
qed

lemma step_at_nodes:
  assumes "step_at N s i e n' ms t"
  shows "length (net_nodes s) = N" "length (net_nodes t) = N" "net_nodes t ! i = n'" "i < N"
    "\<And>j. j \<noteq> i \<Longrightarrow> net_nodes t ! j = net_nodes s ! j" "sent s \<subseteq> sent t"
    "node_step e (net_nodes s ! i) = Some (n', ms)"
    "\<And>j. currentTerm (net_nodes s ! j) \<le> currentTerm (net_nodes t ! j)"
proof -
  have len: "length (net_nodes s) = N" "i < N" "net_nodes t = (net_nodes s)[i := n']"
    using assms by (simp_all add: step_at_def base_inv_def net_ok_def)
  have st: "node_step e (net_nodes s ! i) = Some (n', ms)" using assms by (simp add: step_at_def)
  show "length (net_nodes s) = N" "length (net_nodes t) = N" "net_nodes t ! i = n'" "i < N"
    "\<And>j. j \<noteq> i \<Longrightarrow> net_nodes t ! j = net_nodes s ! j" "sent s \<subseteq> sent t"
    "node_step e (net_nodes s ! i) = Some (n', ms)"
    using len st assms by (simp_all add: step_at_def)
  show "currentTerm (net_nodes s ! j) \<le> currentTerm (net_nodes t ! j)" for j
    using node_step_term [OF st] len by (cases "j = i") simp_all
qed

lemma led_step:
  assumes "step_at N (hd tr) i e n' ms t" "tr \<noteq> []"
  shows "led (t # tr) = led tr \<union> (if role n' = Leader then {(currentTerm n', rlog n')} else {})"
proof -
  have nodes: "net_nodes t = (net_nodes (hd tr))[i := n']" "i < length (net_nodes (hd tr))"
    using assms(1) step_at_nodes(1,4) [OF assms(1)] by (simp_all add: step_at_def)
  have "n \<in> set (net_nodes t) \<Longrightarrow> n = n' \<or> n \<in> set (net_nodes (hd tr))" for n
    using set_update_subset_insert nodes(1) by fastforce
  moreover have "n' \<in> set (net_nodes t)" using nodes by (simp add: set_update_memI)
  moreover have "hd tr \<in> set tr" using assms(2) by simp
  ultimately show ?thesis unfolding led_def by (auto 4 4)
qed

lemma camp_step:
  assumes "step_at N (hd tr) i e n' ms t" "tr \<noteq> []"
  shows "camp (t # tr) = camp tr \<union> (if role n' = Candidate then {(i, currentTerm n', rlog n')} else {})"
proof -
  note n = step_at_nodes [OF assms(1)]
  have "camp_at t \<subseteq> camp_at (hd tr) \<union> (if role n' = Candidate then {(i, currentTerm n', rlog n')} else {})"
    using n(1-5) unfolding camp_at_def by (auto split: if_splits) (metis n(5))+
  moreover have "(if role n' = Candidate then {(i, currentTerm n', rlog n')} else {}) \<subseteq> camp_at t"
    using n(1-5) by (auto simp: camp_at_def)
  moreover have "camp_at (hd tr) \<subseteq> camp tr"
    unfolding camp_def by (rule UN_upper) (simp add: assms(2))
  moreover have "camp (t # tr) = camp_at t \<union> camp tr" by (simp add: camp_def)
  ultimately show ?thesis by blast
qed

end
