(* ===== verification/Raft_Lines.thy ===== *)
theory Raft_Lines
  imports Raft_Trace
begin

text \<open>
  The line of a term: what the logs of its leader, the requests under way and the logs of all
  nodes have to do with each other in every trace with fresh votes.
\<close>

section \<open>The invariant\<close>

definition leader_of :: "nat \<Rightarrow> net \<Rightarrow> nat \<Rightarrow> LogEntry list \<Rightarrow> nat \<Rightarrow> bool" where
  "leader_of N s t l k \<longleftrightarrow> elected N s t k \<and> t \<le> currentTerm (net_nodes s ! k) \<and>
     (currentTerm (net_nodes s ! k) = t \<longrightarrow> role (net_nodes s ! k) \<noteq> Candidate \<and>
        (role (net_nodes s ! k) = Leader \<longrightarrow> prefix l (rlog (net_nodes s ! k))))"

definition led_ok :: "nat \<Rightarrow> net list \<Rightarrow> bool" where
  "led_ok N tr \<longleftrightarrow> (\<forall>t l. (t, l) \<in> led tr \<longrightarrow> 0 < t \<and> good_log (led tr) l \<and>
     (\<exists>k l0. leader_of N (hd tr) t l k \<and> (k, t, l0) \<in> camp tr \<and> prefix l0 l))"

definition camp_entry_ok :: "nat \<Rightarrow> net list \<Rightarrow> nat \<Rightarrow> nat \<Rightarrow> LogEntry list \<Rightarrow> bool" where
  "camp_entry_ok N tr i t l \<longleftrightarrow> i < N \<and> asked (hd tr) i t \<and> t \<le> currentTerm (net_nodes (hd tr) ! i) \<and>
     (\<forall>x \<in> set l. le_term x < t) \<and> sorted (map le_term l) \<and> good_log (led tr) l \<and>
     (currentTerm (net_nodes (hd tr) ! i) = t \<longrightarrow>
        (role (net_nodes (hd tr) ! i) = Candidate \<longrightarrow> rlog (net_nodes (hd tr) ! i) = l) \<and>
        (role (net_nodes (hd tr) ! i) = Leader \<longrightarrow> prefix l (rlog (net_nodes (hd tr) ! i))))"

definition camp_ok :: "nat \<Rightarrow> net list \<Rightarrow> bool" where
  "camp_ok N tr \<longleftrightarrow> (\<forall>i t l. (i, t, l) \<in> camp tr \<longrightarrow> camp_entry_ok N tr i t l \<and> (\<forall>k. (i, t, k) \<in> camp tr \<longrightarrow> k = l))"

text \<open>A request carries a log of its leader, or it can be accepted by nobody.\<close>

definition carries :: "AppendEntriesArgs \<Rightarrow> LogEntry list \<Rightarrow> bool" where
  "carries a l \<longleftrightarrow> ae_prevLogIndex a \<le> length l \<and> ae_entries a = drop (ae_prevLogIndex a) l \<and>
     (0 < ae_prevLogIndex a \<longrightarrow> ae_prevLogTerm a = le_term (l ! (ae_prevLogIndex a - 1)))"

definition void_request :: "AppendEntriesArgs \<Rightarrow> bool" where
  "void_request a \<longleftrightarrow> 0 < ae_prevLogIndex a \<and> ae_prevLogTerm a = 0"

definition requests_ok :: "net list \<Rightarrow> bool" where
  "requests_ok tr \<longleftrightarrow> (\<forall>m \<in> sent (hd tr). \<forall>a. msg_body m = AppendEntries a \<longrightarrow>
     void_request a \<or> (\<exists>l. (ae_term a, l) \<in> led tr \<and> carries a l))"

definition nodes_good :: "net list \<Rightarrow> bool" where
  "nodes_good tr \<longleftrightarrow> (\<forall>n \<in> set (net_nodes (hd tr)). good_log (led tr) (rlog n))"

definition line_inv :: "nat \<Rightarrow> net list \<Rightarrow> bool" where
  "line_inv N tr \<longleftrightarrow> led_ok N tr \<and> one_line (led tr) \<and> camp_ok N tr \<and> requests_ok tr \<and> nodes_good tr"

lemma led_okD:
  assumes "led_ok N tr" "(t, l) \<in> led tr"
  obtains k l0 where "0 < t" "good_log (led tr) l" "leader_of N (hd tr) t l k" "(k, t, l0) \<in> camp tr" "prefix l0 l"
  using assms unfolding led_ok_def by blast

lemma ledI: "s \<in> set tr \<Longrightarrow> i < length (net_nodes s) \<Longrightarrow> role (net_nodes s ! i) = Leader \<Longrightarrow>
    (currentTerm (net_nodes s ! i), rlog (net_nodes s ! i)) \<in> led tr"
  unfolding led_def using nth_mem by blast

lemma line_invD:
  assumes "line_inv N tr"
  shows "led_ok N tr" "one_line (led tr)" "camp_ok N tr" "requests_ok tr" "nodes_good tr"
  using assms by (simp_all add: line_inv_def)

lemma nodes_good_nth: "nodes_good tr \<Longrightarrow> i < length (net_nodes (hd tr)) \<Longrightarrow> good_log (led tr) (rlog (net_nodes (hd tr) ! i))"
  by (simp add: nodes_good_def)

lemma send_carries:
  assumes "sendAppendEntries p n = Some m" and "msg_body m = AppendEntries a"
  shows "ae_term a = currentTerm n \<and> ae_leaderCommit a = commitIndex n \<and> (void_request a \<or> carries a (rlog n))"
  using assms(1)
proof (rule sendAppendEntries_msg)
  fix b assume m: "msg_body m = AppendEntries b"
    and b: "ae_term b = currentTerm n" "ae_leaderCommit b = commitIndex n" "ae_entries b = drop (ae_prevLogIndex b) (rlog n)"
      "ae_prevLogTerm b = (if 0 < ae_prevLogIndex b \<and> ae_prevLogIndex b \<le> length (rlog n)
                         then le_term (rlog n ! (ae_prevLogIndex b - 1)) else 0)"
  have "b = a" using m assms(2) by simp
  with b show ?thesis by (auto simp: carries_def void_request_def)
qed

text \<open>What a follower's log becomes when it accepts a request.\<close>

lemma accepted_log:
  assumes led: "led_ok N tr" "one_line (led tr)" and k: "good_log (led tr) (rlog n)" and a: "accepts a n"
    and req: "void_request a \<or> (\<exists>l. (ae_term a, l) \<in> led tr \<and> carries a l \<and> P l)"
  obtains l where "(ae_term a, l) \<in> led tr" "carries a l" "P l" "good_log (led tr) l"
    "append_spec (ae_prevLogIndex a) (ae_entries a) (rlog n) = (if prefix l (rlog n) then rlog n else l)"
proof -
  have "\<not> void_request a"
  proof
    assume void: "void_request a"
    let ?p = "ae_prevLogIndex a"
    have p: "0 < ?p" "?p \<le> length (rlog n)" "le_term (rlog n ! (?p - 1)) = 0"
      using void a by (auto simp: void_request_def accepts_def prev_matches_def split: if_splits)
    have "recorded (led tr) (take ?p (rlog n))" using k p(1,2) by (rule recorded_take)
    then obtain l where "(tip (take ?p (rlog n)), l) \<in> led tr" by (auto simp: recorded_def)
    then have "0 < tip (take ?p (rlog n))" using led(1) unfolding led_ok_def by blast
    with p show False by (simp add: tip_take)
  qed
  with req obtain l where l: "(ae_term a, l) \<in> led tr" "carries a l" "P l" by blast
  have good: "good_log (led tr) l" using led(1) l(1) unfolding led_ok_def by blast
  from l good show ?thesis
    by (intro that [of l] accept_result [OF led(2) k good]) (use l(2) a in \<open>auto simp: carries_def accepts_def\<close>)
qed

section \<open>It is kept\<close>

lemma led_mono: "led tr \<subseteq> led (t # tr)"
  by (auto simp: led_def)

lemma camp_mono: "camp tr \<subseteq> camp (t # tr)"
  by (auto simp: camp_def)

lemma leader_of_step:
  assumes st: "step_at N s i e n' ms t" and "leader_of N s u l k"
  shows "leader_of N t u l k"
proof -
  note n = step_at_nodes [OF st]
  have el: "elected N t u k" using assms(2) n(6) elected_mono by (auto simp: leader_of_def)
  have mono: "u \<le> currentTerm (net_nodes t ! k)" using assms(2) n(8) [of k] by (auto simp: leader_of_def)
  have "role (net_nodes t ! k) \<noteq> Candidate \<and> (role (net_nodes t ! k) = Leader \<longrightarrow> prefix l (rlog (net_nodes t ! k)))"
    if now: "currentTerm (net_nodes t ! k) = u"
  proof (cases "k = i")
    case True
    let ?n = "net_nodes s ! i"
    have same: "currentTerm n' = currentTerm ?n" using now assms(2) True n(3) n(8) [of i] by (auto simp: leader_of_def)
    have r: "role ?n \<noteq> Candidate" "role ?n = Leader \<Longrightarrow> prefix l (rlog ?n)"
      using assms(2) True now same n(3) by (auto simp: leader_of_def)
    have "role n' = Leader \<Longrightarrow> prefix (rlog ?n) (rlog n')" using leader_append_only [OF n(7)] .
    with r node_step_same_term [OF n(7) same r(1)] show ?thesis using True n(3) prefix_order.trans by auto
  next
    case False
    with assms(2) now n(5) show ?thesis by (simp add: leader_of_def)
  qed
  with el mono show ?thesis by (simp add: leader_of_def)
qed

text \<open>A log a leader has after a step.\<close>

lemma new_led:
  assumes inv: "line_inv N tr" and tr: "tr \<noteq> []" "1 < N" and st: "step_at N (hd tr) i e n' ms t" and lead: "role n' = Leader"
  shows "leader_of N t (currentTerm n') (rlog n') i" "0 < currentTerm n'"
    "\<exists>l0. (i, currentTerm n', l0) \<in> camp tr \<and> prefix l0 (rlog n')"
    "\<And>l. (currentTerm n', l) \<in> led tr \<Longrightarrow> prefix l (rlog n')"
    "good_log (led (t # tr)) (rlog n')"
proof -
  note n = step_at_nodes [OF st]
  let ?s = "hd tr" let ?n = "net_nodes (hd tr) ! i"
  have base: "base_inv N ?s" "base_inv N t" using st by (simp_all add: step_at_def)
  have iN: "i < length (net_nodes ?s)" using n by simp
  have hd: "?s \<in> set tr" using tr by simp
  have L: "role ?n \<noteq> Follower" "currentTerm n' = currentTerm ?n" "prefix (rlog ?n) (rlog n')"
    "rlog n' = rlog ?n \<or> (\<exists>x. rlog n' = rlog ?n @ [x] \<and> le_term x = currentTerm ?n)"
    using node_step_leads [OF n(7) lead] by auto
  have el: "elected N t (currentTerm n') i"
    using leader_elected [of N t i] base lead n by (simp add: base_inv_def)
  with tr show "0 < currentTerm n'" using base unfolding base_inv_def elected_def ask_inv_def by blast
  from el lead n show "leader_of N t (currentTerm n') (rlog n') i" by (simp add: leader_of_def)
  have before: "role ?n = Leader \<Longrightarrow> (currentTerm ?n, rlog ?n) \<in> led tr"
    using ledI [OF hd iN] .
  show camps: "\<exists>l0. (i, currentTerm n', l0) \<in> camp tr \<and> prefix l0 (rlog n')"
  proof (cases "role ?n")
    case Candidate
    then have "(i, currentTerm ?n, rlog ?n) \<in> camp tr" using iN hd by (auto simp: camp_def camp_at_def)
    with L show ?thesis by auto
  next
    case Leader
    then obtain k l0 where k: "leader_of N ?s (currentTerm ?n) (rlog ?n) k" "(k, currentTerm ?n, l0) \<in> camp tr" "prefix l0 (rlog ?n)"
      using led_okD [OF line_invD(1) [OF inv] before] by blast
    have "k = i" using leader_of_step [OF st k(1)] el elected_unique [of t N _ k i] base L(2)
      by (auto simp: leader_of_def base_inv_def)
    with k L show ?thesis by (auto intro: prefix_order.trans)
  qed (use L in simp)
  show old: "prefix l (rlog n')" if l: "(currentTerm n', l) \<in> led tr" for l
  proof -
    obtain k where k: "leader_of N ?s (currentTerm n') l k" using led_okD [OF line_invD(1) [OF inv] l] by blast
    have "k = i" using leader_of_step [OF st k] el elected_unique [of t N _ k i] base
      by (auto simp: leader_of_def base_inv_def)
    with leader_of_step [OF st k] n lead show ?thesis by (simp add: leader_of_def)
  qed
  have here: "(currentTerm n', rlog n') \<in> led (t # tr)" using led_step [OF st tr(1)] lead by simp
  have "good_log (led (t # tr)) (rlog ?n)"
    using inv iN nodes_good_nth led_mono by (blast intro: good_log_mono dest: line_inv_def [THEN iffD1])
  then show "good_log (led (t # tr)) (rlog n')"
    using L(2,4) here by (auto simp: good_log_snoc recorded_def)
qed

lemma led_ok_step:
  assumes inv: "line_inv N tr" and tr: "tr \<noteq> []" "1 < N" and st: "step_at N (hd tr) i e n' ms t"
  shows "led_ok N (t # tr)" "one_line (led (t # tr))"
proof -
  note R = led_step [OF st tr(1)]
  have old: "0 < u \<and> good_log (led (t # tr)) l \<and>
      (\<exists>k l0. leader_of N t u l k \<and> (k, u, l0) \<in> camp (t # tr) \<and> prefix l0 l)" if ul: "(u, l) \<in> led tr" for u l
  proof -
    obtain k l0 where k: "0 < u" "good_log (led tr) l" "leader_of N (hd tr) u l k" "(k, u, l0) \<in> camp tr" "prefix l0 l"
      by (rule led_okD [OF line_invD(1) [OF inv] ul])
    have "good_log (led (t # tr)) l" using k(2) led_mono by (rule good_log_mono)
    moreover have "(k, u, l0) \<in> camp (t # tr)" using k(4) camp_mono by (rule subsetD [rotated])
    ultimately show ?thesis using k(1,5) leader_of_step [OF st k(3)] by blast
  qed
  show "led_ok N (t # tr)"
  proof (cases "role n' = Leader")
    case True
    note new = new_led [OF inv tr st True]
    have "\<exists>k l0. leader_of N t (currentTerm n') (rlog n') k \<and> (k, currentTerm n', l0) \<in> camp (t # tr) \<and> prefix l0 (rlog n')"
      using new(1,3) camp_mono by blast
    with new(2,5) old True show ?thesis by (simp add: led_ok_def R)
  next
    case False
    with old show ?thesis by (simp add: led_ok_def R)
  qed
  show "one_line (led (t # tr))"
  proof (cases "role n' = Leader")
    case True
    have "comparable l (rlog n')" "comparable (rlog n') l" if "(currentTerm n', l) \<in> led tr" for l
      using new_led(4) [OF inv tr st True that] by (simp_all add: comparable_def)
    moreover have "one_line (led tr)" using inv by (simp add: line_inv_def)
    ultimately show ?thesis by (auto simp: R one_line_def comparable_def)
  next
    case False
    with inv show ?thesis by (simp add: line_inv_def R)
  qed
qed

lemma camp_ok_step:
  assumes inv: "line_inv N tr" and tr: "tr \<noteq> []" "1 < N" and st: "step_at N (hd tr) i e n' ms t"
  shows "camp_ok N (t # tr)"
proof -
  note n = step_at_nodes [OF st]
  note C = camp_step [OF st tr(1)]
  let ?s = "hd tr" let ?n = "net_nodes (hd tr) ! i"
  have base: "base_inv N ?s" "base_inv N t" using st by (simp_all add: step_at_def)
  have iN: "i < length (net_nodes ?s)" using n by simp
  have hd: "?s \<in> set tr" using tr by simp
  have up: "asked ?s j u \<Longrightarrow> asked t j u" for j u using n(6) by (auto simp: asked_def)
  have old: "camp_entry_ok N (t # tr) j u l" if c: "(j, u, l) \<in> camp tr" for j u l
  proof -
    have o: "camp_entry_ok N tr j u l" using inv c by (simp add: line_inv_def camp_ok_def)
    have "(role (net_nodes t ! j) = Candidate \<longrightarrow> rlog (net_nodes t ! j) = l) \<and>
        (role (net_nodes t ! j) = Leader \<longrightarrow> prefix l (rlog (net_nodes t ! j)))" if u: "currentTerm (net_nodes t ! j) = u"
    proof (cases "j = i")
      case True
      have same: "currentTerm n' = currentTerm ?n" "currentTerm ?n = u"
        using o u True n(3) n(8) [of i] by (auto simp: camp_entry_ok_def)
      have A: "rlog n' = l" if "role n' = Candidate"
        using node_step_candidate [OF n(7) that] same o True by (auto simp: camp_entry_ok_def)
      have "prefix l (rlog n')" if lead: "role n' = Leader"
      proof -
        have "role ?n = Candidate \<or> role ?n = Leader" "prefix (rlog ?n) (rlog n')"
          using node_step_leads [OF n(7) lead] by (cases "role ?n"; auto)+
        with o same True show ?thesis by (auto simp: camp_entry_ok_def intro: prefix_order.trans)
      qed
      with A n(3) True show ?thesis by simp
    next
      case False
      with o u n(5) show ?thesis by (simp add: camp_entry_ok_def)
    qed
    with o n(8) [of j] up show ?thesis
      by (auto simp: camp_entry_ok_def intro: good_log_mono [OF _ led_mono])
  qed
  show ?thesis
  proof (cases "role n' = Candidate \<and> (i, currentTerm n', rlog n') \<notin> camp tr")
    case False
    then have "camp (t # tr) = camp tr" using C by auto
    with old inv show ?thesis by (simp add: camp_ok_def line_inv_def)
  next
    case True
    have c: "rlog n' = rlog ?n" "currentTerm n' = currentTerm ?n + 1"
    proof -
      have "(i, currentTerm ?n, rlog ?n) \<in> camp tr" if "role ?n = Candidate"
        using that iN hd by (auto simp: camp_def camp_at_def)
      then show "rlog n' = rlog ?n" "currentTerm n' = currentTerm ?n + 1"
        using node_step_candidate [OF n(7)] True by auto
    qed
    have "log_ok (currentTerm ?n) (rlog ?n)" using base(1) iN by (simp add: base_inv_def logs_inv_def)
    then have terms: "\<forall>x \<in> set (rlog n'). le_term x < currentTerm n'" "sorted (map le_term (rlog n'))"
      using c by (auto simp: log_ok_def less_Suc_eq_le)
    have asks: "asked t i (currentTerm n')"
    proof -
      have "role (net_nodes t ! i) \<noteq> Follower" using True n(3) by simp
      then show ?thesis using base(2) tr(2) n(3,4) unfolding base_inv_def ask_inv_def by metis
    qed
    have "good_log (led tr) (rlog n')" using inv iN c(1) by (simp add: line_inv_def nodes_good_nth)
    then have entry: "camp_entry_ok N (t # tr) i (currentTerm n') (rlog n')"
      using n(3,4) terms asks True by (auto simp: camp_entry_ok_def intro: good_log_mono [OF _ led_mono])
    have fresh: "(i, currentTerm n', l) \<notin> camp tr" for l
    proof
      assume "(i, currentTerm n', l) \<in> camp tr"
      then have "camp_entry_ok N tr i (currentTerm n') l" using line_invD(3) [OF inv] by (simp add: camp_ok_def)
      then have "currentTerm n' \<le> currentTerm ?n" by (simp add: camp_entry_ok_def)
      with c(2) show False by simp
    qed
    have "camp_ok N tr" using inv by (simp add: line_inv_def)
    then have single: "(j, u, l) \<in> camp tr \<Longrightarrow> (j, u, k) \<in> camp tr \<Longrightarrow> k = l" for j u l k
      unfolding camp_ok_def by blast
    show ?thesis unfolding camp_ok_def C using True old entry fresh single by auto
  qed
qed

lemma requests_ok_step:
  assumes inv: "line_inv N tr" and tr: "tr \<noteq> []" and st: "step_at N (hd tr) i e n' ms t"
  shows "requests_ok (t # tr)"
  unfolding requests_ok_def
proof (intro ballI allI impI)
  fix m a assume m: "m \<in> sent (hd (t # tr))" "msg_body m = AppendEntries a"
  show "void_request a \<or> (\<exists>l. (ae_term a, l) \<in> led (t # tr) \<and> carries a l)"
  proof (cases "m \<in> sent (hd tr)")
    case True
    with inv m(2) led_mono show ?thesis unfolding line_inv_def requests_ok_def by blast
  next
    case False
    then have "m \<in> set ms" using m(1) st by (simp add: step_at_def)
    with node_step_sends_append [OF step_at_nodes(7) [OF st] _ m(2)]
    obtain p where p: "role n' = Leader" "sendAppendEntries p n' = Some m" by blast
    then show ?thesis using send_carries [OF p(2) m(2)] led_step [OF st tr] by auto
  qed
qed

lemma nodes_good_step:
  assumes inv: "line_inv N tr" and tr: "tr \<noteq> []" "1 < N" and st: "step_at N (hd tr) i e n' ms t"
  shows "nodes_good (t # tr)"
proof -
  note n = step_at_nodes [OF st]
  let ?n = "net_nodes (hd tr) ! i"
  have iN: "i < length (net_nodes (hd tr))" using n by simp
  have k: "good_log (led tr) (rlog ?n)" using inv iN by (simp add: line_inv_def nodes_good_nth)
  from n(7) have "good_log (led (t # tr)) (rlog n')"
  proof (cases rule: node_step_rlog)
    case kept
    with k led_mono show ?thesis by (auto intro: good_log_mono)
  next
    case (accepted m a)
    have led: "led_ok N tr" "one_line (led tr)" using inv by (simp_all add: line_inv_def)
    have "m \<in> sent (hd tr)" using st accepted(1) by (simp add: step_at_def)
    then have "void_request a \<or> (\<exists>l. (ae_term a, l) \<in> led tr \<and> carries a l \<and> True)"
      using inv accepted(2) by (auto simp: line_inv_def requests_ok_def)
    from accepted_log [OF led k accepted(3) this]
    have "good_log (led tr) (rlog n')" using k accepted(4) by (metis (full_types))
    with led_mono show ?thesis by (auto intro: good_log_mono)
  next
    case (created x)
    then show ?thesis using new_led(5) [OF inv tr st] by simp
  qed
  moreover have "good_log (led (t # tr)) (rlog n)" if "n \<in> set (net_nodes (hd tr))" for n
    using inv that by (auto simp: line_inv_def nodes_good_def intro: good_log_mono [OF _ led_mono])
  moreover have "net_nodes t = (net_nodes (hd tr))[i := n']" using st by (simp add: step_at_def)
  ultimately show ?thesis using set_update_subset_insert by (fastforce simp: nodes_good_def)
qed

lemma line_inv_step:
  assumes "line_inv N tr" "tr \<noteq> []" "1 < N" "step_at N (hd tr) i e n' ms t"
  shows "line_inv N (t # tr)"
  unfolding line_inv_def
  using led_ok_step [OF assms] camp_ok_step [OF assms] requests_ok_step [OF assms(1,2,4)] nodes_good_step [OF assms] by blast

lemma line_inv_init: "line_inv N [net_init N]"
  by (auto simp: line_inv_def led_ok_def one_line_def camp_ok_def requests_ok_def nodes_good_def led_def camp_def camp_at_def
      net_init_def New_def NewNode_def)

end
