(* ===== verification/Raft_Completeness.thy ===== *)
theory Raft_Completeness
  imports Raft_Lines
begin

text \<open>
  Leader completeness. A node supports a position of a term's line when it has acknowledged it to
  the leader of that term, or led the term itself. A supporter keeps the position until a later
  leader lacks it, and votes for nobody who lacks it unless an even earlier leader did; so what a
  majority supports is in the log of every later leader.
\<close>

section \<open>Supporters\<close>

definition acked :: "net \<Rightarrow> nat \<Rightarrow> nat \<Rightarrow> nat \<Rightarrow> bool" where
  "acked s v t k \<longleftrightarrow> (\<exists>m \<in> sent s. msg_from m = v \<and>
     (\<exists>r. msg_body m = AppendReply r \<and> aer_success r \<and> aer_term r = t \<and> k \<le> aer_matchIndex r))"

definition supports :: "nat \<Rightarrow> net \<Rightarrow> nat \<Rightarrow> LogEntry list \<Rightarrow> bool" where
  "supports N s v c \<longleftrightarrow> acked s v (tip c) (length c) \<or> elected N s (tip c) v"

definition voted :: "net \<Rightarrow> nat \<Rightarrow> nat \<Rightarrow> nat \<Rightarrow> bool" where
  "voted s v j t \<longleftrightarrow> granted s v j t \<or> (v = j \<and> asked s v t)"

text \<open>A leader of term \<open>t\<close> was elected with a log that lacks \<open>c\<close>.\<close>

definition lacking :: "nat \<Rightarrow> net list \<Rightarrow> nat \<Rightarrow> LogEntry list \<Rightarrow> bool" where
  "lacking N tr t c \<longleftrightarrow> (\<exists>j l0. (j, t, l0) \<in> camp tr \<and> elected N (hd tr) t j \<and> \<not> prefix c l0)"

definition acks_ok :: "net list \<Rightarrow> bool" where
  "acks_ok tr \<longleftrightarrow> (\<forall>m \<in> sent (hd tr). \<forall>r. msg_body m = AppendReply r \<longrightarrow> aer_success r \<longrightarrow>
     (\<exists>l. (aer_term r, l) \<in> led tr \<and> aer_matchIndex r \<le> length l))"

definition asks_ok :: "net list \<Rightarrow> bool" where
  "asks_ok tr \<longleftrightarrow>
     (\<forall>m \<in> sent (hd tr). \<forall>a. msg_body m = RequestVote a \<longrightarrow>
        (\<exists>l. (msg_from m, rv_term a, l) \<in> camp tr \<and> length l = rv_lastLogIndex a \<and> tip l = rv_lastLogTerm a)) \<and>
     (\<forall>v j t. granted (hd tr) v j t \<longrightarrow> asked (hd tr) j t)"

definition retained :: "nat \<Rightarrow> net list \<Rightarrow> bool" where
  "retained N tr \<longleftrightarrow> (\<forall>c v. recorded (led tr) c \<longrightarrow> v < N \<longrightarrow> supports N (hd tr) v c \<longrightarrow>
     prefix c (rlog (net_nodes (hd tr) ! v)) \<or>
     (\<exists>t. tip c < t \<and> t \<le> currentTerm (net_nodes (hd tr) ! v) \<and> lacking N tr t c))"

definition votes_ok :: "nat \<Rightarrow> net list \<Rightarrow> bool" where
  "votes_ok N tr \<longleftrightarrow> (\<forall>c v j t l0. recorded (led tr) c \<longrightarrow> v < N \<longrightarrow> supports N (hd tr) v c \<longrightarrow> voted (hd tr) v j t \<longrightarrow>
     tip c < t \<longrightarrow> (j, t, l0) \<in> camp tr \<longrightarrow> prefix c l0 \<or> (\<exists>u. tip c < u \<and> u \<le> t \<and> lacking N tr u c))"

definition quorums_ok :: "nat \<Rightarrow> net list \<Rightarrow> bool" where
  "quorums_ok N tr \<longleftrightarrow> (\<forall>c j t l0. recorded (led tr) c \<longrightarrow> tip c < t \<longrightarrow> (j, t, l0) \<in> camp tr \<longrightarrow>
     elected N (hd tr) t j \<longrightarrow> \<not> prefix c l0 \<longrightarrow>
     (\<exists>Q. Q \<subseteq> {..<N} \<and> is_majority N Q \<and> (\<forall>v \<in> Q. voted (hd tr) v j t \<and>
        (supports N (hd tr) v c \<longrightarrow> (\<exists>u. tip c < u \<and> u < t \<and> lacking N tr u c)))))"

definition complete_inv :: "nat \<Rightarrow> net list \<Rightarrow> bool" where
  "complete_inv N tr \<longleftrightarrow> line_inv N tr \<and> acks_ok tr \<and> asks_ok tr \<and> retained N tr \<and> votes_ok N tr \<and> quorums_ok N tr"

lemma complete_invD:
  assumes "complete_inv N tr"
  shows "line_inv N tr" "acks_ok tr" "asks_ok tr" "retained N tr" "votes_ok N tr" "quorums_ok N tr"
    "led_ok N tr" "one_line (led tr)" "camp_ok N tr" "requests_ok tr" "nodes_good tr"
  using assms by (simp_all add: complete_inv_def line_inv_def)

section \<open>What does not change\<close>

lemma lacking_mono: "lacking N tr u c \<Longrightarrow> tr \<noteq> [] \<Longrightarrow> step_at N (hd tr) i e n' ms t \<Longrightarrow> lacking N (t # tr) u c"
  unfolding lacking_def using camp_mono elected_mono step_at_nodes(6) by fastforce

lemma voted_term:
  assumes "base_inv N s" "voted s v j t"
  shows "t \<le> currentTerm (net_nodes s ! v)"
  using assms by (auto simp: voted_def base_inv_def vote_inv_def ask_inv_def)

lemma elected_voted:
  assumes "1 < N" "elected N s t j"
  obtains Q where "Q \<subseteq> {..<N}" "is_majority N Q" "\<And>v. v \<in> Q \<Longrightarrow> voted s v j t"
proof -
  obtain Q where "Q \<subseteq> {..<N}" "is_majority N Q" "\<forall>v \<in> Q. v = j \<or> granted s v j t"
    using assms(2) by (auto simp: elected_def)
  then show ?thesis using assms by (intro that [of Q]) (auto simp: voted_def elected_def)
qed

lemma camp_unique: "camp_ok N tr \<Longrightarrow> (j, t, l) \<in> camp tr \<Longrightarrow> (j, t, k) \<in> camp tr \<Longrightarrow> k = l"
  unfolding camp_ok_def by blast

lemma asked_camp: "asks_ok tr \<Longrightarrow> asked (hd tr) j t \<Longrightarrow> \<exists>l. (j, t, l) \<in> camp tr"
  unfolding asks_ok_def asked_def by blast

lemma recorded_leader:
  assumes "led_ok N tr" "recorded (led tr) c"
  obtains l k l0 where "(tip c, l) \<in> led tr" "prefix c l" "leader_of N (hd tr) (tip c) l k" "elected N (hd tr) (tip c) k"
    "(k, tip c, l0) \<in> camp tr" "prefix l0 l" "c \<noteq> []"
proof -
  obtain l where l: "(tip c, l) \<in> led tr" "prefix c l" "c \<noteq> []" using assms(2) by (auto simp: recorded_def)
  obtain k l0 where k: "leader_of N (hd tr) (tip c) l k" "(k, tip c, l0) \<in> camp tr" "prefix l0 l"
    by (rule led_okD [OF assms(1) l(1)])
  from k(1) have "elected N (hd tr) (tip c) k" by (simp add: leader_of_def)
  with l k show ?thesis by (intro that)
qed

lemma tip_le_term:
  assumes "log_ok t l" "prefix c l"
  shows "tip c \<le> t"
proof (cases "c = []")
  case False
  then have "last c \<in> set l" using set_mono_prefix [OF assms(2)] by auto
  with False assms(1) show ?thesis by (simp add: tip_def log_ok_def)
qed simp

lemma node_log_ok: "base_inv N s \<Longrightarrow> v < N \<Longrightarrow> log_ok (currentTerm (net_nodes s ! v)) (rlog (net_nodes s ! v))"
  by (simp add: base_inv_def net_ok_def logs_inv_def)

section \<open>A new supporter holds what it supports\<close>

lemma acknowledged_log:
  assumes led: "led_ok N tr" "one_line (led tr)" and k: "good_log (led tr) (rlog n)" and m: "msg_body m = AppendEntries a"
    and a: "accepts a n" and req: "void_request a \<or> (\<exists>l. (ae_term a, l) \<in> led tr \<and> carries a l)"
    and sound: "sound_acks (Recv m) n"
  obtains l where "(ae_term a, l) \<in> led tr"
    "prefix (append_spec (ae_prevLogIndex a) (ae_entries a) (rlog n)) l"
proof -
  let ?k = "append_spec (ae_prevLogIndex a) (ae_entries a) (rlog n)"
  obtain l where l: "(ae_term a, l) \<in> led tr" "carries a l" "?k = (if prefix l (rlog n) then rlog n else l)"
    using accepted_log [OF led k a, of "\<lambda>_. True"] req by auto
  show ?thesis
  proof (cases "prefix l (rlog n) \<and> l \<noteq> rlog n")
    case False
    with l show ?thesis by (intro that [of l]) auto
  next
    case True
    then obtain d where d: "rlog n = l @ d" "d \<noteq> []" by (auto simp: prefix_def)
    have "ae_prevLogIndex a + length (ae_entries a) = length l" using l(2) by (simp add: carries_def)
    then have "last d \<in> set (drop (ae_prevLogIndex a + length (ae_entries a)) ?k)"
      using True l(3) d by simp
    then have "tip (rlog n) = ae_term a" using sound_tail [OF sound m a] d by (simp add: tip_def)
    moreover have "recorded (led tr) (rlog n)" using k d by (simp add: good_log_def)
    ultimately show ?thesis using True l(3) by (auto simp: recorded_def intro: that)
  qed
qed

lemma support_step:
  assumes inv: "complete_inv N tr" and tr: "tr \<noteq> []" "1 < N" and st: "step_at N (hd tr) i e n' ms t"
    and c: "recorded (led (t # tr)) c" and sup: "supports N t v c"
  shows "(recorded (led tr) c \<and> supports N (hd tr) v c) \<or> (v = i \<and> prefix c (rlog n') \<and> tip c = currentTerm n')"
proof -
  note n = step_at_nodes [OF st] and D = complete_invD [OF inv]
  have base: "base_inv N t" using st by (simp add: step_at_def)
  have uniq: "elected N t u j \<Longrightarrow> elected N t u j' \<Longrightarrow> j = j'" for u j j'
    using base elected_unique by (auto simp: base_inv_def)
  have sender: "msg_from m = i" if "m \<in> set ms" for m
    using node_step_sends [OF n(7) that] st by (auto simp: step_at_def base_inv_def net_ok_def node_ok_def)
  show ?thesis
  proof (cases "recorded (led tr) c")
    case True
    obtain l k where l: "(tip c, l) \<in> led tr" "prefix c l" "elected N (hd tr) (tip c) k"
      by (rule recorded_leader [OF D(7) True])
    show ?thesis
    proof (cases "supports N (hd tr) v c")
      case False
      have "k = v" if "elected N t (tip c) v" using uniq [OF that elected_mono [OF l(3) n(6)]] by simp
      then have "acked t v (tip c) (length c)" using sup False l(3) by (auto simp: supports_def)
      then obtain m r where m: "m \<in> set ms" "msg_from m = v" "msg_body m = AppendReply r" "aer_success r"
          "aer_term r = tip c" "length c \<le> aer_matchIndex r"
        using False st unfolding acked_def supports_def step_at_def by blast
      obtain m0 a where a: "e = Recv m0" "msg_body m0 = AppendEntries a" "accepts a (net_nodes (hd tr) ! i)"
          "aer_term r = ae_term a" "aer_matchIndex r = length (rlog n')" "currentTerm n' = ae_term a"
          "rlog n' = append_spec (ae_prevLogIndex a) (ae_entries a) (rlog (net_nodes (hd tr) ! i))"
        by (rule node_step_acks [OF n(7) m(1,3,4)])
      have "m0 \<in> sent (hd tr)" "sound_acks (Recv m0) (net_nodes (hd tr) ! i)" using st a(1) by (simp_all add: step_at_def)
      moreover have "good_log (led tr) (rlog (net_nodes (hd tr) ! i))" using D(11) n(1,4) by (simp add: nodes_good_nth)
      ultimately obtain l' where l': "(tip c, l') \<in> led tr" "prefix (rlog n') l'"
        using acknowledged_log [OF D(7,8) _ a(2,3)] D(10) a(2,4,7) m(5) unfolding requests_ok_def by metis
      have "comparable l l'" using D(8) l(1) l'(1) by (auto simp: one_line_def)
      then have "comparable c (rlog n')" using l(2) l'(2) by (rule comparable_prefixes)
      then have "prefix c (rlog n')" using m(6) a(5) by (intro comparable_length) simp_all
      with m(2,5) a(4,6) sender [OF m(1)] show ?thesis by simp
    qed (simp add: True)
  next
    case False
    then have lead: "role n' = Leader" "tip c = currentTerm n'" "prefix c (rlog n')"
      using c led_step [OF st tr(1)] by (auto simp: recorded_def split: if_splits)
    note new = new_led [OF D(1) tr st lead(1)]
    have "v = i"
    proof (cases "elected N t (tip c) v")
      case True
      then show ?thesis using new(1) lead(2) uniq by (auto simp: leader_of_def)
    next
      case no: False
      then obtain m r where m: "m \<in> sent t" "msg_from m = v" "msg_body m = AppendReply r" "aer_success r"
          "aer_term r = tip c" "length c \<le> aer_matchIndex r"
        using sup by (auto simp: supports_def acked_def)
      have "m \<notin> sent (hd tr)"
      proof
        assume "m \<in> sent (hd tr)"
        then obtain l where l: "(tip c, l) \<in> led tr" "length c \<le> length l"
          using D(2) m(3-6) unfolding acks_ok_def by (metis order_trans)
        have "prefix l (rlog n')" using new(4) l(1) lead(2) by simp
        then have "comparable c l" using lead(3) comparable_prefixes [of "rlog n'" "rlog n'"] by (simp add: comparable_def)
        then have "prefix c l" using l(2) by (rule comparable_length)
        with l(1) False c show False by (auto simp: recorded_def)
      qed
      then have "m \<in> set ms" using m(1) st by (simp add: step_at_def)
      with sender m(2) show ?thesis by auto
    qed
    with lead show ?thesis by simp
  qed
qed

section \<open>What is kept\<close>

lemma acks_ok_step:
  assumes inv: "complete_inv N tr" and tr: "tr \<noteq> []" and st: "step_at N (hd tr) i e n' ms t"
  shows "acks_ok (t # tr)"
  unfolding acks_ok_def
proof (intro ballI allI impI)
  fix m r assume m: "m \<in> sent (hd (t # tr))" "msg_body m = AppendReply r" "aer_success r"
  note n = step_at_nodes [OF st] and D = complete_invD [OF inv]
  show "\<exists>l. (aer_term r, l) \<in> led (t # tr) \<and> aer_matchIndex r \<le> length l"
  proof (cases "m \<in> sent (hd tr)")
    case True
    with D(2) m(2,3) led_mono show ?thesis unfolding acks_ok_def by blast
  next
    case False
    then have ms: "m \<in> set ms" using m(1) st by (simp add: step_at_def)
    obtain m0 a where a: "e = Recv m0" "msg_body m0 = AppendEntries a" "accepts a (net_nodes (hd tr) ! i)"
        "aer_term r = ae_term a" "aer_matchIndex r = length (rlog n')"
        "rlog n' = append_spec (ae_prevLogIndex a) (ae_entries a) (rlog (net_nodes (hd tr) ! i))"
      by (rule node_step_acks [OF n(7) ms m(2,3)])
    have here: "m0 \<in> sent (hd tr)" "sound_acks (Recv m0) (net_nodes (hd tr) ! i)" using st a(1) by (simp_all add: step_at_def)
    have good: "good_log (led tr) (rlog (net_nodes (hd tr) ! i))" using D(11) n(1,4) by (simp add: nodes_good_nth)
    have "void_request a \<or> (\<exists>l. (ae_term a, l) \<in> led tr \<and> carries a l)"
      using D(10) here(1) a(2) by (simp add: requests_ok_def)
    from acknowledged_log [OF D(7,8) good a(2,3) this here(2)]
    obtain l where l: "(ae_term a, l) \<in> led tr" "prefix (append_spec (ae_prevLogIndex a) (ae_entries a) (rlog (net_nodes (hd tr) ! i))) l" .
    from l a(4,5,6) led_mono show ?thesis by (auto dest: prefix_length_le)
  qed
qed

lemma asks_ok_step:
  assumes inv: "complete_inv N tr" and tr: "tr \<noteq> []" and st: "step_at N (hd tr) i e n' ms t"
  shows "asks_ok (t # tr)"
proof -
  note n = step_at_nodes [OF st] and D = complete_invD [OF inv]
  have sender: "msg_from m = i" if "m \<in> set ms" for m
    using node_step_sends [OF n(7) that] st by (auto simp: step_at_def base_inv_def net_ok_def node_ok_def)
  have A: "\<exists>l. (msg_from m, rv_term a, l) \<in> camp (t # tr) \<and> length l = rv_lastLogIndex a \<and> tip l = rv_lastLogTerm a"
    if m: "m \<in> sent t" "msg_body m = RequestVote a" for m a
  proof (cases "m \<in> sent (hd tr)")
    case True
    with D(3) m(2) camp_mono show ?thesis unfolding asks_ok_def by blast
  next
    case False
    then have ms: "m \<in> set ms" using m(1) st by (simp add: step_at_def)
    have "role n' = Candidate" "rlog n' = rlog (net_nodes (hd tr) ! i)" "rv_lastLogIndex a = length (rlog n')"
        "rv_lastLogTerm a = tip (rlog n')" "rv_term a = currentTerm n'"
      using node_step_campaign_log [OF n(7) ms m(2)] node_step_asks [OF n(7) ms m(2)] by (simp_all add: lastLogTerm_tip)
    with sender [OF ms] camp_step [OF st tr] show ?thesis by auto
  qed
  have B: "asked t j u" if g: "granted t v j u" for v j u
  proof (cases "granted (hd tr) v j u")
    case True
    then have "asked (hd tr) j u" using D(3) unfolding asks_ok_def by blast
    with n(6) show ?thesis by (auto simp: asked_def)
  next
    case False
    then obtain m where m: "m \<in> set ms" "msg_to m = j" "msg_body m = VoteReply \<lparr>rvr_term = u, rvr_granted = True\<rparr>"
      using g st by (auto simp: granted_def step_at_def)
    obtain m0 a where a: "e = Recv m0" "msg_body m0 = RequestVote a" "msg_to m = msg_from m0" "rv_term a = u"
      by (rule node_step_grant_log [OF n(7) m(1,3)]) simp_all
    have "m0 \<in> sent (hd tr)" using st a(1) by (simp add: step_at_def)
    with a m n(6) show ?thesis by (auto simp: asked_def)
  qed
  from A B show ?thesis unfolding asks_ok_def by simp
qed

lemma retained_step:
  assumes inv: "complete_inv N tr" and tr: "tr \<noteq> []" "1 < N" and st: "step_at N (hd tr) i e n' ms t"
  shows "retained N (t # tr)"
  unfolding retained_def
proof (intro allI impI)
  fix c v assume c: "recorded (led (t # tr)) c" "v < N" "supports N (hd (t # tr)) v c"
  note n = step_at_nodes [OF st] and D = complete_invD [OF inv]
  let ?n = "net_nodes (hd tr) ! i"
  let ?goal = "prefix c (rlog (net_nodes t ! v)) \<or>
     (\<exists>u. tip c < u \<and> u \<le> currentTerm (net_nodes t ! v) \<and> lacking N (t # tr) u c)"
  have sup: "supports N t v c" using c(3) by simp
  from support_step [OF inv tr st c(1) sup] have ?goal
  proof
    assume "v = i \<and> prefix c (rlog n') \<and> tip c = currentTerm n'"
    with n(3) show ?thesis by simp
  next
    assume old: "recorded (led tr) c \<and> supports N (hd tr) v c"
    then consider (held) "prefix c (rlog (net_nodes (hd tr) ! v))"
      | (lost) u where "tip c < u" "u \<le> currentTerm (net_nodes (hd tr) ! v)" "lacking N tr u c"
      using D(4) c(2) unfolding retained_def by blast
    then show ?thesis
    proof cases
      case lost
      with n(8) [of v] lacking_mono [OF lost(3) tr(1) st] show ?thesis by (auto intro: order_trans)
    next
      case held
      show ?thesis
      proof (cases "v = i")
        case False
        with held n(5) show ?thesis by simp
      next
        case True
        from n(7) show ?thesis
        proof (cases rule: node_step_rlog)
          case (accepted m a)
          have "m \<in> sent (hd tr)" using st accepted(1) by (simp add: step_at_def)
          then have req: "void_request a \<or> (\<exists>l. (ae_term a, l) \<in> led tr \<and> carries a l \<and> True)"
            using D(10) accepted(2) by (auto simp: requests_ok_def)
          have good: "good_log (led tr) (rlog ?n)" using D(11) n(1,4) by (simp add: nodes_good_nth)
          obtain l where l: "(ae_term a, l) \<in> led tr" "rlog n' = (if prefix l (rlog ?n) then rlog ?n else l)"
            by (rule accepted_log [OF D(7,8) good accepted(3) req]) (use accepted(4) in auto)
          have "base_inv N (hd tr)" using st by (simp add: step_at_def)
          then have "tip c \<le> currentTerm ?n" using tip_le_term [OF node_log_ok] held True n(4) by blast
          then have le: "tip c \<le> ae_term a" using accepted(3) by (simp add: accepts_def)
          show ?thesis
          proof (cases "prefix l (rlog ?n)")
            case True
            with l held n(3) \<open>v = i\<close> show ?thesis by simp
          next
            case no: False
            show ?thesis
            proof (cases "tip c = ae_term a")
              case True
              obtain k where k: "(tip c, k) \<in> led tr" "prefix c k" using old by (auto simp: recorded_def)
              have "comparable k l" using D(8) k(1) l(1) True by (auto simp: one_line_def)
              then have "comparable c l" using k(2) by (rule comparable_prefixes) simp
              moreover have "\<not> prefix l c" using no held \<open>v = i\<close> prefix_order.trans by blast
              ultimately show ?thesis using l(2) no n(3) \<open>v = i\<close> by (simp add: comparable_def)
            next
              case False
              obtain k l0 where k: "leader_of N (hd tr) (ae_term a) l k" "(k, ae_term a, l0) \<in> camp tr" "prefix l0 l"
                by (rule led_okD [OF D(7) l(1)])
              show ?thesis
              proof (cases "prefix c l0")
                case True
                then have "prefix c l" using k(3) by (rule prefix_order.trans)
                with l(2) no n(3) \<open>v = i\<close> show ?thesis by simp
              next
                case lacks: False
                then have "lacking N tr (ae_term a) c" using k by (auto simp: lacking_def leader_of_def)
                from lacking_mono [OF this tr(1) st] show ?thesis
                  using le False accepted(5) n(3) \<open>v = i\<close> by (auto intro!: exI [of _ "ae_term a"])
              qed
            qed
          qed
        qed (use held True n(3) in auto)
      qed
    qed
  qed
  then show "prefix c (rlog (net_nodes (hd (t # tr)) ! v)) \<or>
     (\<exists>u. tip c < u \<and> u \<le> currentTerm (net_nodes (hd (t # tr)) ! v) \<and> lacking N (t # tr) u c)" by simp
qed

section \<open>Votes\<close>

text \<open>
  A voter that holds \<open>c\<close> grants its vote to nobody who lacks it, unless the candidate's last
  term has already had a leader who lacked it.
\<close>

lemma up_to_date_keeps:
  assumes inv: "complete_inv N tr" and c: "recorded (led tr) c" "prefix c (rlog n)"
    and n: "good_log (led tr) (rlog n)" "sorted (map le_term (rlog n))"
    and l0: "(j, t, l0) \<in> camp tr" and up: "candidateLogUpToDate (length l0) (tip l0) n"
  shows "prefix c l0 \<or> (\<exists>u. tip c < u \<and> u \<le> t \<and> lacking N tr u c)"
proof -
  note D = complete_invD [OF inv]
  have ne: "c \<noteq> []" "rlog n \<noteq> []" using c by (auto simp: recorded_def)
  have tips: "tip c \<le> tip (rlog n)" using n(2) c(2) by (rule tip_prefix_le)
  have entry: "good_log (led tr) l0" "\<forall>x \<in> set l0. le_term x < t"
    using D(9) l0 by (auto simp: camp_ok_def camp_entry_ok_def)
  have "recorded (led tr) (rlog n)" using n(1) ne(2) by (simp add: good_log_def)
  show ?thesis
  proof (cases "tip l0 = tip (rlog n)")
    case True
    then have len: "length (rlog n) \<le> length l0"
      using up by (simp add: candidateLogUpToDate_def lastLogTerm_tip lastLogIndex_def)
    then have "recorded (led tr) l0" using entry(1) ne(2) by (auto simp: good_log_def)
    with \<open>recorded (led tr) (rlog n)\<close> True have "comparable (rlog n) l0"
      using recorded_comparable [OF D(8)] by metis
    then have "prefix (rlog n) l0" using len by (rule comparable_length)
    with c(2) show ?thesis using prefix_order.trans by blast
  next
    case False
    then have gt: "tip (rlog n) < tip l0"
      using up by (simp add: candidateLogUpToDate_def lastLogTerm_tip)
    then have l0ne: "l0 \<noteq> []" by auto
    then have "recorded (led tr) l0" using entry(1) by (simp add: good_log_def)
    then obtain l k l00 where l: "prefix l0 l" "elected N (hd tr) (tip l0) k" "(k, tip l0, l00) \<in> camp tr" "prefix l00 l"
      by (elim recorded_leader [OF D(7)])
    show ?thesis
    proof (cases "prefix c l00")
      case True
      then have "comparable c l0" using l(1,4) prefix_order.trans prefix_same_cases unfolding comparable_def by blast
      moreover have "\<not> prefix l0 c"
      proof
        assume "prefix l0 c"
        moreover have "sorted (map le_term c)" using n(2) c(2) by (auto simp: prefix_def sorted_append)
        ultimately have "tip l0 \<le> tip c" by (intro tip_prefix_le)
        with gt tips show False by simp
      qed
      ultimately show ?thesis by (simp add: comparable_def)
    next
      case no: False
      have "tip l0 < t" using entry(2) l0ne by (simp add: tip_def)
      moreover have "lacking N tr (tip l0) c" using l no by (auto simp: lacking_def)
      ultimately show ?thesis using gt tips by (intro disjI2 exI [of _ "tip l0"]) simp
    qed
  qed
qed

text \<open>After a step, with the leaders that lacked \<open>c\<close> already before it.\<close>

lemma new_votes:
  assumes inv: "complete_inv N tr" and tr: "tr \<noteq> []" "1 < N" and st: "step_at N (hd tr) i e n' ms t"
    and c: "recorded (led (t # tr)) c" "v < N" "supports N t v c"
    and vote: "voted t v j u" "tip c < u" "(j, u, l0) \<in> camp (t # tr)"
  shows "recorded (led tr) c" "supports N (hd tr) v c"
    "prefix c l0 \<or> (\<exists>w. tip c < w \<and> w \<le> u \<and> lacking N tr w c)"
proof -
  note n = step_at_nodes [OF st] and D = complete_invD [OF inv]
  let ?s = "hd tr" let ?n = "net_nodes (hd tr) ! i"
  have base: "base_inv N ?s" "base_inv N t" using st by (simp_all add: step_at_def)
  have "u \<le> currentTerm (net_nodes t ! v)" using voted_term [OF base(2) vote(1)] .
  then have "\<not> (v = i \<and> prefix c (rlog n') \<and> tip c = currentTerm n')" using vote(2) n(3) by auto
  then have sup: "recorded (led tr) c \<and> supports N ?s v c" using support_step [OF inv tr st c(1,3)] by blast
  then show "recorded (led tr) c" "supports N (hd tr) v c" by simp_all
  have camps: "camp_ok N (t # tr)" using camp_ok_step [OF D(1) tr st] .
  have known: "(j, u, l0) \<in> camp tr" if "(j, u, l1) \<in> camp tr" for l1
  proof -
    have "(j, u, l1) \<in> camp (t # tr)" using that camp_mono by blast
    with that show ?thesis using camp_unique [OF camps vote(3)] by blast
  qed
  have here: "prefix c (rlog (net_nodes ?s ! v)) \<or> (\<exists>w. tip c < w \<and> w \<le> currentTerm (net_nodes ?s ! v) \<and> lacking N tr w c)"
    using D(4) sup c(2) unfolding retained_def by blast
  have i: "good_log (led tr) (rlog ?n)" "sorted (map le_term (rlog ?n))"
    using D(11) n(1,4) node_log_ok [OF base(1) n(4)] by (simp_all add: nodes_good_nth log_ok_def)
  show "prefix c l0 \<or> (\<exists>w. tip c < w \<and> w \<le> u \<and> lacking N tr w c)"
  proof (cases "voted ?s v j u")
    case True
    then have "asked ?s j u" using D(3) by (auto simp: voted_def asks_ok_def)
    then have "(j, u, l0) \<in> camp tr" using asked_camp [OF D(3)] known by blast
    then show ?thesis using D(5) sup c(2) True vote(2) unfolding votes_ok_def by blast
  next
    case new: False
    have sender: "msg_from m = i" if "m \<in> set ms" for m
      using node_step_sends [OF n(7) that] st by (auto simp: step_at_def base_inv_def net_ok_def node_ok_def)
    show ?thesis
    proof (cases "granted t v j u")
      case True
      then obtain m where m: "m \<in> set ms" "msg_from m = v" "msg_to m = j" "msg_body m = VoteReply \<lparr>rvr_term = u, rvr_granted = True\<rparr>"
        using new st by (auto simp: voted_def granted_def step_at_def)
      have v: "v = i" using sender m by simp
      have "rvr_granted \<lparr>rvr_term = u, rvr_granted = True\<rparr>" by simp
      from node_step_grant_log [OF n(7) m(1,4) this]
      obtain m0 a where g: "e = Recv m0" "msg_body m0 = RequestVote a" "msg_to m = msg_from m0"
          "rvr_term \<lparr>rvr_term = u, rvr_granted = True\<rparr> = rv_term a" "currentTerm n' = rv_term a"
          "candidateLogUpToDate (rv_lastLogIndex a) (rv_lastLogTerm a) ?n" by blast
      then have a: "e = Recv m0" "msg_body m0 = RequestVote a" "msg_from m0 = j" "rv_term a = u" "currentTerm n' = u"
          "candidateLogUpToDate (rv_lastLogIndex a) (rv_lastLogTerm a) ?n"
        using m(3) by simp_all
      have "m0 \<in> sent ?s" using st a(1) by (simp add: step_at_def)
      then obtain l1 where l1: "(j, u, l1) \<in> camp tr" "length l1 = rv_lastLogIndex a" "tip l1 = rv_lastLogTerm a"
        using D(3) a unfolding asks_ok_def by blast
      then have l0: "(j, u, l0) \<in> camp tr" "l1 = l0" using known camp_unique [OF D(9)] by blast+
      from here show ?thesis
      proof
        assume "prefix c (rlog (net_nodes ?s ! v))"
        then show ?thesis
          using up_to_date_keeps [OF inv _ _ i l0(1)] sup v a(6) l1 l0(2) by simp
      next
        assume "\<exists>w. tip c < w \<and> w \<le> currentTerm (net_nodes ?s ! v) \<and> lacking N tr w c"
        then show ?thesis using n(8) [of i] n(3) v a(5) by (auto intro: order_trans)
      qed
    next
      case False
      then have ask: "v = j" "asked t j u" "\<not> asked ?s j u" using vote(1) new by (auto simp: voted_def)
      then obtain m a where m: "m \<in> set ms" "msg_from m = j" "msg_body m = RequestVote a" "rv_term a = u"
        using st by (auto simp: asked_def step_at_def)
      have j: "j = i" using sender m by simp
      have r: "role n' = Candidate" "rlog n' = rlog ?n" "u = currentTerm n'" "currentTerm n' = currentTerm ?n + 1"
        using node_step_campaign_log [OF n(7) m(1,3)] node_step_asks [OF n(7) m(1,3)] m(4) by simp_all
      have "(j, u, rlog n') \<in> camp (t # tr)" using camp_step [OF st tr(1)] r j by simp
      then have "l0 = rlog ?n" using camp_unique [OF camps vote(3)] r(2) by simp
      with here ask(1) j r show ?thesis by auto
    qed
  qed
qed

lemma votes_ok_step:
  assumes "complete_inv N tr" "tr \<noteq> []" "1 < N" and st: "step_at N (hd tr) i e n' ms t"
  shows "votes_ok N (t # tr)"
  unfolding votes_ok_def
proof (intro allI impI)
  fix c v j u l0
  assume "recorded (led (t # tr)) c" "v < N" "supports N (hd (t # tr)) v c" "voted (hd (t # tr)) v j u"
    "tip c < u" "(j, u, l0) \<in> camp (t # tr)"
  with new_votes(3) [OF assms] have "prefix c l0 \<or> (\<exists>w. tip c < w \<and> w \<le> u \<and> lacking N tr w c)" by simp
  then show "prefix c l0 \<or> (\<exists>w. tip c < w \<and> w \<le> u \<and> lacking N (t # tr) w c)"
    using lacking_mono [OF _ assms(2) st] by blast
qed

lemma quorums_ok_step:
  assumes inv: "complete_inv N tr" and tr: "tr \<noteq> []" "1 < N" and st: "step_at N (hd tr) i e n' ms t"
  shows "quorums_ok N (t # tr)"
  unfolding quorums_ok_def
proof (intro allI impI)
  fix c j u l0
  assume c: "recorded (led (t # tr)) c" and u: "tip c < u" and l0: "(j, u, l0) \<in> camp (t # tr)"
    and el: "elected N (hd (t # tr)) u j" and no: "\<not> prefix c l0"
  note n = step_at_nodes [OF st] and D = complete_invD [OF inv]
  let ?s = "hd tr"
  have base: "base_inv N t" using st by (simp add: step_at_def)
  have up: "voted ?s v j u \<Longrightarrow> voted t v j u" for v using n(6) by (auto simp: voted_def granted_def asked_def)
  show "\<exists>Q \<subseteq> {..<N}. is_majority N Q \<and> (\<forall>v \<in> Q. voted (hd (t # tr)) v j u \<and>
      (supports N (hd (t # tr)) v c \<longrightarrow> (\<exists>w. tip c < w \<and> w < u \<and> lacking N (t # tr) w c)))"
  proof (cases "elected N ?s u j \<and> recorded (led tr) c")
    case True
    have "asked ?s j u" using True tr(2) by (simp add: elected_def)
    then obtain l1 where l1: "(j, u, l1) \<in> camp tr" using asked_camp [OF D(3)] by blast
    have "(j, u, l1) \<in> camp (t # tr)" using l1 camp_mono by blast
    then have "(j, u, l0) \<in> camp tr" using camp_unique [OF camp_ok_step [OF D(1) tr st] l0] l1 by simp
    then obtain Q where Q: "Q \<subseteq> {..<N}" "is_majority N Q" "\<And>v. v \<in> Q \<Longrightarrow> voted ?s v j u"
        "\<And>v. v \<in> Q \<Longrightarrow> supports N ?s v c \<Longrightarrow> \<exists>w. tip c < w \<and> w < u \<and> lacking N tr w c"
      using D(6) True u no unfolding quorums_ok_def by metis
    have "\<exists>w. tip c < w \<and> w < u \<and> lacking N (t # tr) w c" if v: "v \<in> Q" "supports N t v c" for v
    proof -
      have "supports N ?s v c" using new_votes(2) [OF inv tr st c _ v(2) up u l0] v(1) Q(1,3) by blast
      with Q(4) v(1) lacking_mono [OF _ tr(1) st] show ?thesis by blast
    qed
    with Q(1-3) up show ?thesis by (intro exI [of _ Q]) simp
  next
    case False
    have elt: "elected N t u j" using el by simp
    obtain Q where Q: "Q \<subseteq> {..<N}" "is_majority N Q" "\<And>v. v \<in> Q \<Longrightarrow> voted t v j u"
      using elected_voted [OF tr(2) elt] by metis
    have "\<exists>w. tip c < w \<and> w < u \<and> lacking N (t # tr) w c" if v: "v \<in> Q" "supports N t v c" for v
    proof -
      have vN: "v < N" using v(1) Q(1) by blast
      note new = new_votes [OF inv tr st c vN v(2) Q(3) [OF v(1)] u l0]
      from new(3) no obtain w where w: "tip c < w" "w \<le> u" "lacking N tr w c" by blast
      have "w \<noteq> u"
      proof
        assume "w = u"
        with w(3) obtain j' where j': "elected N ?s u j'" by (auto simp: lacking_def)
        have "j' = j" using elected_unique [of t N u j' j] elected_mono [OF j' n(6)] elt base by (simp add: base_inv_def)
        with j' False new(1) show False by simp
      qed
      with w lacking_mono [OF w(3) tr(1) st] show ?thesis by (intro exI [of _ w]) simp
    qed
    with Q show ?thesis by (intro exI [of _ Q]) simp
  qed
qed

section \<open>Leader completeness\<close>

lemma complete_inv_step:
  assumes "complete_inv N tr" "tr \<noteq> []" "1 < N" "step_at N (hd tr) i e n' ms t"
  shows "complete_inv N (t # tr)"
  unfolding complete_inv_def
  using line_inv_step [OF complete_invD(1) [OF assms(1)] assms(2-)] acks_ok_step [OF assms(1,2,4)] asks_ok_step [OF assms(1,2,4)]
    retained_step [OF assms] votes_ok_step [OF assms] quorums_ok_step [OF assms] by blast

lemma complete_inv_init: "complete_inv N [net_init N]"
  unfolding complete_inv_def
  by (intro conjI line_inv_init)
    (auto simp: acks_ok_def asks_ok_def retained_def votes_ok_def quorums_ok_def recorded_def led_def granted_def
      net_init_def New_def NewNode_def)

text \<open>What a majority supports is in the campaign log of every later leader.\<close>

lemma later_leader_holds:
  assumes inv: "complete_inv N tr" and N: "1 < N" and c: "recorded (led tr) c"
    and Q: "Q \<subseteq> {..<N}" "is_majority N Q" "\<And>v. v \<in> Q \<Longrightarrow> supports N (hd tr) v c"
  shows "tip c < t \<Longrightarrow> (j, t, l0) \<in> camp tr \<Longrightarrow> elected N (hd tr) t j \<Longrightarrow> prefix c l0"
proof (induction t arbitrary: j l0 rule: less_induct)
  case (less t)
  show ?case
  proof (rule ccontr)
    assume no: "\<not> prefix c l0"
    obtain P where P: "P \<subseteq> {..<N}" "is_majority N P"
        "\<And>v. v \<in> P \<Longrightarrow> supports N (hd tr) v c \<Longrightarrow> \<exists>u. tip c < u \<and> u < t \<and> lacking N tr u c"
      using complete_invD(6) [OF inv] c less.prems no unfolding quorums_ok_def by metis
    obtain v where v: "v \<in> Q" "v \<in> P" using majorities.quorum_meet [OF Q(1) P(1) Q(2) P(2)] by blast
    obtain u where u: "tip c < u" "u < t" "lacking N tr u c" using P(3) [OF v(2) Q(3) [OF v(1)]] by blast
    then show False using less.IH [OF u(2,1)] by (auto simp: lacking_def)
  qed
qed

end
