(* ===== verification/Raft_Commit.thy ===== *)
theory Raft_Commit
  imports Raft_Completeness
begin

text \<open>
  Commitment. Where acknowledgements are sound, what a leader commits is supported by a majority,
  what a follower commits its leader had committed, and no node ever loses a committed entry; so
  the committed entries of any two nodes, at any two times, are prefixes of one sequence.
\<close>

section \<open>Chosen logs\<close>

definition chosen :: "nat \<Rightarrow> net list \<Rightarrow> LogEntry list \<Rightarrow> bool" where
  "chosen N tr c \<longleftrightarrow> recorded (led tr) c \<and>
     (\<exists>Q. Q \<subseteq> {..<N} \<and> is_majority N Q \<and> (\<forall>v \<in> Q. supports N (hd tr) v c))"

text \<open>The first \<open>k\<close> entries of a log held in term \<open>t\<close> are part of a chosen log of no later term.\<close>

definition covered :: "nat \<Rightarrow> net list \<Rightarrow> nat \<Rightarrow> LogEntry list \<Rightarrow> nat \<Rightarrow> bool" where
  "covered N tr t l k \<longleftrightarrow> k \<le> length l \<and> (0 < k \<longrightarrow> (\<exists>c. chosen N tr c \<and> tip c \<le> t \<and> prefix (take k l) c))"

definition commit_ok :: "nat \<Rightarrow> net list \<Rightarrow> bool" where
  "commit_ok N tr \<longleftrightarrow> (\<forall>i < N. covered N tr (currentTerm (net_nodes (hd tr) ! i)) (rlog (net_nodes (hd tr) ! i))
     (commitIndex (net_nodes (hd tr) ! i)))"

definition match_ok :: "nat \<Rightarrow> net list \<Rightarrow> bool" where
  "match_ok N tr \<longleftrightarrow> (\<forall>i < N. role (net_nodes (hd tr) ! i) = Leader \<longrightarrow>
     (\<forall>p. 0 < go_get (matchIndex (net_nodes (hd tr) ! i)) p \<longrightarrow>
        acked (hd tr) p (currentTerm (net_nodes (hd tr) ! i)) (go_get (matchIndex (net_nodes (hd tr) ! i)) p)))"

definition carry_ok :: "nat \<Rightarrow> net list \<Rightarrow> bool" where
  "carry_ok N tr \<longleftrightarrow> (\<forall>m \<in> sent (hd tr). \<forall>a. msg_body m = AppendEntries a \<longrightarrow> void_request a \<or>
     (\<exists>l. (ae_term a, l) \<in> led tr \<and> carries a l \<and> covered N tr (ae_term a) l (ae_leaderCommit a)))"

definition commit_inv :: "nat \<Rightarrow> net list \<Rightarrow> bool" where
  "commit_inv N tr \<longleftrightarrow> complete_inv N tr \<and> match_ok N tr \<and> commit_ok N tr \<and> carry_ok N tr"

lemma commit_invD:
  assumes "commit_inv N tr"
  shows "complete_inv N tr" "match_ok N tr" "commit_ok N tr" "carry_ok N tr"
  using assms by (simp_all add: commit_inv_def)

lemma acked_mono: "acked s v t k \<Longrightarrow> sent s \<subseteq> sent s' \<Longrightarrow> acked s' v t k"
  unfolding acked_def by blast

lemma supports_mono: "supports N s v c \<Longrightarrow> sent s \<subseteq> sent s' \<Longrightarrow> supports N s' v c"
  unfolding supports_def using acked_mono elected_mono by blast

lemma chosen_mono:
  assumes "chosen N tr c" "step_at N (hd tr) i e n' ms t"
  shows "chosen N (t # tr) c"
proof -
  obtain Q where Q: "recorded (led tr) c" "Q \<subseteq> {..<N}" "is_majority N Q" "\<And>v. v \<in> Q \<Longrightarrow> supports N (hd tr) v c"
    using assms(1) unfolding chosen_def by blast
  have "supports N t v c" if "v \<in> Q" for v
    using Q(4) [OF that] step_at_nodes(6) [OF assms(2)] by (rule supports_mono)
  moreover have "recorded (led (t # tr)) c" using Q(1) led_mono by (rule recorded_mono)
  ultimately show ?thesis unfolding chosen_def using Q(2,3) by (intro conjI exI [of _ Q]) simp_all
qed

lemma covered_mono:
  "covered N tr u l k \<Longrightarrow> step_at N (hd tr) i e n' ms t \<Longrightarrow> u \<le> u' \<Longrightarrow> covered N (t # tr) u' l k"
  unfolding covered_def using chosen_mono by (meson order_trans)

lemma covered_prefix: "covered N tr u l k \<Longrightarrow> prefix l l' \<Longrightarrow> covered N tr u l' k"
  by (auto simp: covered_def prefix_def)

text \<open>A chosen log is in every log of a leader of a later term, and on the line of its own.\<close>

lemma chosen_led:
  assumes inv: "complete_inv N tr" and N: "1 < N" and c: "chosen N tr c" and l: "(t, l) \<in> led tr" "tip c \<le> t"
  shows "prefix c l \<or> (tip c = t \<and> prefix l c)"
proof (cases "tip c = t")
  case True
  obtain k where k: "(tip c, k) \<in> led tr" "prefix c k" using c by (auto simp: chosen_def recorded_def)
  have "comparable k l" using complete_invD(8) [OF inv] k(1) l(1) True by (auto simp: one_line_def)
  then have "comparable c l" using k(2) by (rule comparable_prefixes) simp
  with True show ?thesis by (auto simp: comparable_def)
next
  case False
  obtain j l0 where j: "leader_of N (hd tr) t l j" "(j, t, l0) \<in> camp tr" "prefix l0 l"
    by (rule led_okD [OF complete_invD(7) [OF inv] l(1)])
  obtain Q where Q: "recorded (led tr) c" "Q \<subseteq> {..<N}" "is_majority N Q" "\<And>v. v \<in> Q \<Longrightarrow> supports N (hd tr) v c"
    using c unfolding chosen_def by blast
  have "prefix c l0"
    using later_leader_holds [OF inv N Q(1,2,3,4) _ j(2)] False l(2) j(1) by (simp add: leader_of_def)
  then show ?thesis using j(3) prefix_order.trans by blast
qed

text \<open>Two chosen logs are on one line.\<close>

lemma chosen_comparable:
  assumes inv: "complete_inv N tr" and N: "1 < N" and "chosen N tr c" "chosen N tr d"
  shows "comparable c d"
proof -
  have *: "comparable c d" if c: "chosen N tr c" and d: "chosen N tr d" and le: "tip c \<le> tip d" for c d
  proof -
    obtain l where l: "(tip d, l) \<in> led tr" "prefix d l" using d by (auto simp: chosen_def recorded_def)
    from chosen_led [OF inv N c l(1) le] have "comparable c l" by (auto simp: comparable_def)
    then show ?thesis using _ l(2) by (rule comparable_prefixes) simp
  qed
  from *[of c d] *[of d c] assms(3,4) show ?thesis by (cases "tip c \<le> tip d") (auto simp: comparable_def)
qed

section \<open>Commitment is kept\<close>

lemma match_ok_step:
  assumes inv: "commit_inv N tr" and st: "step_at N (hd tr) i e n' ms t"
  shows "match_ok N (t # tr)"
proof -
  note n = step_at_nodes [OF st]
  let ?s = "hd tr" let ?n = "net_nodes (hd tr) ! i"
  have old: "acked t p (currentTerm (net_nodes ?s ! j)) (go_get (matchIndex (net_nodes ?s ! j)) p)"
    if "j < N" "role (net_nodes ?s ! j) = Leader" "0 < go_get (matchIndex (net_nodes ?s ! j)) p" for j p
    using commit_invD(2) [OF inv] that n(6) by (auto simp: match_ok_def intro: acked_mono)
  have "acked t p (currentTerm n') (go_get (matchIndex n') p)"
    if lead: "role n' = Leader" and pos: "0 < go_get (matchIndex n') p" for p
  proof -
    have same: "currentTerm n' = currentTerm ?n" using node_step_leads [OF n(7) lead] by simp
    from node_step_match [OF n(7) lead, of p] pos consider
      (kept) "role ?n = Leader" "go_get (matchIndex n') p = go_get (matchIndex ?n) p"
      | (counted) m r where "e = Recv m" "msg_from m = p" "msg_body m = AppendReply r" "aer_success r" "role ?n = Leader"
          "aer_term r \<le> currentTerm ?n" "go_get (matchIndex n') p = aer_matchIndex r"
      by (metis less_irrefl)
    then show ?thesis
    proof cases
      case kept
      with old [OF n(4), of p] pos same show ?thesis by simp
    next
      case (counted m r)
      have "currentTerm ?n \<le> aer_term r" "m \<in> sent ?s"
        using st counted(1,3,4,5) by (simp_all add: step_at_def sound_acks_def)
      with counted same n(6) show ?thesis by (auto simp: acked_def)
    qed
  qed
  with old n(3,5) show ?thesis unfolding match_ok_def list.sel by metis
qed

text \<open>The log of the node that acts keeps what was committed of it.\<close>

lemma covered_log_step:
  assumes inv: "commit_inv N tr" and tr: "tr \<noteq> []" "1 < N" and st: "step_at N (hd tr) i e n' ms t"
  shows "covered N tr (currentTerm n') (rlog n') (commitIndex (net_nodes (hd tr) ! i))"
proof -
  note n = step_at_nodes [OF st] and C = commit_invD(1) [OF inv] and D = complete_invD [OF commit_invD(1) [OF inv]]
  let ?n = "net_nodes (hd tr) ! i" let ?k = "commitIndex (net_nodes (hd tr) ! i)"
  have old: "covered N tr (currentTerm ?n) (rlog ?n) ?k" using commit_invD(3) [OF inv] n(4) by (simp add: commit_ok_def)
  have mono: "currentTerm ?n \<le> currentTerm n'" using n(8) [of i] n(3) by simp
  have up: "covered N tr (currentTerm n') l ?k" if "covered N tr (currentTerm ?n) l ?k" for l
    using that mono unfolding covered_def by (meson order_trans)
  from n(7) show ?thesis
  proof (cases rule: node_step_rlog)
    case kept
    with up [OF old] show ?thesis by simp
  next
    case (created x)
    then show ?thesis using covered_prefix [OF up [OF old]] by simp
  next
    case (accepted m a)
    have req: "void_request a \<or> (\<exists>l. (ae_term a, l) \<in> led tr \<and> carries a l \<and> True)"
      using D(10) accepted(1,2) st by (auto simp: requests_ok_def step_at_def)
    have good: "good_log (led tr) (rlog ?n)" using D(11) n(1,4) by (simp add: nodes_good_nth)
    obtain l where l: "(ae_term a, l) \<in> led tr" "rlog n' = (if prefix l (rlog ?n) then rlog ?n else l)"
      by (rule accepted_log [OF D(7,8) good accepted(3) req]) (use accepted(4) in auto)
    show ?thesis
    proof (cases "prefix l (rlog ?n) \<or> ?k = 0")
      case True
      with up [OF old] l(2) show ?thesis by (auto simp: covered_def)
    next
      case False
      then obtain c where c: "chosen N tr c" "tip c \<le> currentTerm ?n" "prefix (take ?k (rlog ?n)) c"
        using old by (auto simp: covered_def)
      have le: "tip c \<le> ae_term a" using c(2) accepted(3) by (simp add: accepts_def)
      have "\<not> prefix l (take ?k (rlog ?n))" using False prefix_order.trans [OF _ take_is_prefix] by blast
      then have "prefix (take ?k (rlog ?n)) l"
        using chosen_led [OF C tr(2) c(1) l(1) le] c(3) prefix_same_cases prefix_order.trans by blast
      moreover have "?k \<le> length (rlog ?n)" using old by (simp add: covered_def)
      ultimately have "take ?k l = take ?k (rlog ?n)" "?k \<le> length l" by (auto simp: prefix_def min_def dest: arg_cong [where f = length])
      with c l(2) False mono show ?thesis by (auto simp: covered_def intro!: exI [of _ c])
    qed
  qed
qed

text \<open>What a leader commits is chosen.\<close>

lemma advanced_chosen:
  assumes inv: "commit_inv N tr" and tr: "tr \<noteq> []" "1 < N" and st: "step_at N (hd tr) i e n' ms t"
    and lead: "role n' = Leader" and k: "0 < k" "k \<le> length (rlog n')" "le_term (rlog n' ! (k - 1)) = currentTerm n'"
      "majority n' \<le> replica_count n' k"
  shows "chosen N (t # tr) (take k (rlog n'))" "tip (take k (rlog n')) = currentTerm n'"
proof -
  note n = step_at_nodes [OF st] and D = complete_invD [OF commit_invD(1) [OF inv]]
  note new = new_led [OF D(1) tr st lead]
  let ?c = "take k (rlog n')"
  show tipc: "tip ?c = currentTerm n'" using k by (simp add: tip_take)
  have len: "length ?c = k" using k by simp
  have ok: "node_ok N i n'" using st n(3) by (auto simp: step_at_def base_inv_def net_ok_def)
  let ?P = "filter (\<lambda>p. k \<le> go_get (matchIndex n') p) (peers n')"
  define Q where "Q = insert i (set ?P)"
  have peers: "i \<notin> set ?P" "distinct ?P" "set ?P \<subseteq> {..<N}" using ok by (auto simp: node_ok_def)
  have "card (set ?P) = length ?P" using peers(2) by (rule distinct_card)
  with peers(1) have "card Q = replica_count n' k" by (simp only: Q_def replica_count_def card_insert_disjoint finite_set not_False_eq_True Suc_eq_plus1_left)
  then have "is_majority N Q" using k(4) majority_node_ok [OF ok n(4)] by (simp add: is_majority_def)
  moreover have "Q \<subseteq> {..<N}" using peers n(4) by (auto simp: Q_def)
  moreover have "supports N t v ?c" if "v \<in> Q" for v
  proof (cases "v = i")
    case True
    then show ?thesis using new(1) tipc by (simp add: supports_def leader_of_def)
  next
    case False
    then have v: "k \<le> go_get (matchIndex n') v" using that by (simp add: Q_def)
    have "acked t v (currentTerm n') (go_get (matchIndex n') v)"
      using match_ok_step [OF inv st] lead n(3,4) v k(1) by (auto simp: match_ok_def)
    then show ?thesis using v tipc len by (auto simp: supports_def acked_def)
  qed
  moreover have "recorded (led (t # tr)) ?c" using new(5) k(1,2) by (rule recorded_take)
  ultimately show "chosen N (t # tr) ?c" unfolding chosen_def by auto
qed

lemma commit_ok_step:
  assumes inv: "commit_inv N tr" and tr: "tr \<noteq> []" "1 < N" and st: "step_at N (hd tr) i e n' ms t"
  shows "commit_ok N (t # tr)"
proof -
  note n = step_at_nodes [OF st] and D = complete_invD [OF commit_invD(1) [OF inv]]
  let ?n = "net_nodes (hd tr) ! i"
  have old: "covered N (t # tr) (currentTerm (net_nodes (hd tr) ! j)) (rlog (net_nodes (hd tr) ! j)) (commitIndex (net_nodes (hd tr) ! j))"
    if "j < N" for j
    by (rule covered_mono [OF _ st order_refl]) (use commit_invD(3) [OF inv] that in \<open>simp add: commit_ok_def\<close>)
  from n(7) have "covered N (t # tr) (currentTerm n') (rlog n') (commitIndex n')"
  proof (cases rule: node_step_commit)
    case kept
    with covered_mono [OF covered_log_step [OF inv tr st] st] show ?thesis by simp
  next
    case (followed m a)
    have req: "void_request a \<or> (\<exists>l. (ae_term a, l) \<in> led tr \<and> carries a l \<and> covered N tr (ae_term a) l (ae_leaderCommit a))"
      using commit_invD(4) [OF inv] followed(1,2) st by (auto simp: carry_ok_def step_at_def)
    have good: "good_log (led tr) (rlog ?n)" using D(11) n(1,4) by (simp add: nodes_good_nth)
    obtain l where l: "covered N tr (ae_term a) l (ae_leaderCommit a)" "rlog n' = (if prefix l (rlog ?n) then rlog ?n else l)"
      by (rule accepted_log [OF D(7,8) good followed(3) req]) (use followed(7) in auto)
    then have "prefix l (rlog n')" by simp
    then have "covered N tr (ae_term a) (rlog n') (ae_leaderCommit a)" using covered_prefix [OF l(1)] by simp
    then have "covered N tr (currentTerm n') (rlog n') (commitIndex n')"
      using followed(5,6) by (simp add: covered_def)
    then show ?thesis using st by (rule covered_mono) simp
  next
    case advanced
    have pos: "0 < commitIndex n'" using advanced(2) by simp
    note c = advanced_chosen [OF inv tr st advanced(1) pos advanced(3-5)]
    with advanced(3) show ?thesis unfolding covered_def
      by (intro conjI impI exI [of _ "take (commitIndex n') (rlog n')"]) simp_all
  qed
  with old n(3,5) show ?thesis unfolding commit_ok_def list.sel by metis
qed

lemma carry_ok_step:
  assumes inv: "commit_inv N tr" and tr: "tr \<noteq> []" "1 < N" and st: "step_at N (hd tr) i e n' ms t"
  shows "carry_ok N (t # tr)"
  unfolding carry_ok_def
proof (intro ballI allI impI)
  fix m a assume m: "m \<in> sent (hd (t # tr))" "msg_body m = AppendEntries a"
  note n = step_at_nodes [OF st]
  show "void_request a \<or> (\<exists>l. (ae_term a, l) \<in> led (t # tr) \<and> carries a l \<and> covered N (t # tr) (ae_term a) l (ae_leaderCommit a))"
  proof (cases "m \<in> sent (hd tr)")
    case True
    then have "void_request a \<or> (\<exists>l. (ae_term a, l) \<in> led tr \<and> carries a l \<and> covered N tr (ae_term a) l (ae_leaderCommit a))"
      using commit_invD(4) [OF inv] m(2) by (simp add: carry_ok_def)
    then show ?thesis using led_mono covered_mono [OF _ st] by blast
  next
    case False
    then have "m \<in> set ms" using m(1) st by (simp add: step_at_def)
    with node_step_sends_append [OF n(7) _ m(2)]
    obtain p where p: "role n' = Leader" "sendAppendEntries p n' = Some m" by blast
    have "covered N (t # tr) (currentTerm n') (rlog n') (commitIndex n')"
      using commit_ok_step [OF inv tr st] n(3,4) by (auto simp: commit_ok_def)
    then show ?thesis using send_carries [OF p(2) m(2)] led_step [OF st tr(1)] p(1) by auto
  qed
qed

lemma commit_inv_step:
  assumes "commit_inv N tr" "tr \<noteq> []" "1 < N" "step_at N (hd tr) i e n' ms t"
  shows "commit_inv N (t # tr)"
  unfolding commit_inv_def
  using complete_inv_step [OF commit_invD(1) [OF assms(1)] assms(2-)] match_ok_step [OF assms(1,4)] commit_ok_step [OF assms]
    carry_ok_step [OF assms] by blast

lemma commit_inv_init: "commit_inv N [net_init N]"
  unfolding commit_inv_def
  by (intro conjI complete_inv_init)
    (auto simp: match_ok_def commit_ok_def carry_ok_def covered_def net_init_def New_def NewNode_def)

interpretation commits: invariant_system "trace_init N" "trace_step sound_acks"
  "\<lambda>tr. tr \<noteq> [] \<and> base_inv N (hd tr) \<and> (1 < N \<longrightarrow> commit_inv N tr)" for N
proof
  fix tr assume "trace_init N tr"
  then show "tr \<noteq> [] \<and> base_inv N (hd tr) \<and> (1 < N \<longrightarrow> commit_inv N tr)"
    using base_inv_init commit_inv_init by simp
next
  fix tr tr' assume inv: "tr \<noteq> [] \<and> base_inv N (hd tr) \<and> (1 < N \<longrightarrow> commit_inv N tr)" and "trace_step sound_acks tr tr'"
  then obtain t where t: "net_step sound_acks (hd tr) t" "tr' = t # tr" by (auto simp: trace_step_def)
  obtain i e n' ms where st: "step_at N (hd tr) i e n' ms t" by (rule step_atI [OF t(1)]) (use inv in auto)
  show "tr' \<noteq> [] \<and> base_inv N (hd tr') \<and> (1 < N \<longrightarrow> commit_inv N tr')"
    using inv commit_inv_step [OF _ _ _ st] st t(2) by (auto simp: step_at_def)
qed

end
