(* ===== verification/Raft_Safety.thy ===== *)
theory Raft_Safety
  imports Raft_Commit Raft_Properties Raft_Log_Properties
begin

text \<open>
  The properties of commitment for runs of the cluster with its mailboxes, partitions and faults:
  leader completeness and state machine safety where acknowledgements are sound. The two
  counterexample schedules of \<open>Raft_Properties\<close> show that neither half of that condition can go.
\<close>

section \<open>Runs and traces\<close>

lemma cluster_run_trace:
  assumes "cluster_run es c = Some c'" and "sim c (hd tr)" and "trace_reach N tr" and "schedule_adm sound_acks es c"
  shows "\<exists>tr'. trace_reach N tr' \<and> sim c' (hd tr') \<and> suffix tr tr'"
  using assms
proof (induction es arbitrary: c tr)
  case Nil
  then show ?case by auto
next
  case (Cons e es)
  then obtain c1 where c1: "cluster_step e c = Some c1" "cluster_run es c1 = Some c'"
      "event_adm sound_acks e c" "schedule_adm sound_acks es c1"
    by (auto split: option.splits)
  have ne: "tr \<noteq> []" using commits.reach_inv [OF Cons.prems(3)] by simp
  from cluster_step_sim [OF c1(1) Cons.prems(2) restricts_sound c1(3)]
  obtain tr1 where tr1: "trace_reach N tr1" "sim c1 (hd tr1)" "suffix tr tr1"
  proof
    assume "sim c1 (hd tr)"
    with Cons.prems(3) that show thesis by blast
  next
    assume "\<exists>s'. net_step sound_acks (hd tr) s' \<and> sim c1 s'"
    then obtain s' where s': "net_step sound_acks (hd tr) s'" "sim c1 s'" by blast
    then have "trace_step sound_acks tr (s' # tr)" using ne by (simp add: trace_step_def)
    with Cons.prems(3) have "trace_reach N (s' # tr)" by (rule reach_step)
    with s'(2) show thesis by (intro that [of "s' # tr"]) (simp_all add: suffix_ConsI)
  qed
  from Cons.IH [OF c1(2) tr1(2,1) c1(4)] tr1(3) show ?case using suffix_order.trans by blast
qed

text \<open>A trace that extends another was reached from it: what was chosen, and who led, remains.\<close>

lemma led_suffix: "suffix tr tr' \<Longrightarrow> led tr \<subseteq> led tr'"
  unfolding led_def using set_mono_suffix by fastforce

lemma trace_past:
  "trace_reach N tr' \<Longrightarrow> suffix tr tr' \<Longrightarrow> tr \<noteq> [] \<Longrightarrow> sent (hd tr) \<subseteq> sent (hd tr')"
proof (induction arbitrary: tr rule: reach.induct)
  case (reach_init s)
  then show ?case by (auto simp: suffix_Cons)
next
  case (reach_step s u)
  then obtain t where t: "u = t # s" "net_step sound_acks (hd s) t" "s \<noteq> []" by (auto simp: trace_step_def)
  show ?case
  proof (cases "tr = u")
    case False
    then have "suffix tr s" using reach_step.prems(1) t(1) by (simp add: suffix_Cons)
    then have "sent (hd tr) \<subseteq> sent (hd s)" using reach_step.IH reach_step.prems(2) by simp
    also have "\<dots> \<subseteq> sent t" by (rule net_step_sent [OF t(2)])
    finally show ?thesis using t(1) by simp
  qed simp
qed

lemma chosen_suffix:
  assumes "trace_reach N tr'" "suffix tr tr'" "tr \<noteq> []" "chosen N tr c"
  shows "chosen N tr' c"
proof -
  obtain Q where Q: "recorded (led tr) c" "Q \<subseteq> {..<N}" "is_majority N Q" "\<And>v. v \<in> Q \<Longrightarrow> supports N (hd tr) v c"
    using assms(4) unfolding chosen_def by blast
  have "supports N (hd tr') v c" if "v \<in> Q" for v
    using Q(4) [OF that] trace_past [OF assms(1-3)] by (rule supports_mono)
  moreover have "recorded (led tr') c" using Q(1) led_suffix [OF assms(2)] by (rule recorded_mono)
  ultimately show ?thesis unfolding chosen_def using Q(2,3) by (intro conjI exI [of _ Q]) simp_all
qed

section \<open>A cluster of one node\<close>

text \<open>It has no peers, so nothing is ever sent, nobody is elected and nothing is committed.\<close>

definition alone_inv :: "nat \<Rightarrow> net \<Rightarrow> bool" where
  "alone_inv N s \<longleftrightarrow> (N \<le> 1 \<longrightarrow> sent s = {} \<and>
     (\<forall>n \<in> set (net_nodes s). commitIndex n = 0 \<and> role n \<noteq> Leader))"

lemma alone_inv_step:
  assumes ok: "net_ok N s" and inv: "alone_inv N s" and step: "net_step adm s t"
  shows "alone_inv N t"
  using step
proof (cases rule: net_step_cases)
  case (acts i e n' ms)
  show ?thesis
  proof (cases "N \<le> 1")
    case True
    let ?n = "net_nodes s ! i"
    have s: "sent s = {}" "commitIndex ?n = 0" "role ?n \<noteq> Leader" using inv acts(1) True by (auto simp: alone_inv_def)
    have "N = 1" "i = 0" using acts(1) ok True by (auto simp: net_ok_def)
    then have peers: "peers ?n = []" using ok by (auto simp: net_ok_def node_ok_def)
    have quiet: "e \<noteq> Recv m" for m using acts(2) s(1) by auto
    have ms: "ms = []"
    proof (rule ccontr)
      assume "ms \<noteq> []"
      then obtain m where "m \<in> set ms" by (cases ms) auto
      from node_step_sends [OF acts(4) this] peers quiet show False by auto
    qed
    have "role n' \<noteq> Leader \<and> commitIndex n' = 0" using acts(4)
    proof (cases rule: node_step_cases)
      case election
      then have "n' = fst (startElection (?n\<lparr>timerArmed := False\<rparr>))" by (metis fst_conv)
      then show ?thesis using s by (simp add: startElection_sel)
    next
      case (command cmd ok)
      from command(2) s show ?thesis by (cases rule: SubmitCommand_cases) auto
    qed (use s quiet in \<open>auto simp: Kill_def Restart_def IsLeader_def\<close>)
    with inv s(1) ms show ?thesis
      by (auto simp: alone_inv_def acts(5) dest!: set_update_subset_insert [THEN subsetD])
  qed (simp add: alone_inv_def)
qed

interpretation alone: relative_invariant "\<lambda>s. s = net_init N" "net_step adm" "net_ok N" "alone_inv N" for N adm
proof unfold_locales
  show "alone_inv N s" if "s = net_init N" for s
    using that by (auto simp: alone_inv_def net_init_def New_def NewNode_def)
qed (rule alone_inv_step)

section \<open>Properties\<close>

definition committed :: "node \<Rightarrow> LogEntry list" where
  "committed n = take (commitIndex n) (rlog n)"

lemma committed_chosen:
  assumes "trace_reach N tr" "1 < N" "i < N" "committed (net_nodes (hd tr) ! i) \<noteq> []"
  obtains c where "chosen N tr c" "tip c \<le> currentTerm (net_nodes (hd tr) ! i)" "prefix (committed (net_nodes (hd tr) ! i)) c"
proof -
  have "commit_inv N tr" using commits.reach_inv [OF assms(1)] assms(2) by simp
  then have "covered N tr (currentTerm (net_nodes (hd tr) ! i)) (rlog (net_nodes (hd tr) ! i)) (commitIndex (net_nodes (hd tr) ! i))"
    using assms(3) by (simp add: commit_inv_def commit_ok_def)
  then show ?thesis using assms(4) that by (auto simp: covered_def committed_def)
qed

text \<open>Two times of a run, as a trace and one that extends it.\<close>

lemma two_times:
  assumes "cluster_run es (New N) = Some c" and "schedule_adm sound_acks es (New N)"
    and "cluster_run es' c = Some c'" and "schedule_adm sound_acks es' c"
  obtains tr tr' where "trace_reach N tr" "trace_reach N tr'" "suffix tr tr'" "tr \<noteq> []"
    "net_nodes (hd tr) = cl_nodes c" "net_nodes (hd tr') = cl_nodes c'"
proof -
  have "trace_reach N [net_init N]" by (rule reach_init) simp
  with cluster_run_trace [OF assms(1) _ _ assms(2), of "[net_init N]"] sim_init
  obtain tr where tr: "trace_reach N tr" "sim c (hd tr)" by auto
  from cluster_run_trace [OF assms(3) tr(2,1) assms(4)]
  obtain tr' where "trace_reach N tr'" "sim c' (hd tr')" "suffix tr tr'" by blast
  with tr commits.reach_inv [OF tr(1)] show ?thesis by (intro that [of tr tr']) (simp_all add: sim_def)
qed

text \<open>What a cluster with a single node commits.\<close>

lemma alone_commits_nothing:
  assumes "cluster_run es (New N) = Some c" "N \<le> 1" "i < N"
  shows "committed (cl_nodes c ! i) = []" "role (cl_nodes c ! i) \<noteq> Leader"
proof -
  obtain s where s: "net_reach any_event N s" "sim c s"
    using cluster_run_reach [OF assms(1) restricts_any schedule_any] by blast
  have "alone_inv N s" "net_ok N s" using alone.both.reach_inv [OF s(1)] by simp_all
  then show "committed (cl_nodes c ! i) = []" "role (cl_nodes c ! i) \<noteq> Leader"
    using assms(2,3) s(2) by (auto simp: alone_inv_def net_ok_def sim_def committed_def)
qed

text \<open>
  C3: Leader completeness: in a run with sound acknowledgements, whatever a node has committed by
  some time is in the log of every node that leads then or later in the same or a later term.
\<close>

theorem leader_completeness:
  assumes "cluster_run es (New N) = Some c" and "schedule_adm sound_acks es (New N)"
    and "cluster_run es' c = Some c'" and "schedule_adm sound_acks es' c"
    and "i < N" "j < N" and "role (cl_nodes c' ! j) = Leader"
    and "currentTerm (cl_nodes c ! i) \<le> currentTerm (cl_nodes c' ! j)"
  shows "prefix (committed (cl_nodes c ! i)) (rlog (cl_nodes c' ! j))"
proof (cases "1 < N \<and> committed (cl_nodes c ! i) \<noteq> []")
  case True
  obtain tr tr' where t: "trace_reach N tr" "trace_reach N tr'" "suffix tr tr'" "tr \<noteq> []"
      "net_nodes (hd tr) = cl_nodes c" "net_nodes (hd tr') = cl_nodes c'"
    by (rule two_times [OF assms(1-4)])
  obtain d where d: "chosen N tr d" "tip d \<le> currentTerm (cl_nodes c ! i)" "prefix (committed (cl_nodes c ! i)) d"
    using committed_chosen [OF t(1), of i] True assms(5) t(5) by auto
  have inv: "commit_inv N tr'" "tr' \<noteq> []" "net_ok N (hd tr')"
    using commits.reach_inv [OF t(2)] True by (simp_all add: base_inv_def)
  have lead: "(currentTerm (cl_nodes c' ! j), rlog (cl_nodes c' ! j)) \<in> led tr'"
    using ledI [of "hd tr'" tr' j] inv(2,3) t(6) assms(6,7) by (simp add: net_ok_def)
  from chosen_led [OF commit_invD(1) [OF inv(1)] _ chosen_suffix [OF t(2-4) d(1)] lead] True d(2) assms(8)
  consider "prefix d (rlog (cl_nodes c' ! j))"
    | "tip d = currentTerm (cl_nodes c' ! j)" "prefix (rlog (cl_nodes c' ! j)) d" by auto
  then show ?thesis
  proof cases
    case 1
    with d(3) show ?thesis by (rule prefix_order.trans)
  next
    case 2
    obtain l where l: "(tip d, l) \<in> led tr" "prefix d l" using d(1) by (auto simp: chosen_def recorded_def)
    have "(tip d, l) \<in> led tr'" using l(1) led_suffix [OF t(3)] by blast
    then obtain k where k: "leader_of N (hd tr') (tip d) l k"
      using led_okD [OF complete_invD(7) [OF commit_invD(1) [OF inv(1)]]] by blast
    have "base_inv N (hd tr')" using commits.reach_inv [OF t(2)] by simp
    then have "k = j"
      using elected_unique [of "hd tr'" N "tip d" k j] leader_elected [of N "hd tr'" j] k 2(1) assms(6,7) t(6)
      by (simp add: base_inv_def leader_of_def)
    with k 2(1) assms(7) t(6) have "prefix l (rlog (cl_nodes c' ! j))" by (simp add: leader_of_def)
    with l(2) d(3) show ?thesis using prefix_order.trans by blast
  qed
next
  case False
  with alone_commits_nothing(1) [OF assms(1) _ assms(5)] show ?thesis by auto
qed

text \<open>
  C2: State machine safety: in a run with sound acknowledgements the committed entries of any two
  nodes, each taken at any time of the run, are prefixes of one sequence: no two nodes ever apply
  different commands at one index.
\<close>

theorem committed_never_differ:
  assumes "cluster_run es (New N) = Some c" and "schedule_adm sound_acks es (New N)"
    and "cluster_run es' c = Some c'" and "schedule_adm sound_acks es' c" and "i < N" "j < N"
  shows "comparable (committed (cl_nodes c ! i)) (committed (cl_nodes c' ! j))"
proof (cases "1 < N \<and> committed (cl_nodes c ! i) \<noteq> [] \<and> committed (cl_nodes c' ! j) \<noteq> []")
  case True
  obtain tr tr' where t: "trace_reach N tr" "trace_reach N tr'" "suffix tr tr'" "tr \<noteq> []"
      "net_nodes (hd tr) = cl_nodes c" "net_nodes (hd tr') = cl_nodes c'"
    by (rule two_times [OF assms(1-4)])
  obtain d where d: "chosen N tr d" "prefix (committed (cl_nodes c ! i)) d"
    using committed_chosen [OF t(1), of i] True assms(5) t(5) by auto
  obtain d' where d': "chosen N tr' d'" "prefix (committed (cl_nodes c' ! j)) d'"
    using committed_chosen [OF t(2), of j] True assms(6) t(6) by auto
  have "commit_inv N tr'" using commits.reach_inv [OF t(2)] True by simp
  then have "comparable d d'"
    using chosen_comparable [OF commit_invD(1)] chosen_suffix [OF t(2-4) d(1)] d'(1) True by blast
  then show ?thesis using d(2) d'(2) by (rule comparable_prefixes)
next
  case False
  have "cluster_run (es @ es') (New N) = Some c'" using assms(1,3) by (simp add: cluster_run_append)
  then show ?thesis
    using False alone_commits_nothing(1) [OF assms(1) _ assms(5)] by (auto simp: comparable_def)
qed

text \<open>Node 0 commits x with node 1 and crashes; node 1 is elected with x in its log.\<close>

definition commit_schedule :: "cl_event list" where
  "commit_schedule = [Timeout 0, Deliver 1, Deliver 0, Submit ''x'', Deliver 1, Deliver 1, Deliver 0, Deliver 0]"

definition takeover_schedule :: "cl_event list" where
  "takeover_schedule = [KillEv 0, Deliver 2, Deliver 2, Deliver 2, Timeout 1, Deliver 2, Deliver 1, RestartEv 0]"

lemma leader_completeness_witness:
  "let c = the (cluster_run commit_schedule (New 3)); c' = the (cluster_run takeover_schedule c)
   in map commitIndex (cl_nodes c) = [1, 0, 0] \<and> map role (cl_nodes c') = [Follower, Leader, Follower] \<and>
      prefix (committed (cl_nodes c ! 0)) (rlog (cl_nodes c' ! 1))"
proof -
  let ?r = "cluster_run commit_schedule (New 3)" let ?q = "cluster_run takeover_schedule (the ?r)"
  have r: "?r \<noteq> None" "?q \<noteq> None" and adm: "schedule_adm sound_acks commit_schedule (New 3)"
      "schedule_adm sound_acks takeover_schedule (the ?r)"
    and lead: "role (cl_nodes (the ?q) ! 1) = Leader"
    and tm: "currentTerm (cl_nodes (the ?r) ! 0) \<le> currentTerm (cl_nodes (the ?q) ! 1)"
    and shape: "map commitIndex (cl_nodes (the ?r)) = [1, 0, 0]" "map role (cl_nodes (the ?q)) = [Follower, Leader, Follower]"
    by code_simp+
  have "prefix (committed (cl_nodes (the ?r) ! 0)) (rlog (cl_nodes (the ?q) ! 1))"
    by (rule leader_completeness [OF option.collapse [OF r(1), symmetric] adm(1) option.collapse [OF r(2), symmetric] adm(2)
        _ _ lead tm]) simp_all
  with shape show ?thesis by (simp add: Let_def)
qed

text \<open>Node 1 commits y after x, which node 0 had committed.\<close>

lemma committed_never_differ_witness:
  "let c = the (cluster_run commit_schedule (New 3));
       c' = the (cluster_run (takeover_schedule @ [Submit ''y'', Deliver 2, Deliver 2, Deliver 1, Deliver 1, Deliver 1]) c)
   in map (length \<circ> committed) (cl_nodes c) = [1, 0, 0] \<and> map (length \<circ> committed) (cl_nodes c') = [1, 2, 0] \<and>
      comparable (committed (cl_nodes c ! 0)) (committed (cl_nodes c' ! 1))"
proof -
  let ?es = "takeover_schedule @ [Submit ''y'', Deliver 2, Deliver 2, Deliver 1, Deliver 1, Deliver 1]"
  let ?r = "cluster_run commit_schedule (New 3)" let ?q = "cluster_run ?es (the ?r)"
  have r: "?r \<noteq> None" "?q \<noteq> None" and adm: "schedule_adm sound_acks commit_schedule (New 3)"
      "schedule_adm sound_acks ?es (the ?r)"
    and shape: "map (length \<circ> committed) (cl_nodes (the ?r)) = [1, 0, 0]" "map (length \<circ> committed) (cl_nodes (the ?q)) = [1, 2, 0]"
    by code_simp+
  have "comparable (committed (cl_nodes (the ?r) ! 0)) (committed (cl_nodes (the ?q) ! 1))"
    by (rule committed_never_differ [OF option.collapse [OF r(1), symmetric] adm(1) option.collapse [OF r(2), symmetric] adm(2)])
      simp_all
  with shape show ?thesis by (simp only: Let_def simp_thms)
qed

section \<open>Without sound acknowledgements\<close>

definition divergence_schedule :: "cl_event list" where
  "divergence_schedule = split_schedule @
     [PartitionEv [0] [1, 2], KillEv 1, Deliver 1, Deliver 1, Deliver 1, RestartEv 1, KillEv 0, RestartEv 0,
      Timeout 2, Deliver 1, Deliver 2, Deliver 2, Submit ''Y'', Deliver 1, Deliver 1, Deliver 2, Deliver 2,
      Heartbeat 2, Deliver 1, Deliver 2]"


end
