(* ===== verification/Raft_Liveness.thy ===== *)
theory Raft_Liveness
  imports Raft_Simulation
begin

text \<open>
  Election liveness: in a quiet cluster - nobody crashed, no partition, empty mailboxes - a node
  of the greatest term whose log is as up to date as all others becomes leader when its timer
  fires and half of the others answer.
\<close>

section \<open>Delivery without partition\<close>

definition open_cluster :: "nat \<Rightarrow> cluster \<Rightarrow> bool" where
  "open_cluster N c \<longleftrightarrow> partitioned c = {} \<and> length (cl_nodes c) = N \<and> length (inboxes c) = N"

lemma route_open:
  assumes "open_cluster N c" "msg_to m < N" "length (inboxes c ! msg_to m) < inbox_capacity"
  shows "\<exists>c'. route m c = Some c' \<and> open_cluster N c' \<and> cl_nodes c' = cl_nodes c \<and>
    inboxes c' = (inboxes c)[msg_to m := inboxes c ! msg_to m @ [m]]"
  using assms by (auto simp: route_def open_cluster_def Let_def)

text \<open>Messages to different nodes: each mailbox gets the one that is for it.\<close>

definition mail_for :: "nat \<Rightarrow> Message list \<Rightarrow> Message list" where
  "mail_for i ms = filter (\<lambda>m. msg_to m = i) ms"

lemma route_all_open:
  assumes "open_cluster N c" "\<And>m. m \<in> set ms \<Longrightarrow> msg_to m < N"
    and "\<And>i. i < N \<Longrightarrow> length (inboxes c ! i) + length (mail_for i ms) \<le> inbox_capacity"
  shows "\<exists>c'. route_all ms c = Some c' \<and> open_cluster N c' \<and> cl_nodes c' = cl_nodes c \<and>
    (\<forall>i < N. inboxes c' ! i = inboxes c ! i @ mail_for i ms)"
  using assms
proof (induction ms arbitrary: c)
  case Nil
  then show ?case by (auto simp: mail_for_def)
next
  case (Cons m ms)
  have m: "msg_to m < N" "length (inboxes c ! msg_to m) < inbox_capacity"
    using Cons.prems(2) [of m] Cons.prems(3) [of "msg_to m"] by (auto simp: mail_for_def)
  obtain c1 where c1: "route m c = Some c1" "open_cluster N c1" "cl_nodes c1 = cl_nodes c"
      "inboxes c1 = (inboxes c)[msg_to m := inboxes c ! msg_to m @ [m]]"
    using route_open [OF Cons.prems(1) m] by blast
  have len: "length (inboxes c) = N" using Cons.prems(1) by (simp add: open_cluster_def)
  have "\<exists>c'. route_all ms c1 = Some c' \<and> open_cluster N c' \<and> cl_nodes c' = cl_nodes c1 \<and>
    (\<forall>i < N. inboxes c' ! i = inboxes c1 ! i @ mail_for i ms)"
  proof (rule Cons.IH [OF c1(2)])
    show "msg_to m' < N" if "m' \<in> set ms" for m' using Cons.prems(2) that by simp
    show "length (inboxes c1 ! i) + length (mail_for i ms) \<le> inbox_capacity" if "i < N" for i
      using Cons.prems(3) [OF that] that len by (cases "msg_to m = i") (simp_all add: c1(4) mail_for_def)
  qed
  then obtain c' where c': "route_all ms c1 = Some c'" "open_cluster N c'" "cl_nodes c' = cl_nodes c"
      "\<And>i. i < N \<Longrightarrow> inboxes c' ! i = inboxes c1 ! i @ mail_for i ms"
    using c1(3) by auto
  have "inboxes c' ! i = inboxes c ! i @ mail_for i (m # ms)" if "i < N" for i
    using c'(4) [OF that] that len by (auto simp: c1(4) nth_list_update mail_for_def)
  with c' c1(1) show ?case by auto
qed

section \<open>A campaign\<close>

definition vote_request :: "nat \<Rightarrow> nat \<Rightarrow> node \<Rightarrow> Message" where
  "vote_request i p n = \<lparr>msg_from = i, msg_to = p,
     msg_body = RequestVote \<lparr>rv_term = currentTerm n, rv_candidate = i, rv_lastLogIndex = lastLogIndex n,
       rv_lastLogTerm = lastLogTerm n\<rparr>\<rparr>"

text \<open>The votes of the peers in \<open>ps\<close> are still to come.\<close>

definition campaigning :: "nat \<Rightarrow> nat \<Rightarrow> nat list \<Rightarrow> cluster \<Rightarrow> bool" where
  "campaigning N i ps c \<longleftrightarrow> open_cluster N c \<and> i < N \<and> distinct ps \<and> set ps \<subseteq> {..<N} - {i} \<and>
     inboxes c ! i = [] \<and> node_ok N i (cl_nodes c ! i) \<and> alive (cl_nodes c ! i) \<and> role (cl_nodes c ! i) = Candidate \<and>
     (\<exists>vs. votesReceived (cl_nodes c ! i) = Some vs \<and> set vs \<inter> set ps = {} \<and> length vs + length ps = N div 2 + 1) \<and>
     (\<forall>p \<in> set ps. node_id (cl_nodes c ! p) = p \<and> alive (cl_nodes c ! p) \<and> currentTerm (cl_nodes c ! p) < currentTerm (cl_nodes c ! i) \<and>
        candidateLogUpToDate (lastLogIndex (cl_nodes c ! i)) (lastLogTerm (cl_nodes c ! i)) (cl_nodes c ! p) \<and>
        inboxes c ! p = [vote_request i p (cl_nodes c ! i)])"

lemma candidateLogUpToDate_cong: "rlog n = rlog n' \<Longrightarrow> candidateLogUpToDate a b n = candidateLogUpToDate a b n'"
  by (simp add: candidateLogUpToDate_def lastLogIndex_def lastLogTerm_def)

lemma vote_granted:
  assumes "alive n" "rv_term a > currentTerm n" "candidateLogUpToDate (rv_lastLogIndex a) (rv_lastLogTerm a) n"
    and "msg_body m = RequestVote a"
  shows "\<exists>n'. run_inbox m n = Some (n', [\<lparr>msg_from = node_id n, msg_to = msg_from m,
      msg_body = VoteReply \<lparr>rvr_term = rv_term a, rvr_granted = True\<rparr>\<rparr>])"
proof -
  have "candidateLogUpToDate (rv_lastLogIndex a) (rv_lastLogTerm a) (maybeStepDown (rv_term a) n)"
    using assms(3) candidateLogUpToDate_cong [of "maybeStepDown (rv_term a) n" n] by simp
  with assms show ?thesis by (simp add: run_inbox_def handleMessage_def handleRequestVote_def Let_def)
qed

text \<open>A leader that has just been elected.\<close>

definition installed :: "node \<Rightarrow> bool" where
  "installed n \<longleftrightarrow> role n = Leader \<and> alive n \<and> hb_loops n \<noteq> [] \<and> nextIndex n \<noteq> None \<and> matchIndex n \<noteq> None \<and>
     (\<forall>p \<in> set (peers n). go_get (nextIndex n) p = length (rlog n) + 1 \<and> go_get (matchIndex n) p = 0)"

lemma route_all_open_kept:
  assumes "route_all ms c = Some c'" "open_cluster N c" "\<And>m. m \<in> set ms \<Longrightarrow> msg_to m \<noteq> i"
  shows "open_cluster N c' \<and> cl_nodes c' = cl_nodes c \<and> inboxes c' ! i = inboxes c ! i"
  using assms
proof (induction ms arbitrary: c)
  case (Cons m ms)
  obtain c1 where c1: "route m c = Some c1" "route_all ms c1 = Some c'" using Cons.prems(1) by (auto split: option.splits)
  have "open_cluster N c1 \<and> cl_nodes c1 = cl_nodes c \<and> inboxes c1 ! i = inboxes c ! i"
    using c1(1) Cons.prems(2) Cons.prems(3) [of m] by (auto simp: route_def open_cluster_def Let_def split: if_splits)
  with Cons.IH [OF c1(2)] Cons.prems(3) show ?case by simp
qed simp

text \<open>The next peer answers and the candidate counts its vote.\<close>

lemma vote_round:
  assumes "campaigning N i (p # ps) c"
  shows "\<exists>c'. cluster_run [Deliver p, Deliver i] c = Some c' \<and>
    currentTerm (cl_nodes c' ! i) = currentTerm (cl_nodes c ! i) \<and>
    (if ps = [] then installed (cl_nodes c' ! i) \<and> open_cluster N c' \<and> inboxes c' ! i = [] else campaigning N i ps c')"
proof -
  let ?n = "cl_nodes c ! i" and ?p = "cl_nodes c ! p"
  let ?reply = "\<lparr>msg_from = p, msg_to = i, msg_body = VoteReply \<lparr>rvr_term = currentTerm ?n, rvr_granted = True\<rparr>\<rparr>"
  obtain vs where vs: "votesReceived ?n = Some vs" "set vs \<inter> set (p # ps) = {}" "length vs + length (p # ps) = N div 2 + 1"
    using assms unfolding campaigning_def by blast
  have c: "open_cluster N c" "i < N" "p < N" "p \<noteq> i" "p \<notin> set ps" "inboxes c ! i = []" "node_ok N i ?n" "alive ?n" "role ?n = Candidate"
    "length (cl_nodes c) = N" "length (inboxes c) = N" and ps: "distinct ps" "set ps \<subseteq> {..<N} - {i}"
    using assms by (auto simp: campaigning_def open_cluster_def)
  have p: "node_id ?p = p" "alive ?p" "currentTerm ?p < currentTerm ?n"
    "candidateLogUpToDate (lastLogIndex ?n) (lastLogTerm ?n) ?p" "inboxes c ! p = [vote_request i p ?n]"
    using assms by (simp_all add: campaigning_def)
  obtain p' where p': "run_inbox (vote_request i p ?n) ?p = Some (p', [?reply])"
    using vote_granted [OF p(2), of "\<lparr>rv_term = currentTerm ?n, rv_candidate = i, rv_lastLogIndex = lastLogIndex ?n,
        rv_lastLogTerm = lastLogTerm ?n\<rparr>" "vote_request i p ?n"] p(1,3,4)
    by (auto simp: vote_request_def)
  let ?c0 = "c\<lparr>inboxes := (inboxes c)[p := []], cl_nodes := (cl_nodes c)[p := p']\<rparr>"
  have "open_cluster N ?c0" using c(1) by (simp add: open_cluster_def)
  then obtain c1 where c1: "route ?reply ?c0 = Some c1" "open_cluster N c1" "cl_nodes c1 = (cl_nodes c)[p := p']"
      "inboxes c1 = (inboxes c)[p := [], i := [?reply]]"
    using route_open [of N ?c0 ?reply] c by (auto simp: inbox_capacity_def)
  have step1: "cluster_step (Deliver p) c = Some c1"
    using c p(5) p' c1(1) by (simp add: node_ran_def)
  have i1: "cl_nodes c1 ! i = ?n" "inboxes c1 ! i = [?reply]" "length (cl_nodes c1) = N" "length (inboxes c1) = N"
    using c c1 by simp_all
  let ?n2 = "?n\<lparr>votesReceived := Some (List.insert p vs)\<rparr>"
  have ins: "length (List.insert p vs) = Suc (length vs)" using vs(2) by (auto simp: List.insert_def)
  have down: "maybeStepDown (currentTerm ?n) ?n = ?n" by (simp add: maybeStepDown_def)
  have maj: "majority ?n2 = N div 2 + 1" using majority_node_ok [OF c(7,2)] by (simp add: majority_def)
  have r: "run_inbox ?reply ?n = (if ps = [] then becomeLeader ?n2 else Some (?n2, []))"
    using c(8,9) vs ins maj down
    by (cases ps) (simp_all add: run_inbox_def handleMessage_def handleRequestVoteReply_def Let_def)
  let ?c2 = "c1\<lparr>inboxes := (inboxes c1)[i := []]\<rparr>"
  have step2: "cluster_step (Deliver i) c1 = node_ran i (run_inbox ?reply ?n) ?c2"
    using i1 c(2) by simp
  show ?thesis
  proof (cases "ps = []")
    case True
    obtain n' ms where n': "becomeLeader ?n2 = Some (n', ms)" using becomeLeader_Some by blast
    note L = becomeLeader_sel [OF n']
    let ?c3 = "?c2\<lparr>cl_nodes := (cl_nodes c1)[i := n']\<rparr>"
    have to: "msg_to m < length (inboxes ?c3) \<and> msg_to m \<noteq> i" if m: "m \<in> set ms" for m
    proof -
      obtain q where q: "q \<in> set (peers n')" "sendAppendEntries q n' = Some m" using becomeLeader_mem [OF n' m] by blast
      have "msg_to m = q" using q(2) by (auto elim!: sendAppendEntries_msg)
      with q(1) L(2) c(7) i1(4) show ?thesis by (auto simp: node_ok_def)
    qed
    obtain c' where c': "route_all ms ?c3 = Some c'" using route_all_total [of ms ?c3] to by blast
    have "open_cluster N ?c3" using c1(2) by (simp add: open_cluster_def)
    with route_all_open_kept [OF c'] to have kept: "open_cluster N c'" "cl_nodes c' = (cl_nodes c1)[i := n']" "inboxes c' ! i = []"
      using i1(4) c(2) by auto
    have "cluster_step (Deliver i) c1 = Some c'" using step2 r True n' c' by (simp add: node_ran_def)
    moreover have "installed n'" using L c(8) by (simp add: installed_def)
    ultimately show ?thesis using step1 kept L(3) i1(3) c(2) True by simp
  next
    case False
    have "cluster_step (Deliver i) c1 = Some (?c2\<lparr>cl_nodes := (cl_nodes c1)[i := ?n2]\<rparr>)" (is "_ = Some ?c'")
      using step2 r False by (simp add: node_ran_def)
    moreover have "campaigning N i ps ?c'"
    proof -
      have "open_cluster N ?c'" "inboxes ?c' ! i = []" "cl_nodes ?c' ! i = ?n2"
        using c1(2) i1 c(2) by (simp_all add: open_cluster_def)
      moreover have "node_ok N i ?n2" using c(7) by (simp add: node_ok_def)
      moreover have "set (List.insert p vs) \<inter> set ps = {}" "length (List.insert p vs) + length ps = N div 2 + 1"
        using vs c(5) ins by auto
      moreover have "lastLogIndex ?n2 = lastLogIndex ?n" "lastLogTerm ?n2 = lastLogTerm ?n" "vote_request i q ?n2 = vote_request i q ?n" for q
        by (simp_all add: lastLogIndex_def lastLogTerm_def vote_request_def)
      moreover have "cl_nodes ?c' ! q = cl_nodes c ! q \<and> inboxes ?c' ! q = inboxes c ! q" if "q \<in> set ps" for q
      proof -
        have "q \<noteq> p" "q \<noteq> i" using that ps(2) c(5) by auto
        then show ?thesis using c1(3,4) by simp
      qed
      moreover have "\<forall>q \<in> set ps. node_id (cl_nodes c ! q) = q \<and> alive (cl_nodes c ! q) \<and> currentTerm (cl_nodes c ! q) < currentTerm ?n \<and>
          candidateLogUpToDate (lastLogIndex ?n) (lastLogTerm ?n) (cl_nodes c ! q) \<and> inboxes c ! q = [vote_request i q ?n]"
        using assms by (simp add: campaigning_def)
      ultimately show ?thesis unfolding campaigning_def using ps c(2,8,9) by simp
    qed
    ultimately show ?thesis using step1 False c(2) i1(3) by (intro exI [of _ ?c']) simp
  qed
qed

definition poll :: "nat \<Rightarrow> nat list \<Rightarrow> cl_event list" where
  "poll i ps = concat (map (\<lambda>p. [Deliver p, Deliver i]) ps)"

lemma poll_elects:
  assumes "campaigning N i ps c" "ps \<noteq> []"
  shows "\<exists>c'. cluster_run (poll i ps) c = Some c' \<and> installed (cl_nodes c' ! i) \<and> open_cluster N c' \<and> inboxes c' ! i = [] \<and>
    currentTerm (cl_nodes c' ! i) = currentTerm (cl_nodes c ! i)"
  using assms
proof (induction ps arbitrary: c)
  case (Cons p ps)
  obtain c1 where c1: "cluster_run [Deliver p, Deliver i] c = Some c1" "currentTerm (cl_nodes c1 ! i) = currentTerm (cl_nodes c ! i)"
      "if ps = [] then installed (cl_nodes c1 ! i) \<and> open_cluster N c1 \<and> inboxes c1 ! i = [] else campaigning N i ps c1"
    using vote_round [OF Cons.prems(1)] by blast
  have run: "cluster_run (poll i (p # ps)) c = cluster_run (poll i ps) c1"
    using cluster_run_append [of "[Deliver p, Deliver i]" "poll i ps" c] c1(1) by (simp add: poll_def)
  show ?case
  proof (cases "ps = []")
    case True
    with c1 run show ?thesis by (simp add: poll_def)
  next
    case False
    with Cons.IH [of c1] c1(2,3) run show ?thesis by simp
  qed
qed simp

section \<open>The timer fires\<close>

definition quiet :: "nat \<Rightarrow> cluster \<Rightarrow> bool" where
  "quiet N c \<longleftrightarrow> partitioned c = {} \<and> (\<forall>i < N. inboxes c ! i = [] \<and> alive (cl_nodes c ! i))"

definition best_candidate :: "nat \<Rightarrow> nat \<Rightarrow> cluster \<Rightarrow> bool" where
  "best_candidate N i c \<longleftrightarrow> timerArmed (cl_nodes c ! i) \<and>
     (\<forall>j < N. currentTerm (cl_nodes c ! j) \<le> currentTerm (cl_nodes c ! i) \<and>
        candidateLogUpToDate (lastLogIndex (cl_nodes c ! i)) (lastLogTerm (cl_nodes c ! i)) (cl_nodes c ! j))"

lemma mail_for_requests:
  "distinct ps \<Longrightarrow> mail_for p (map (\<lambda>q. vote_request i q n) ps) = (if p \<in> set ps then [vote_request i p n] else [])"
  by (induction ps) (auto simp: mail_for_def vote_request_def)

lemma timeout_campaigns:
  assumes ok: "\<And>j. j < N \<Longrightarrow> node_ok N j (cl_nodes c ! j)" and len: "length (cl_nodes c) = N" "length (inboxes c) = N"
    and q: "quiet N c" "best_candidate N i c" "i < N" and ps: "ps = take (N div 2) (filter (\<lambda>j. j \<noteq> i) [0..<N])"
  shows "\<exists>c'. cluster_step (Timeout i) c = Some c' \<and> campaigning N i ps c' \<and>
    currentTerm (cl_nodes c' ! i) = currentTerm (cl_nodes c ! i) + 1"
proof -
  let ?n = "cl_nodes c ! i" let ?all = "filter (\<lambda>j. j \<noteq> i) [0..<N]"
  define n' where "n' = fst (startElection (?n\<lparr>timerArmed := False\<rparr>))"
  have id: "node_id ?n = i" "peers ?n = ?all" using ok [OF q(3)] by (simp_all add: node_ok_def)
  have n': "node_id n' = i" "peers n' = ?all" "currentTerm n' = currentTerm ?n + 1" "rlog n' = rlog ?n" "alive n'" "role n' = Candidate"
      "votesReceived n' = Some [i]"
    using q id by (simp_all add: n'_def startElection_sel quiet_def)
  have ms: "startElection (?n\<lparr>timerArmed := False\<rparr>) = (n', map (\<lambda>p. vote_request i p n') ?all)"
    using id by (simp add: n'_def startElection_def Let_def vote_request_def lastLogIndex_def lastLogTerm_def
        resetElectionTimer_def notifyChange_def)
  let ?c0 = "c\<lparr>cl_nodes := (cl_nodes c)[i := n']\<rparr>" and ?ms = "map (\<lambda>p. vote_request i p n') ?all"
  have "open_cluster N ?c0" using q(1) len by (simp add: open_cluster_def quiet_def)
  moreover have "msg_to m < N" if "m \<in> set ?ms" for m using that by (auto simp: vote_request_def)
  moreover have "length (inboxes ?c0 ! j) + length (mail_for j ?ms) \<le> inbox_capacity" if "j < N" for j
    using q(1) that by (simp add: mail_for_requests quiet_def inbox_capacity_def)
  ultimately obtain c' where c': "route_all ?ms ?c0 = Some c'" "open_cluster N c'" "cl_nodes c' = (cl_nodes c)[i := n']"
      "\<forall>j < N. inboxes c' ! j = inboxes c ! j @ mail_for j ?ms"
    using route_all_open [of N ?c0 ?ms] by auto
  have box: "inboxes c' ! j = (if j \<noteq> i then [vote_request i j n'] else [])" if "j < N" for j
    using c'(4) that q(1) by (simp add: mail_for_requests quiet_def)
  have step: "cluster_step (Timeout i) c = Some c'"
    using q len ms c'(1) by (simp add: best_candidate_def quiet_def run_timer_def node_ran_def)
  have sub: "set ps \<subseteq> {..<N} - {i}" using set_take_subset [of "N div 2" ?all] by (auto simp: ps)
  have lps: "length ps = N div 2" using q(3) length_others [OF q(3)] by (simp add: ps min_def) linarith
  have last: "lastLogIndex n' = lastLogIndex ?n" "lastLogTerm n' = lastLogTerm ?n"
    using n'(4) by (simp_all add: lastLogIndex_def lastLogTerm_def)
  have i: "cl_nodes c' ! i = n'" using c'(3) q(3) len by simp
  have "node_ok N i n'" using n' by (simp add: node_ok_def)
  moreover have "node_id (cl_nodes c' ! p) = p \<and> alive (cl_nodes c' ! p) \<and> currentTerm (cl_nodes c' ! p) < currentTerm n' \<and>
      candidateLogUpToDate (lastLogIndex n') (lastLogTerm n') (cl_nodes c' ! p) \<and> inboxes c' ! p = [vote_request i p n']"
    if "p \<in> set ps" for p
  proof -
    have p: "p < N" "p \<noteq> i" using that sub by auto
    have "cl_nodes c' ! p = cl_nodes c ! p" using c'(3) p by simp
    then show ?thesis
      using ok [OF p(1)] q(1,2) p box [OF p(1)] n'(3) last by (simp add: node_ok_def quiet_def best_candidate_def less_Suc_eq_le)
  qed
  moreover have "inboxes c' ! i = []" using box [OF q(3)] by simp
  moreover have "distinct ps" by (simp add: ps)
  moreover have "set [i] \<inter> set ps = {}" "length [i] + length ps = N div 2 + 1" using sub lps by auto
  ultimately have "campaigning N i ps c'"
    unfolding campaigning_def using c'(2) q(3) sub n'(5-7) unfolding i by blast
  with step c'(3) n'(3) q(3) len show ?thesis by auto
qed

lemma run_nodes_ok:
  assumes "cluster_run es (New N) = Some c"
  obtains s where "sim c s" "net_ok N s" "length (cl_nodes c) = N" "length (inboxes c) = N"
    "\<And>j. j < N \<Longrightarrow> node_ok N j (cl_nodes c ! j)"
proof -
  obtain s where s: "net_reach any_event N s" "sim c s"
    using cluster_run_reach [OF assms restricts_any schedule_any] by blast
  have "net_ok N s" using s(1) by (rule net_identity.reach_inv)
  with s(2) show ?thesis by (intro that [of s]) (auto simp: sim_def net_ok_def)
qed

definition electing :: "nat \<Rightarrow> nat \<Rightarrow> cl_event list" where
  "electing N i = Timeout i # poll i (take (N div 2) (filter (\<lambda>j. j \<noteq> i) [0..<N]))"

lemma quiet_elects:
  assumes run: "cluster_run es (New N) = Some c" and "1 < N" "i < N" and q: "quiet N c" "best_candidate N i c"
  shows "\<exists>c'. cluster_run (electing N i) c = Some c' \<and> role (cl_nodes c' ! i) = Leader \<and> alive (cl_nodes c' ! i) \<and>
    currentTerm (cl_nodes c' ! i) = currentTerm (cl_nodes c ! i) + 1"
proof -
  let ?ps = "take (N div 2) (filter (\<lambda>j. j \<noteq> i) [0..<N])"
  obtain s where ok: "length (cl_nodes c) = N" "length (inboxes c) = N" "\<And>j. j < N \<Longrightarrow> node_ok N j (cl_nodes c ! j)"
    by (rule run_nodes_ok [OF run]) blast
  obtain c1 where c1: "cluster_step (Timeout i) c = Some c1" "campaigning N i ?ps c1"
      "currentTerm (cl_nodes c1 ! i) = currentTerm (cl_nodes c ! i) + 1"
    using timeout_campaigns [OF ok(3,1,2) q assms(3) refl] by blast
  have "length (filter (\<lambda>j. j \<noteq> i) [0..<N]) = N - 1" by (rule length_others [OF assms(3)])
  then have "?ps \<noteq> []" using assms(2) by (cases "filter (\<lambda>j. j \<noteq> i) [0..<N]") auto
  from poll_elects [OF c1(2) this] c1(1,3) show ?thesis by (auto simp: electing_def installed_def)
qed

section \<open>From any state to a quiet one\<close>

text \<open>While every pair of nodes is partitioned, what is sent is dropped.\<close>

definition isolated :: "nat \<Rightarrow> cluster \<Rightarrow> bool" where
  "isolated N c \<longleftrightarrow> (\<forall>a < N. \<forall>b < N. (a, b) \<in> partitioned c)"

lemma route_all_isolated:
  assumes "isolated N c" "\<And>m. m \<in> set ms \<Longrightarrow> msg_from m < N \<and> msg_to m < N" "route_all ms c = Some c'"
  shows "isolated N c' \<and> cl_nodes c' = cl_nodes c \<and> inboxes c' = inboxes c"
  using assms
proof (induction ms arbitrary: c)
  case (Cons m ms)
  obtain c1 where c1: "route m c = Some c1" "route_all ms c1 = Some c'" using Cons.prems(3) by (auto split: option.splits)
  have "(msg_from m, msg_to m) \<in> partitioned c" using Cons.prems(1,2) by (auto simp: isolated_def)
  then have "isolated N c1" "cl_nodes c1 = cl_nodes c" "inboxes c1 = inboxes c"
    using c1(1) Cons.prems(1) by (auto simp: route_def Let_def isolated_def)
  with Cons.IH [OF _ _ c1(2)] Cons.prems(2) show ?case by auto
qed simp

lemma node_ran_isolated:
  assumes iso: "isolated N c" and sim: "sim c s" "net_ok N s" and "i < N" and e: "\<And>m. e = Recv m \<Longrightarrow> m \<in> sent s"
    and ran: "node_ran i (node_step e (cl_nodes c ! i)) c = Some c'"
  shows "isolated N c' \<and> inboxes c' = inboxes c \<and>
    (\<exists>n' ms. node_step e (cl_nodes c ! i) = Some (n', ms) \<and> cl_nodes c' = (cl_nodes c)[i := n'])"
proof -
  obtain n' ms where r: "node_step e (cl_nodes c ! i) = Some (n', ms)"
      "route_all ms (c\<lparr>cl_nodes := (cl_nodes c)[i := n']\<rparr>) = Some c'"
    using ran by (auto simp: node_ran_def split: option.splits)
  have ok: "node_ok N i (cl_nodes c ! i)" using sim assms(4) by (auto simp: sim_def net_ok_def)
  have "msg_from m < N \<and> msg_to m < N" if "m \<in> set ms" for m
    using node_step_sends [OF r(1) that] ok assms(4) e sim(2) by (auto simp: node_ok_def net_ok_def)
  moreover have "isolated N (c\<lparr>cl_nodes := (cl_nodes c)[i := n']\<rparr>)" using iso by (simp add: isolated_def)
  ultimately show ?thesis using route_all_isolated [OF _ _ r(2)] r(1) by auto
qed

text \<open>An isolated cluster empties its mailboxes.\<close>

lemma shorter_sum: "i < length xs \<Longrightarrow> xs ! i = m # rest \<Longrightarrow> sum_list (map length (xs[i := rest])) < sum_list (map length xs)"
proof (induction xs arbitrary: i)
  case (Cons x xs)
  then show ?case by (cases i) simp_all
qed simp

lemma drained:
  assumes "cluster_run es (New N) = Some c" "isolated N c"
  shows "\<exists>es' c'. cluster_run es' c = Some c' \<and> isolated N c' \<and> (\<forall>i < N. inboxes c' ! i = [])"
  using assms
proof (induction "sum_list (map length (inboxes c))" arbitrary: es c rule: less_induct)
  case less
  obtain s where ok: "sim c s" "net_ok N s" "length (cl_nodes c) = N" "length (inboxes c) = N"
    by (rule run_nodes_ok [OF less.prems(1)]) blast
  show ?case
  proof (cases "\<forall>i < N. inboxes c ! i = []")
    case True
    with less.prems(2) show ?thesis by (intro exI [of _ "[]"]) simp
  next
    case False
    then obtain i m rest where i: "i < N" "inboxes c ! i = m # rest" by (meson list.exhaust)
    obtain c1 where c1: "cluster_step (Deliver i) c = Some c1"
      using cluster_step_total [OF ok(1,2), of "Deliver i"] by (auto simp: names_nodes_def)
    let ?c0 = "c\<lparr>inboxes := (inboxes c)[i := rest]\<rparr>"
    have ran: "node_ran i (node_step (Recv m) (cl_nodes ?c0 ! i)) ?c0 = Some c1" using c1 i ok(3,4) by simp
    have iso: "isolated N ?c0" using less.prems(2) by (simp add: isolated_def)
    have sim0: "sim ?c0 s" using sim_inbox_tail [OF ok(1) _ i(2)] i(1) ok(4) by simp
    have "m \<in> sent s" using sim_sent [OF ok(1)] i ok(4) by simp
    with node_ran_isolated [OF iso sim0 ok(2) i(1) _ ran] have c1': "isolated N c1" "inboxes c1 = (inboxes c)[i := rest]" by auto
    have less': "sum_list (map length (inboxes c1)) < sum_list (map length (inboxes c))"
      unfolding c1'(2) by (rule shorter_sum) (use i ok(4) in simp_all)
    have "cluster_run (es @ [Deliver i]) (New N) = Some c1" using less.prems(1) c1 by (simp only: cluster_run_append) simp
    from less.hyps [OF less' this c1'(1)] obtain es' c' where
      "cluster_run es' c1 = Some c'" "isolated N c'" "\<forall>i < N. inboxes c' ! i = []" by blast
    with c1 show ?thesis by (intro exI [of _ "Deliver i # es'"] exI [of _ c']) simp
  qed
qed

text \<open>Every node is restarted.\<close>

lemma restarted:
  assumes "length (cl_nodes c) = N" "k \<le> N"
  shows "\<exists>c'. cluster_run (map (\<lambda>i. RestartEv (int i)) [0..<k]) c = Some c' \<and> partitioned c' = partitioned c \<and>
    inboxes c' = inboxes c \<and> length (cl_nodes c') = N \<and> (\<forall>i < k. alive (cl_nodes c' ! i) \<and> timerArmed (cl_nodes c' ! i))"
  using assms(2)
proof (induction k)
  case 0
  with assms(1) show ?case by simp
next
  case (Suc k)
  then obtain c' where c': "cluster_run (map (\<lambda>i. RestartEv (int i)) [0..<k]) c = Some c'" "partitioned c' = partitioned c"
      "inboxes c' = inboxes c" "length (cl_nodes c') = N" "\<forall>i < k. alive (cl_nodes c' ! i) \<and> timerArmed (cl_nodes c' ! i)"
    by auto
  have "cluster_step (RestartEv (int k)) c' = Some (c'\<lparr>cl_nodes := (cl_nodes c')[k := Restart (cl_nodes c' ! k)]\<rparr>)" (is "_ = Some ?d")
    using c'(4) Suc.prems by (simp add: RestartNode_def)
  then have "cluster_run (map (\<lambda>i. RestartEv (int i)) [0..<Suc k]) c = Some ?d"
    using c'(1) by (simp add: cluster_run_append)
  moreover have "alive (Restart n)" "timerArmed (Restart n)" for n
    by (simp_all add: Restart_def resetElectionTimer_def notifyChange_def)
  ultimately show ?case using c' Suc.prems by (auto simp: nth_list_update less_Suc_eq)
qed

text \<open>The timer of one node fires until its term is late enough.\<close>

lemma aged:
  assumes "cluster_run es (New N) = Some c" "isolated N c" "i < N" "alive (cl_nodes c ! i)" "timerArmed (cl_nodes c ! i)"
  shows "\<exists>c'. cluster_run (replicate k (Timeout i)) c = Some c' \<and> isolated N c' \<and> inboxes c' = inboxes c \<and>
    alive (cl_nodes c' ! i) \<and> timerArmed (cl_nodes c' ! i) \<and> rlog (cl_nodes c' ! i) = rlog (cl_nodes c ! i) \<and>
    currentTerm (cl_nodes c' ! i) = currentTerm (cl_nodes c ! i) + k \<and>
    (\<forall>j. j \<noteq> i \<longrightarrow> cl_nodes c' ! j = cl_nodes c ! j)"
proof (induction k)
  case (Suc k)
  then obtain c1 where c1: "cluster_run (replicate k (Timeout i)) c = Some c1" "isolated N c1" "inboxes c1 = inboxes c"
      "alive (cl_nodes c1 ! i)" "timerArmed (cl_nodes c1 ! i)" "rlog (cl_nodes c1 ! i) = rlog (cl_nodes c ! i)"
      "currentTerm (cl_nodes c1 ! i) = currentTerm (cl_nodes c ! i) + k" "\<forall>j. j \<noteq> i \<longrightarrow> cl_nodes c1 ! j = cl_nodes c ! j" by blast
  have run: "cluster_run (es @ replicate k (Timeout i)) (New N) = Some c1" using assms(1) c1(1) by (simp add: cluster_run_append)
  obtain s where ok: "sim c1 s" "net_ok N s" "length (cl_nodes c1) = N" by (rule run_nodes_ok [OF run]) blast
  obtain c2 where c2: "cluster_step (Timeout i) c1 = Some c2"
    using cluster_step_total [OF ok(1,2), of "Timeout i"] by (auto simp: names_nodes_def)
  then have ran: "node_ran i (node_step Timer (cl_nodes c1 ! i)) c1 = Some c2" using assms(3) ok(3) c1(5) by simp
  let ?n = "(cl_nodes c1 ! i)\<lparr>timerArmed := False\<rparr>"
  obtain n' ms where n': "node_step Timer (cl_nodes c1 ! i) = Some (n', ms)" "cl_nodes c2 = (cl_nodes c1)[i := n']"
      "isolated N c2" "inboxes c2 = inboxes c1"
    using node_ran_isolated [OF c1(2) ok(1,2) assms(3) _ ran] by auto
  have "n' = fst (startElection ?n)" using n'(1) c1(4) by (simp add: run_timer_def)
  then have "alive n'" "currentTerm n' = currentTerm (cl_nodes c1 ! i) + 1" "rlog n' = rlog (cl_nodes c1 ! i)" "timerArmed n'"
    using c1(4) by (simp_all add: startElection_sel) (simp add: startElection_def Let_def resetElectionTimer_def notifyChange_def)
  moreover have "cluster_run (replicate (Suc k) (Timeout i)) c = Some c2"
  proof -
    have e: "replicate (Suc k) (Timeout i) = replicate k (Timeout i) @ [Timeout i]" by (simp add: replicate_append_same)
    show ?thesis unfolding e cluster_run_append c1(1) using c2 by simp
  qed
  ultimately show ?case using n'(2-4) c1 assms(3) ok(3) by auto
qed (use assms in simp)

lemma best_log:
  assumes "0 < (N :: nat)"
  shows "\<exists>i < N. \<forall>j < N. candidateLogUpToDate (lastLogIndex (f i)) (lastLogTerm (f i)) (f j)"
  using assms
proof (induction N)
  case (Suc N)
  show ?case
  proof (cases "N = 0")
    case False
    then obtain i where i: "i < N" "\<forall>j < N. candidateLogUpToDate (lastLogIndex (f i)) (lastLogTerm (f i)) (f j)"
      using Suc.IH by auto
    show ?thesis
    proof (cases "candidateLogUpToDate (lastLogIndex (f i)) (lastLogTerm (f i)) (f N)")
      case True
      with i show ?thesis by (intro exI [of _ i]) (auto simp: less_Suc_eq)
    next
      case no: False
      have "candidateLogUpToDate (lastLogIndex (f N)) (lastLogTerm (f N)) (f j)" if "j < Suc N" for j
      proof (cases "j = N")
        case False
        with that i(2) have "candidateLogUpToDate (lastLogIndex (f i)) (lastLogTerm (f i)) (f j)" by simp
        with no show ?thesis by (auto simp: candidateLogUpToDate_def split: if_splits)
      qed (simp add: candidateLogUpToDate_def)
      then show ?thesis by (intro exI [of _ N]) simp
    qed
  qed (simp add: candidateLogUpToDate_def)
qed simp

lemma becomes_quiet:
  assumes run: "cluster_run es (New N) = Some c" and N: "1 < N"
  obtains es' c' i where "cluster_run es' c = Some c'" "quiet N c'" "best_candidate N i c'" "i < N"
proof -
  let ?all = "map int [0..<N]"
  define c1 where "c1 = Partition ?all ?all c"
  have s1: "cluster_run [PartitionEv ?all ?all] c = Some c1" by (simp add: c1_def)
  have "(a, b) \<in> partitioned c1" if "a < N" "b < N" for a b
    using that by (force simp: c1_def Partition_def notifySnapshot_def)
  then have iso1: "isolated N c1" by (simp add: isolated_def)
  note run1 = cluster_run_trans [OF run s1]
  obtain es2 c2 where s2: "cluster_run es2 c1 = Some c2" "isolated N c2" "\<forall>i < N. inboxes c2 ! i = []"
    using drained [OF run1 iso1] by blast
  note run2 = cluster_run_trans [OF run1 s2(1)]
  obtain s where "length (cl_nodes c2) = N" by (rule run_nodes_ok [OF run2]) blast
  from restarted [OF this order_refl] obtain c3 where s3: "cluster_run (map (\<lambda>i. RestartEv (int i)) [0..<N]) c2 = Some c3"
      "partitioned c3 = partitioned c2" "inboxes c3 = inboxes c2" "length (cl_nodes c3) = N"
      "\<forall>i < N. alive (cl_nodes c3 ! i) \<and> timerArmed (cl_nodes c3 ! i)" by blast
  have iso3: "isolated N c3" using s2(2) s3(2) by (simp add: isolated_def)
  note run3 = cluster_run_trans [OF run2 s3(1)]
  obtain i where i: "i < N" "\<forall>j < N. candidateLogUpToDate (lastLogIndex (cl_nodes c3 ! i)) (lastLogTerm (cl_nodes c3 ! i)) (cl_nodes c3 ! j)"
    using best_log [of N "\<lambda>i. cl_nodes c3 ! i"] N by auto
  define k where "k = (\<Sum>j < N. currentTerm (cl_nodes c3 ! j))"
  obtain c4 where s4: "cluster_run (replicate k (Timeout i)) c3 = Some c4" "isolated N c4" "inboxes c4 = inboxes c3"
      "alive (cl_nodes c4 ! i)" "timerArmed (cl_nodes c4 ! i)" "rlog (cl_nodes c4 ! i) = rlog (cl_nodes c3 ! i)"
      "currentTerm (cl_nodes c4 ! i) = currentTerm (cl_nodes c3 ! i) + k" "\<forall>j. j \<noteq> i \<longrightarrow> cl_nodes c4 ! j = cl_nodes c3 ! j"
    using aged [OF run3 iso3 i(1)] s3(5) i(1) by blast
  define c5 where "c5 = Heal c4"
  have "cluster_run ([PartitionEv ?all ?all] @ es2 @ map (\<lambda>i. RestartEv (int i)) [0..<N] @ replicate k (Timeout i) @ [HealEv]) c = Some c5"
    unfolding cluster_run_append s1 option.case s2(1) s3(1) s4(1) by (simp add: c5_def)
  moreover have "quiet N c5"
  proof -
    have "alive (cl_nodes c4 ! j)" if "j < N" for j using s4(4,8) s3(5) that by (cases "j = i") auto
    with s4(3) s3(3) s2(3) show ?thesis by (simp add: quiet_def c5_def Heal_def notifySnapshot_def)
  qed
  moreover have "best_candidate N i c5"
  proof -
    have last: "lastLogIndex (cl_nodes c4 ! i) = lastLogIndex (cl_nodes c3 ! i)" "lastLogTerm (cl_nodes c4 ! i) = lastLogTerm (cl_nodes c3 ! i)"
      using s4(6) by (simp_all add: lastLogIndex_def lastLogTerm_def)
    have "currentTerm (cl_nodes c4 ! j) \<le> currentTerm (cl_nodes c4 ! i)" if j: "j < N" for j
    proof (cases "j = i")
      case False
      have "currentTerm (cl_nodes c3 ! j) \<le> k" unfolding k_def using j by (intro member_le_sum) auto
      with False s4(7,8) show ?thesis by simp
    qed simp
    moreover have "candidateLogUpToDate a b (cl_nodes c4 ! j) = candidateLogUpToDate a b (cl_nodes c3 ! j)" for a b j
      using candidateLogUpToDate_cong [OF s4(6), of a b] s4(8) by (cases "j = i") simp_all
    ultimately show ?thesis using i(2) s4(5) last by (simp add: best_candidate_def c5_def Heal_def notifySnapshot_def)
  qed
  ultimately show ?thesis using i(1) by (intro that)
qed

section \<open>Properties\<close>

text \<open>
  C9: Elections succeed: in a reachable cluster of at least two nodes with nobody crashed, no
  partition and empty mailboxes, take a node of the greatest term, with a log as up to date as all
  others and its timer armed. When the timer fires and half of the other nodes, in turn, handle its
  request and it their reply, it is the live leader of the next term.
\<close>

theorem quiet_cluster_elects:
  assumes "cluster_run es (New N) = Some c" and "1 < N" "i < N" and "quiet N c" and "best_candidate N i c"
  shows "\<exists>c'. cluster_run (electing N i) c = Some c' \<and> IsLeader (cl_nodes c' ! i) \<and>
    currentTerm (cl_nodes c' ! i) = currentTerm (cl_nodes c ! i) + 1"
  using quiet_elects [OF assms] by (auto simp: IsLeader_def)

text \<open>Five nodes; node 3 has term 1 from a campaign nobody saw, and wins the next.\<close>

lemma quiet_cluster_elects_witness:
  "let c = the (cluster_run [PartitionEv [3] [0, 1, 2, 4], Timeout 3, HealEv] (New 5)) in
   electing 5 3 = [Timeout 3, Deliver 0, Deliver 3, Deliver 1, Deliver 3] \<and>
   (\<exists>c'. cluster_run (electing 5 3) c = Some c' \<and> IsLeader (cl_nodes c' ! 3) \<and> currentTerm (cl_nodes c' ! 3) = 2)"
proof -
  let ?r = "cluster_run [PartitionEv [3] [0, 1, 2, 4], Timeout 3, HealEv] (New 5)"
  have r: "?r \<noteq> None" and q: "quiet 5 (the ?r)" "best_candidate 5 3 (the ?r)" "currentTerm (cl_nodes (the ?r) ! 3) = 1"
    and es: "electing 5 3 = [Timeout 3, Deliver 0, Deliver 3, Deliver 1, Deliver 3]"
    by code_simp+
  have "\<exists>c'. cluster_run (electing 5 3) (the ?r) = Some c' \<and> IsLeader (cl_nodes c' ! 3) \<and> currentTerm (cl_nodes c' ! 3) = 2"
    by (rule quiet_cluster_elects [OF option.collapse [OF r, symmetric] _ _ q(1,2), unfolded q(3) one_add_one]) simp_all
  with es show ?thesis by (simp only: Let_def simp_thms)
qed

text \<open>
  The cluster can always recover: from every state that any schedule of deliveries, timers,
  commands, crashes, restarts and partitions can reach, there is a schedule that ends with a live
  leader. Nothing the user does can leave the simulation without a way back.
\<close>

theorem cluster_can_always_elect:
  assumes "cluster_run es (New N) = Some c" and "1 < N"
  shows "\<exists>es' c' i. cluster_run es' c = Some c' \<and> i < N \<and> IsLeader (cl_nodes c' ! i)"
proof -
  obtain es1 c1 i where q: "cluster_run es1 c = Some c1" "quiet N c1" "best_candidate N i c1" "i < N"
    by (rule becomes_quiet [OF assms])
  obtain c2 where "cluster_run (electing N i) c1 = Some c2" "role (cl_nodes c2 ! i) = Leader" "alive (cl_nodes c2 ! i)"
    using quiet_elects [OF cluster_run_trans [OF assms(1) q(1)] assms(2) q(4,2,3)] by blast
  with cluster_run_trans [OF q(1)] q(4) show ?thesis by (auto simp: IsLeader_def)
qed

text \<open>Every node crashed in the middle of a campaign, with messages in every mailbox.\<close>

lemma cluster_can_always_elect_witness:
  "let c = the (cluster_run [Timeout 0, Timeout 1, KillEv 0, KillEv 1, KillEv 2, PartitionEv [0] [1, 2]] (New 3))
   in list_ex alive (cl_nodes c) = False \<and> map length (inboxes c) = [1, 1, 2] \<and>
      (\<exists>es' c' i. cluster_run es' c = Some c' \<and> i < 3 \<and> IsLeader (cl_nodes c' ! i))"
proof -
  let ?r = "cluster_run [Timeout 0, Timeout 1, KillEv 0, KillEv 1, KillEv 2, PartitionEv [0] [1, 2]] (New 3)"
  have r: "?r \<noteq> None" and shape: "list_ex alive (cl_nodes (the ?r)) = False" "map length (inboxes (the ?r)) = [1, 1, 2]"
    by code_simp+
  have "\<exists>es' c' i. cluster_run es' (the ?r) = Some c' \<and> i < 3 \<and> IsLeader (cl_nodes c' ! i)"
    by (rule cluster_can_always_elect [OF option.collapse [OF r, symmetric]]) simp
  with shape show ?thesis by (simp only: Let_def simp_thms)
qed

end
