(* ===== verification/Raft_Service.thy ===== *)
theory Raft_Service
  imports Raft_Liveness Raft_Repair Raft_Steps
begin

text \<open>
  Service: from every reachable state a command can still be committed. A schedule is built: the
  cluster is quieted and elects (\<open>Raft_Liveness\<close>), crashing and restarting a node empties
  its mailbox, the leader takes the command, and rounds of heartbeats repair one log after the
  other (\<open>Raft_Repair\<close>) until all nodes hold it, then tell them that it is committed.
\<close>

section \<open>While an election runs, entries are old\<close>

text \<open>No term above \<open>T\<close>, and no entry of term \<open>T\<close>, in a node or in a message.\<close>

definition calm_node :: "nat \<Rightarrow> node \<Rightarrow> bool" where
  "calm_node T n \<longleftrightarrow> currentTerm n \<le> T \<and> (\<forall>e \<in> set (rlog n). le_term e < T)"

definition calm_message :: "nat \<Rightarrow> Message \<Rightarrow> bool" where
  "calm_message T m \<longleftrightarrow> rpcTerm (msg_body m) \<le> T \<and>
     (\<forall>a. msg_body m = AppendEntries a \<longrightarrow> (\<forall>e \<in> set (ae_entries a). le_term e < T))"

definition calm :: "nat \<Rightarrow> cluster \<Rightarrow> bool" where
  "calm T c \<longleftrightarrow> (\<forall>n \<in> set (cl_nodes c). calm_node T n) \<and> (\<forall>ms \<in> set (inboxes c). \<forall>m \<in> set ms. calm_message T m)"

lemma append_spec_set: "set (append_spec p es l) \<subseteq> set l \<union> set es"
  by (auto simp: append_spec_def Let_def dest: in_set_takeD in_set_dropD)

lemma append_calm:
  assumes "calm_node T n" "sendAppendEntries p n = Some m"
  shows "calm_message T m"
  using assms(2)
proof (rule sendAppendEntries_msg)
  fix a assume "msg_body m = AppendEntries a" "ae_term a = currentTerm n" "ae_entries a = drop (ae_prevLogIndex a) (rlog n)"
  with assms(1) show ?thesis by (auto simp: calm_message_def calm_node_def rpcTerm_def dest: in_set_dropD)
qed

lemma handled_calm:
  assumes "run_inbox m n = Some (n', ms)" "calm_node T n" "calm_message T m"
  shows "calm_node T n' \<and> (\<forall>m' \<in> set ms. calm_message T m')"
proof -
  have step: "node_step (Recv m) n = Some (n', ms)" using assms(1) by simp
  then show ?thesis
  proof (cases rule: node_step_cases)
    case (vote m1 a)
    then have "n' = fst (handleRequestVote (msg_from m) a n)" by (metis fst_conv node_event.inject(1))
    moreover have "\<forall>m' \<in> set ms. \<exists>r. msg_body m' = VoteReply r \<and> rvr_term r = currentTerm n'"
      using vote(4) by (auto simp: handleRequestVote_def Let_def)
    ultimately show ?thesis using assms(2,3) vote
      by (fastforce simp: calm_node_def calm_message_def handleRequestVote_sel rpcTerm_def)
  next
    case (vote_reply m1 r)
    have t: "rvr_term r \<le> T" using assms(3) vote_reply by (simp add: calm_message_def rpcTerm_def)
    from vote_reply(4) show ?thesis
    proof (cases rule: handleRequestVoteReply_cases)
      case (won n2 vs)
      have "calm_node T n2" using won(3) assms(2) by (simp add: calm_node_def)
      then have "calm_node T n'" using becomeLeader_sel [OF won(6)] by (simp add: calm_node_def)
      with becomeLeader_mem [OF won(6)] append_calm show ?thesis by blast
    qed (use assms(2) t in \<open>auto simp: calm_node_def\<close>)
  next
    case (append m1 a)
    then have n': "n' = fst (handleAppendEntries (msg_from m) a n)" by (metis fst_conv node_event.inject(1))
    have a: "ae_term a \<le> T" "\<forall>e \<in> set (ae_entries a). le_term e < T"
      using assms(3) append by (simp_all add: calm_message_def rpcTerm_def)
    have "\<forall>m' \<in> set ms. \<exists>r. msg_body m' = AppendReply r \<and> aer_term r = currentTerm n'"
      using append(4) by (auto simp: handleAppendEntries_def append_reply_def Let_def split: if_splits)
    moreover have "calm_node T n'"
      using a assms(2) append_spec_set [of "ae_prevLogIndex a" "ae_entries a" "rlog n"]
      by (auto simp: n' calm_node_def handleAppendEntries_sel handleAppendEntries_log)
    ultimately show ?thesis by (fastforce simp: calm_node_def calm_message_def rpcTerm_def)
  next
    case (append_reply m1 r)
    have "aer_term r \<le> T" using assms(3) append_reply by (simp add: calm_message_def rpcTerm_def)
    with append_reply(4) assms(2) show ?thesis
      by (cases rule: handleAppendEntriesReply_cases) (auto simp: calm_node_def)
  qed (use assms(2) in simp_all)
qed

lemma route_calm:
  assumes "route_all ms c = Some c'" "calm T c" "\<forall>m \<in> set ms. calm_message T m"
  shows "calm T c'"
  using assms
proof (induction ms arbitrary: c)
  case (Cons m ms)
  obtain c1 where c1: "route m c = Some c1" "route_all ms c1 = Some c'" using Cons.prems(1) by (auto split: option.splits)
  have box: "calm_message T m'" if "m' \<in> set (inboxes c ! i)" "i < length (inboxes c)" for m' i
    using Cons.prems(2) that by (auto simp: calm_def)
  have "calm T c1"
    using c1(1) Cons.prems(2,3) box
    by (auto simp: route_def calm_def Let_def split: if_splits dest!: set_update_subset_insert [THEN subsetD])
  with Cons.IH [OF c1(2)] Cons.prems(3) show ?case by simp
qed simp

lemma deliver_calm:
  assumes "cluster_step (Deliver i) c = Some c'" "calm T c"
  shows "calm T c'"
proof (cases "i < length (cl_nodes c) \<and> i < length (inboxes c) \<and> inboxes c ! i \<noteq> []")
  case True
  then obtain m rest where m: "inboxes c ! i = m # rest" by (cases "inboxes c ! i") auto
  let ?c0 = "c\<lparr>inboxes := (inboxes c)[i := rest]\<rparr>"
  have "node_ran i (run_inbox m (cl_nodes c ! i)) ?c0 = Some c'" using assms(1) True m by simp
  then obtain n' ms where r: "run_inbox m (cl_nodes c ! i) = Some (n', ms)" "route_all ms (?c0\<lparr>cl_nodes := (cl_nodes c)[i := n']\<rparr>) = Some c'"
    by (auto simp: node_ran_def split: option.splits)
  have box: "\<forall>m \<in> set (inboxes c ! i). calm_message T m"
    using assms(2) True unfolding calm_def by (meson nth_mem)
  have "calm_node T (cl_nodes c ! i)" using assms(2) True by (simp add: calm_def)
  with handled_calm [OF r(1)] box m have n': "calm_node T n'" "\<forall>m' \<in> set ms. calm_message T m'" by simp_all
  have "calm T (?c0\<lparr>cl_nodes := (cl_nodes c)[i := n']\<rparr>)"
    using assms(2) n'(1) box m by (auto simp: calm_def dest!: set_update_subset_insert [THEN subsetD])
  with n'(2) show ?thesis by (intro route_calm [OF r(2)])
next
  case False
  with assms show ?thesis by (auto split: if_splits)
qed

lemma poll_calm: "cluster_run (poll i ps) c = Some c' \<Longrightarrow> calm T c \<Longrightarrow> calm T c'"
proof (induction ps arbitrary: c)
  case (Cons p ps)
  then show ?case
    by (auto simp: poll_def simp del: cluster_step.simps split: option.splits) (metis deliver_calm)
qed (simp add: poll_def)

lemma timeout_calm:
  assumes "cluster_step (Timeout i) c = Some c'" "calm T c" "currentTerm (cl_nodes c ! i) < T"
  shows "calm T c'"
proof (cases "i < length (cl_nodes c) \<and> timerArmed (cl_nodes c ! i)")
  case True
  then obtain n' ms where r: "node_step Timer (cl_nodes c ! i) = Some (n', ms)" "route_all ms (c\<lparr>cl_nodes := (cl_nodes c)[i := n']\<rparr>) = Some c'"
    using assms(1) by (auto simp: node_ran_def split: option.splits)
  have "calm_node T (cl_nodes c ! i)" using assms(2) True by (simp add: calm_def)
  with r(1) assms(3) have n': "calm_node T n'" "\<forall>m \<in> set ms. calm_message T m"
    by (auto simp: run_timer_def startElection_def Let_def calm_node_def calm_message_def rpcTerm_def split: if_splits)
  have "calm T (c\<lparr>cl_nodes := (cl_nodes c)[i := n']\<rparr>)"
    using assms(2) n'(1) by (auto simp: calm_def dest!: set_update_subset_insert [THEN subsetD])
  with n'(2) show ?thesis by (intro route_calm [OF r(2)])
next
  case False
  with assms show ?thesis by auto
qed

lemma quiet_installs:
  assumes run: "cluster_run es (New N) = Some c" and N: "1 < N" "i < N" and q: "quiet N c" "best_candidate N i c"
  obtains c' where "cluster_run (electing N i) c = Some c'" "installed (cl_nodes c' ! i)" "open_cluster N c'"
    "inboxes c' ! i = []" "calm (currentTerm (cl_nodes c' ! i)) c'"
    "currentTerm (cl_nodes c' ! i) = currentTerm (cl_nodes c ! i) + 1"
proof -
  let ?ps = "take (N div 2) (filter (\<lambda>j. j \<noteq> i) [0..<N])" and ?T = "currentTerm (cl_nodes c ! i) + 1"
  obtain s where ok: "length (cl_nodes c) = N" "length (inboxes c) = N" "\<And>j. j < N \<Longrightarrow> node_ok N j (cl_nodes c ! j)"
    by (rule run_nodes_ok [OF run]) blast
  have logs: "log_ok (currentTerm n) (rlog n)" if "n \<in> set (cl_nodes c)" for n
  proof -
    obtain s where s: "net_reach any_event N s" "sim c s"
      using cluster_run_reach [OF run restricts_any schedule_any] by blast
    with logs.reach_inv [OF s(1)] that show ?thesis by (auto simp: logs_inv_def sim_def)
  qed
  have "currentTerm n \<le> currentTerm (cl_nodes c ! i)" if "n \<in> set (cl_nodes c)" for n
    using that ok(1) q(2) by (auto simp: best_candidate_def in_set_conv_nth)
  with logs have "calm_node ?T n" if "n \<in> set (cl_nodes c)" for n
    using that by (fastforce simp: calm_node_def log_ok_def)
  moreover have "ms = []" if "ms \<in> set (inboxes c)" for ms
    using that ok(2) q(1) by (auto simp: quiet_def in_set_conv_nth)
  ultimately have calm: "calm ?T c" by (fastforce simp: calm_def)
  obtain c1 where c1: "cluster_step (Timeout i) c = Some c1" "campaigning N i ?ps c1" "currentTerm (cl_nodes c1 ! i) = ?T"
    using timeout_campaigns [OF ok(3,1,2) q N(2) refl] by blast
  have "length (filter (\<lambda>j. j \<noteq> i) [0..<N]) = N - 1" by (rule length_others [OF N(2)])
  then have "?ps \<noteq> []" using N(1) by (cases "filter (\<lambda>j. j \<noteq> i) [0..<N]") auto
  from poll_elects [OF c1(2) this] obtain c2 where c2: "cluster_run (poll i ?ps) c1 = Some c2" "installed (cl_nodes c2 ! i)"
      "open_cluster N c2" "inboxes c2 ! i = []" "currentTerm (cl_nodes c2 ! i) = ?T"
    using c1(3) by auto
  have "calm ?T c2" using timeout_calm [OF c1(1) calm] poll_calm [OF c2(1)] by simp
  with c1(1) c2 show ?thesis by (intro that [of c2]) (simp_all add: electing_def del: cluster_step.simps)
qed

section \<open>Emptying mailboxes\<close>

text \<open>A crashed node drops what it receives; the restart keeps its term and its log.\<close>

definition flush :: "nat \<Rightarrow> cluster \<Rightarrow> cl_event list" where
  "flush j c = KillEv (int j) # replicate (length (inboxes c ! j)) (Deliver j) @ [RestartEv (int j)]"

lemma dead_drops:
  assumes "j < length (cl_nodes c)" "j < length (inboxes c)" "\<not> alive (cl_nodes c ! j)"
  shows "cluster_run (replicate (length (inboxes c ! j)) (Deliver j)) c = Some (c\<lparr>inboxes := (inboxes c)[j := []]\<rparr>)"
  using assms
proof (induction "inboxes c ! j" arbitrary: c)
  case Nil
  then have "(inboxes c)[j := []] = inboxes c" by (metis list_update_id)
  with Nil(1) [symmetric] show ?case by simp
next
  case (Cons m ms)
  let ?c1 = "c\<lparr>inboxes := (inboxes c)[j := ms]\<rparr>"
  have "cluster_step (Deliver j) c = Some ?c1"
    using Cons.prems Cons.hyps(2) [symmetric] by (simp add: node_ran_def run_inbox_def)
  moreover have "cluster_run (replicate (length ms) (Deliver j)) ?c1 = Some (c\<lparr>inboxes := (inboxes c)[j := []]\<rparr>)"
    using Cons.hyps(1) [of ?c1] Cons.prems by simp
  ultimately show ?case using Cons.hyps(2) [symmetric] by (simp del: cluster_step.simps)
qed

lemma flushed:
  assumes "open_cluster N c" "j < N"
  shows "cluster_run (flush j c) c =
    Some (c\<lparr>cl_nodes := (cl_nodes c)[j := Restart (Kill (cl_nodes c ! j))], inboxes := (inboxes c)[j := []]\<rparr>)"
proof -
  let ?c1 = "c\<lparr>cl_nodes := (cl_nodes c)[j := Kill (cl_nodes c ! j)]\<rparr>"
  have "cluster_run (replicate (length (inboxes ?c1 ! j)) (Deliver j)) ?c1 = Some (?c1\<lparr>inboxes := (inboxes ?c1)[j := []]\<rparr>)"
    by (rule dead_drops) (use assms in \<open>simp_all add: open_cluster_def Kill_def\<close>)
  with assms show ?thesis by (simp add: flush_def cluster_run_append KillNode_def RestartNode_def open_cluster_def)
qed

lemma restarted_sel:
  "node_id (Restart (Kill n)) = node_id n" "peers (Restart (Kill n)) = peers n"
  "currentTerm (Restart (Kill n)) = currentTerm n" "rlog (Restart (Kill n)) = rlog n"
  "commitIndex (Restart (Kill n)) = commitIndex n" "alive (Restart (Kill n))" "role (Restart (Kill n)) = Follower"
  by (simp_all add: Restart_def Kill_def)

lemma flushed_all:
  assumes "open_cluster N c" "distinct js" "set js \<subseteq> {..<N}"
  shows "\<exists>es c'. cluster_run es c = Some c' \<and> open_cluster N c' \<and>
    (\<forall>j < N. inboxes c' ! j = (if j \<in> set js then [] else inboxes c ! j) \<and>
       cl_nodes c' ! j = (if j \<in> set js then Restart (Kill (cl_nodes c ! j)) else cl_nodes c ! j))"
  using assms
proof (induction js arbitrary: c)
  case Nil
  then show ?case by (intro exI [of _ "[]"]) simp
next
  case (Cons j js)
  let ?c1 = "c\<lparr>cl_nodes := (cl_nodes c)[j := Restart (Kill (cl_nodes c ! j))], inboxes := (inboxes c)[j := []]\<rparr>"
  have j: "j < N" "j \<notin> set js" and run: "cluster_run (flush j c) c = Some ?c1"
    using Cons.prems flushed [of N c j] by simp_all
  have c1: "open_cluster N ?c1" "length (cl_nodes c) = N" "length (inboxes c) = N" using Cons.prems(1) by (simp_all add: open_cluster_def)
  obtain es c' where c': "cluster_run es ?c1 = Some c'" "open_cluster N c'"
      "\<forall>k < N. inboxes c' ! k = (if k \<in> set js then [] else inboxes ?c1 ! k) \<and>
         cl_nodes c' ! k = (if k \<in> set js then Restart (Kill (cl_nodes ?c1 ! k)) else cl_nodes ?c1 ! k)"
    using Cons.IH [OF c1(1)] Cons.prems(2,3) by auto
  have "inboxes c' ! k = (if k \<in> set (j # js) then [] else inboxes c ! k) \<and>
      cl_nodes c' ! k = (if k \<in> set (j # js) then Restart (Kill (cl_nodes c ! k)) else cl_nodes c ! k)" if "k < N" for k
    using c'(3) that j c1(2,3) by (cases "k = j") auto
  with cluster_run_trans [OF run c'(1)] c'(2) show ?case by blast
qed

section \<open>A heartbeat round in the cluster\<close>

lemma send_to_all_mail:
  assumes "send_to_all ps n = Some ms" "distinct ps"
  shows "mail_for p ms = (if p \<in> set ps then [the (sendAppendEntries p n)] else [])"
  using assms
proof (induction ps arbitrary: ms)
  case (Cons q ps)
  then obtain m ms' where ms: "sendAppendEntries q n = Some m" "send_to_all ps n = Some ms'" "ms = m # ms'"
    by (auto split: option.splits)
  have "msg_to m = q" using ms(1) by (auto elim!: sendAppendEntries_msg)
  then have "mail_for p ms = (if p = q then [m] else []) @ mail_for p ms'" by (auto simp: mail_for_def ms(3))
  with Cons.IH [OF ms(2)] Cons.prems(2) ms(1) show ?case by auto
qed (simp add: mail_for_def)

lemma exchange_messages:
  assumes "exchange l f = Some (l', f')" "alive f"
  obtains m r where "sendAppendEntries (node_id f) l = Some m" "run_inbox m f = Some (f', [r])"
    "run_inbox r l = Some (l', [])" "msg_to r = node_id l"
proof -
  obtain m r ms where e: "sendAppendEntries (node_id f) l = Some m" "run_inbox m f = Some (f', [r])" "run_inbox r l = Some (l', ms)"
    using assms(1) by (auto simp: exchange_def split: option.splits list.splits)
  obtain a where a: "msg_from m = node_id l" "msg_body m = AppendEntries a" using e(1) by (rule sendAppendEntries_msg)
  have "handleAppendEntries (node_id l) a f = (f', [r])" using e(2) a assms(2) by (simp add: run_inbox_def handleMessage_def)
  then obtain b where r: "msg_to r = node_id l" "msg_body r = AppendReply b"
    by (auto simp: handleAppendEntries_def append_reply_def Let_def split: if_splits)
  have "ms = []"
  proof (cases "alive l")
    case True
    then have "handleAppendEntriesReply (msg_from r) b l = Some (l', ms)" using e(3) r(2) by (simp add: run_inbox_def handleMessage_def)
    then show ?thesis by (cases rule: handleAppendEntriesReply_cases)
  qed (use e(3) in \<open>simp add: run_inbox_def\<close>)
  with e r(1) show ?thesis by (intro that) simp_all
qed

definition at_rest :: "nat \<Rightarrow> cluster \<Rightarrow> bool" where
  "at_rest N c \<longleftrightarrow> open_cluster N c \<and> (\<forall>j < N. inboxes c ! j = [])"

lemma heartbeat_sends:
  assumes "at_rest N c" "i < N" and l: "node_ok N i (cl_nodes c ! i)" "IsLeader (cl_nodes c ! i)" "hb_loops (cl_nodes c ! i) \<noteq> []"
  obtains c' where "cluster_step (Heartbeat i) c = Some c'" "open_cluster N c'" "cl_nodes c' = cl_nodes c" "inboxes c' ! i = []"
    "\<And>p. p < N \<Longrightarrow> p \<noteq> i \<Longrightarrow> inboxes c' ! p = [the (sendAppendEntries p (cl_nodes c ! i))]"
proof -
  let ?l = "cl_nodes c ! i"
  have c: "open_cluster N c" "\<And>j. j < N \<Longrightarrow> inboxes c ! j = []" "length (cl_nodes c) = N" using assms(1) by (simp_all add: at_rest_def open_cluster_def)
  have peers: "distinct (peers ?l)" "set (peers ?l) = {..<N} - {i}" using l(1) by (auto simp: node_ok_def)
  obtain ms where ms: "send_to_all (peers ?l) ?l = Some ms"
    using send_to_all_Some [of "peers ?l" ?l] l(1,2) by (auto simp: node_ok_def IsLeader_def)
  have mail: "mail_for p ms = (if p \<in> {..<N} - {i} then [the (sendAppendEntries p ?l)] else [])" for p
    using send_to_all_mail [OF ms peers(1)] peers(2) by simp
  have to: "msg_to m < N" if "m \<in> set ms" for m
    using send_to_all_mem [OF ms that] peers(2) by (auto elim!: sendAppendEntries_msg)
  have cap: "length (inboxes c ! j) + length (mail_for j ms) \<le> inbox_capacity" if "j < N" for j
    using mail c(2) [OF that] by (simp add: inbox_capacity_def)
  obtain c' where c': "route_all ms c = Some c'" "open_cluster N c'" "cl_nodes c' = cl_nodes c"
      "\<forall>j < N. inboxes c' ! j = inboxes c ! j @ mail_for j ms"
    using route_all_open [OF c(1) to cap] by blast
  have "cluster_step (Heartbeat i) c = Some c'"
    using l(2,3) assms(2) c(3) ms c'(1)
    by (simp add: heartbeatTick_def sendHeartbeatsLocked_def IsLeader_def node_ran_def)
  with c' c(2) mail assms(2) show ?thesis by (intro that [of c']) (simp_all del: cluster_step.simps)
qed

lemma round_exchanges:
  assumes rest: "at_rest N c" and i: "i < N" "p < N" "p \<noteq> i"
    and l: "node_ok N i (cl_nodes c ! i)" "IsLeader (cl_nodes c ! i)" "hb_loops (cl_nodes c ! i) \<noteq> []"
    and f: "node_id (cl_nodes c ! p) = p" "alive (cl_nodes c ! p)"
    and ex: "exchange (cl_nodes c ! i) (cl_nodes c ! p) = Some (l', f')"
  obtains es c' where "cluster_run es c = Some c'" "at_rest N c'"
    "\<And>j. j < N \<Longrightarrow> cl_nodes c' ! j = (if j = i then l' else Restart (Kill (if j = p then f' else cl_nodes c ! j)))"
proof -
  let ?l = "cl_nodes c ! i" and ?f = "cl_nodes c ! p" and ?js = "filter (\<lambda>j. j \<noteq> i) [0..<N]"
  obtain c1 where c1: "cluster_step (Heartbeat i) c = Some c1" "open_cluster N c1" "cl_nodes c1 = cl_nodes c" "inboxes c1 ! i = []"
      "\<And>p. p < N \<Longrightarrow> p \<noteq> i \<Longrightarrow> inboxes c1 ! p = [the (sendAppendEntries p ?l)]"
    using heartbeat_sends [OF rest i(1) l] by blast
  obtain m r where m: "sendAppendEntries p ?l = Some m" "run_inbox m ?f = Some (f', [r])" "run_inbox r ?l = Some (l', [])" "msg_to r = i"
    using exchange_messages [OF ex f(2)] f(1) l(1) by (metis node_ok_def)
  have len: "length (cl_nodes c1) = N" "length (inboxes c1) = N" using c1(2) by (simp_all add: open_cluster_def)
  let ?c1 = "c1\<lparr>inboxes := (inboxes c1)[p := []], cl_nodes := (cl_nodes c1)[p := f']\<rparr>"
  have "open_cluster N ?c1" using c1(2) by (simp add: open_cluster_def)
  then obtain c2 where c2: "route r ?c1 = Some c2" "open_cluster N c2" "cl_nodes c2 = (cl_nodes c1)[p := f']"
      "inboxes c2 = (inboxes c1)[p := [], i := [r]]"
    using route_open [of N ?c1 r] i m(4) c1(4) by (auto simp: inbox_capacity_def)
  have step2: "cluster_step (Deliver p) c1 = Some c2"
    using len i c1(5) [OF i(2,3)] m(1,2) c1(3) c2(1) by (simp add: node_ran_def)
  define c3 where "c3 = c2\<lparr>inboxes := (inboxes c2)[i := []], cl_nodes := (cl_nodes c2)[i := l']\<rparr>"
  have len2: "length (cl_nodes c2) = N" "length (inboxes c2) = N" using c2(2) by (simp_all add: open_cluster_def)
  have step3: "cluster_step (Deliver i) c2 = Some c3"
    using len2 i c2(3,4) len c1(3) m(3) by (simp add: node_ran_def c3_def)
  have run: "cluster_run [Heartbeat i, Deliver p, Deliver i] c = Some c3"
    using c1(1) step2 step3 by (simp del: cluster_step.simps)
  have "open_cluster N c3" using c2(2) by (simp add: c3_def open_cluster_def)
  then obtain es c4 where c4: "cluster_run es c3 = Some c4" "open_cluster N c4"
      "\<forall>j < N. inboxes c4 ! j = (if j \<in> set ?js then [] else inboxes c3 ! j) \<and>
         cl_nodes c4 ! j = (if j \<in> set ?js then Restart (Kill (cl_nodes c3 ! j)) else cl_nodes c3 ! j)"
    using flushed_all [of N c3 ?js] by auto
  have c3: "inboxes c3 ! i = []" "cl_nodes c3 ! i = l'" "cl_nodes c3 ! p = f'" "\<And>j. j \<noteq> i \<Longrightarrow> j \<noteq> p \<Longrightarrow> cl_nodes c3 ! j = cl_nodes c ! j"
    using len2 len i c2(3) c1(3) by (simp_all add: c3_def)
  have "at_rest N c4" using c4(2,3) c3(1) by (auto simp: at_rest_def)
  moreover have "cl_nodes c4 ! j = (if j = i then l' else Restart (Kill (if j = p then f' else cl_nodes c ! j)))" if "j < N" for j
    using c4(3) that c3 by auto
  ultimately show ?thesis by (intro that [OF cluster_run_trans [OF run c4(1)]])
qed
section \<open>Serving\<close>

lemma maybeAdvance_loops [simp]: "hb_loops (maybeAdvanceCommitIndex n) = hb_loops n"
proof -
  have "hb_loops (advance_from k n) = hb_loops n" for k
    by (induction k n rule: advance_from.induct) (simp_all add: advanceLastApplied_def)
  then show ?thesis by (simp add: maybeAdvanceCommitIndex_def)
qed

lemma exchange_node_ok:
  assumes "exchange l f = Some (l', f')" "alive f" "node_ok N i l"
  shows "node_ok N i l'"
proof -
  obtain r where "run_inbox r l = Some (l', [])" using exchange_messages [OF assms(1,2)] by blast
  then have "node_step (Recv r) l = Some (l', [])" by simp
  with assms(3) show ?thesis by (rule node_ok_step)
qed

text \<open>A log without entries of the last term of \<open>L\<close> gets all of what it lacks.\<close>

lemma match_len_new:
  assumes "es \<noteq> []" "\<forall>x \<in> set xs. le_term x < le_term (last es)"
  shows "match_len es xs < length es"
  using assms by (induction es xs rule: match_len.induct) (auto split: if_splits)

lemma append_spec_new:
  assumes "p < length L" "p \<le> length l" "\<forall>x \<in> set l. le_term x < le_term (last L)"
  shows "length (append_spec p (drop p L) l) = length L \<and> last (append_spec p (drop p L) l) = last L"
proof -
  let ?k = "match_len (drop p L) (drop p l)"
  have "drop p L \<noteq> []" "last (drop p L) = last L" using assms(1) by simp_all
  then have k: "?k < length (drop p L)" using assms(3) by (intro match_len_new) (auto dest: in_set_dropD)
  have "?k \<le> length l - p" using match_len_le [of "drop p L" "drop p l"] by simp
  with k assms(2) show ?thesis by (auto simp: append_spec_def Let_def)
qed

lemma advance_commits:
  assumes "rlog n \<noteq> []" "le_term (last (rlog n)) = currentTerm n" "majority n \<le> replica_count n (length (rlog n))"
  shows "length (rlog n) \<le> commitIndex (maybeAdvanceCommitIndex n)"
proof (cases "commitIndex n < length (rlog n)")
  case True
  then show ?thesis unfolding maybeAdvanceCommitIndex_def
    by (intro advance_from_greatest) (use assms in \<open>simp_all add: lastLogIndex_def last_conv_nth\<close>)
next
  case False
  then show ?thesis unfolding maybeAdvanceCommitIndex_def
    using advance_from_commit [of n "lastLogIndex n"] by linarith
qed

definition serving :: "nat \<Rightarrow> nat \<Rightarrow> LogEntry list \<Rightarrow> nat \<Rightarrow> cluster \<Rightarrow> bool" where
  "serving N i L T c \<longleftrightarrow> at_rest N c \<and> i < N \<and> node_ok N i (cl_nodes c ! i) \<and> IsLeader (cl_nodes c ! i) \<and>
     hb_loops (cl_nodes c ! i) \<noteq> [] \<and> rlog (cl_nodes c ! i) = L \<and> currentTerm (cl_nodes c ! i) = T \<and>
     L \<noteq> [] \<and> le_term (last L) = T \<and>
     (\<forall>j < N. j \<noteq> i \<longrightarrow> node_id (cl_nodes c ! j) = j \<and> alive (cl_nodes c ! j) \<and> currentTerm (cl_nodes c ! j) \<le> T)"

text \<open>A follower that has not answered yet, and one that holds the whole log.\<close>

definition pending :: "nat \<Rightarrow> LogEntry list \<Rightarrow> nat \<Rightarrow> cluster \<Rightarrow> nat \<Rightarrow> bool" where
  "pending i L T c p \<longleftrightarrow> go_get (nextIndex (cl_nodes c ! i)) p \<le> length L \<and>
     go_get (matchIndex (cl_nodes c ! i)) p \<le> length L \<and> (\<forall>e \<in> set (rlog (cl_nodes c ! p)). le_term e < T)"

definition replicated :: "nat \<Rightarrow> LogEntry list \<Rightarrow> cluster \<Rightarrow> nat \<Rightarrow> bool" where
  "replicated i L c p \<longleftrightarrow> go_get (matchIndex (cl_nodes c ! i)) p = length L \<and>
     go_get (nextIndex (cl_nodes c ! i)) p = length L + 1 \<and>
     length (rlog (cl_nodes c ! p)) = length L \<and> last (rlog (cl_nodes c ! p)) = last L"

definition peer_kept :: "nat \<Rightarrow> cluster \<Rightarrow> cluster \<Rightarrow> nat \<Rightarrow> bool" where
  "peer_kept i c c' q \<longleftrightarrow> go_get (nextIndex (cl_nodes c' ! i)) q = go_get (nextIndex (cl_nodes c ! i)) q \<and>
     go_get (matchIndex (cl_nodes c' ! i)) q = go_get (matchIndex (cl_nodes c ! i)) q \<and>
     rlog (cl_nodes c' ! q) = rlog (cl_nodes c ! q) \<and> commitIndex (cl_nodes c' ! q) = commitIndex (cl_nodes c ! q)"

lemma serving_repairing:
  assumes "serving N i L T c" "p < N" "p \<noteq> i"
  shows "repairing (cl_nodes c ! i) (cl_nodes c ! p)"
  using assms by (auto simp: serving_def repairing_def IsLeader_def node_ok_def)

lemma serving_round:
  assumes s: "serving N i L T c" and p: "p < N" "p \<noteq> i"
    and ex: "exchange (cl_nodes c ! i) (cl_nodes c ! p) = Some (l', f')"
    and l': "role l' = Leader" "alive l'" "hb_loops l' = hb_loops (cl_nodes c ! i)" "rlog l' = L" "currentTerm l' = T"
    and f': "node_id f' = p" "currentTerm f' \<le> T"
  obtains es c' where "cluster_run es c = Some c'" "serving N i L T c'" "cl_nodes c' ! i = l'" "rlog (cl_nodes c' ! p) = rlog f'"
    "commitIndex (cl_nodes c' ! p) = commitIndex f'"
    "\<And>q. q < N \<Longrightarrow> q \<noteq> i \<Longrightarrow> q \<noteq> p \<Longrightarrow>
       rlog (cl_nodes c' ! q) = rlog (cl_nodes c ! q) \<and> commitIndex (cl_nodes c' ! q) = commitIndex (cl_nodes c ! q)"
proof -
  have c: "at_rest N c" "i < N" "node_ok N i (cl_nodes c ! i)" "IsLeader (cl_nodes c ! i)" "hb_loops (cl_nodes c ! i) \<noteq> []"
    "node_id (cl_nodes c ! p) = p" "alive (cl_nodes c ! p)" using s p by (simp_all add: serving_def)
  obtain es c' where c': "cluster_run es c = Some c'" "at_rest N c'"
    "\<And>j. j < N \<Longrightarrow> cl_nodes c' ! j = (if j = i then l' else Restart (Kill (if j = p then f' else cl_nodes c ! j)))"
    using round_exchanges [OF c(1,2) p c(3-7) ex] by blast
  have "node_ok N i l'" by (rule exchange_node_ok [OF ex c(7,3)])
  then have "serving N i L T c'"
    using s p c'(2,3) l' f' by (auto simp: serving_def IsLeader_def restarted_sel)
  with c' p c(2) show ?thesis by (intro that [of es c']) (simp_all add: restarted_sel)
qed

lemma serve_one:
  assumes "serving N i L T c" "p < N" "p \<noteq> i" "pending i L T c p"
  shows "\<exists>es c'. cluster_run es c = Some c' \<and> serving N i L T c' \<and> replicated i L c' p \<and>
    (majority (cl_nodes c' ! i) \<le> replica_count (cl_nodes c' ! i) (length L) \<longrightarrow> length L \<le> commitIndex (cl_nodes c' ! i)) \<and>
    (\<forall>q < N. q \<noteq> i \<longrightarrow> q \<noteq> p \<longrightarrow> peer_kept i c c' q)"
  using assms
proof (induction "go_get (nextIndex (cl_nodes c ! i)) p" arbitrary: c rule: less_induct)
  case less
  let ?l = "cl_nodes c ! i" and ?f = "cl_nodes c ! p"
  have rep: "repairing ?l ?f" by (rule serving_repairing [OF less.prems(1-3)])
  have id: "node_id ?f = p" and l: "role ?l = Leader" "alive ?l" "rlog ?l = L" "currentTerm ?l = T" "L \<noteq> []" "le_term (last L) = T"
    using less.prems(1-3) by (simp_all add: serving_def IsLeader_def)
  show ?case
  proof (cases "prev_matches (request_to ?f ?l) (rlog ?f)")
    case True
    obtain l' f' where e: "exchange ?l ?f = Some (l', f')" "rlog l' = L" "role l' = Leader"
      "rlog f' = append_spec (ae_prevLogIndex (request_to ?f ?l)) (ae_entries (request_to ?f ?l)) (rlog ?f)"
      "l' = maybeAdvanceCommitIndex (?l\<lparr>matchIndex := matchIndex l', nextIndex := nextIndex l'\<rparr>)"
      "go_get (matchIndex l') p = max (length (rlog f')) (go_get (matchIndex ?l) p)"
      "go_get (nextIndex l') p = go_get (matchIndex l') p + 1"
      "\<And>q. q \<noteq> p \<Longrightarrow> go_get (nextIndex l') q = go_get (nextIndex ?l) q \<and> go_get (matchIndex l') q = go_get (matchIndex ?l) q"
      "node_id f' = p" "currentTerm f' = T"
      using exchange_accepted [OF rep True] unfolding id l(3,4) by metis
    have l': "alive l'" "hb_loops l' = hb_loops ?l" "currentTerm l' = T"
      by (subst e(5), simp add: l)+
    obtain es c' where c': "cluster_run es c = Some c'" "serving N i L T c'" "cl_nodes c' ! i = l'" "rlog (cl_nodes c' ! p) = rlog f'"
      "\<And>q. q < N \<Longrightarrow> q \<noteq> i \<Longrightarrow> q \<noteq> p \<Longrightarrow>
         rlog (cl_nodes c' ! q) = rlog (cl_nodes c ! q) \<and> commitIndex (cl_nodes c' ! q) = commitIndex (cl_nodes c ! q)"
      using serving_round [OF less.prems(1-3) e(1,3) l'(1,2) e(2) l'(3) e(9)] e(10) by blast
    let ?p = "go_get (nextIndex ?l) p - 1"
    have "?p < length L" using less.prems(4) l(5) rep id by (auto simp: pending_def repairing_def)
    moreover have "?p \<le> length (rlog ?f)" using prev_matches_le [OF True] by (simp add: request_to_def Let_def id)
    ultimately have "length (rlog f') = length L \<and> last (rlog f') = last L"
      using append_spec_new [of ?p L "rlog ?f"] less.prems(4) l(3,6) e(4) by (simp add: pending_def request_to_def Let_def id)
    then have "replicated i L c' p" using e(6,7) c'(3,4) less.prems(4) by (simp add: replicated_def pending_def)
    moreover have "length L \<le> commitIndex l'" if "majority l' \<le> replica_count l' (length L)"
    proof -
      let ?n = "?l\<lparr>matchIndex := matchIndex l', nextIndex := nextIndex l'\<rparr>"
      have "peers l' = peers ?n" by (subst e(5)) simp
      then have "majority ?n \<le> replica_count ?n (length L)" using that by (simp add: majority_def replica_count_def)
      then show ?thesis using advance_commits [of ?n] l(3-6) e(5) by simp
    qed
    moreover have "\<forall>q < N. q \<noteq> i \<longrightarrow> q \<noteq> p \<longrightarrow> peer_kept i c c' q" using c'(3,5) e(8) by (simp add: peer_kept_def)
    ultimately show ?thesis using c'(1-3) by blast
  next
    case False
    obtain l' f' where e: "exchange ?l ?f = Some (l', f')" "repairing l' f'" "rlog l' = L" "rlog f' = rlog ?f" "node_id f' = p"
      "Suc (go_get (nextIndex l') p) = go_get (nextIndex ?l) p" "currentTerm l' = T"
      "l' = ?l\<lparr>nextIndex := nextIndex l'\<rparr>" "\<And>q. q \<noteq> p \<Longrightarrow> go_get (nextIndex l') q = go_get (nextIndex ?l) q"
      using exchange_rejected [OF rep False] unfolding id l(3,4) by metis
    have l': "role l' = Leader" "alive l'" "hb_loops l' = hb_loops ?l" "matchIndex l' = matchIndex ?l"
      by (subst e(8), simp add: l)+
    have "currentTerm f' \<le> T" using e(2,7) by (simp add: repairing_def)
    obtain es c1 where c1: "cluster_run es c = Some c1" "serving N i L T c1" "cl_nodes c1 ! i = l'" "rlog (cl_nodes c1 ! p) = rlog f'"
      "\<And>q. q < N \<Longrightarrow> q \<noteq> i \<Longrightarrow> q \<noteq> p \<Longrightarrow>
         rlog (cl_nodes c1 ! q) = rlog (cl_nodes c ! q) \<and> commitIndex (cl_nodes c1 ! q) = commitIndex (cl_nodes c ! q)"
      using serving_round [OF less.prems(1-3) e(1) l'(1-3) e(3,7,5)] \<open>currentTerm f' \<le> T\<close> by blast
    have kept: "\<forall>q < N. q \<noteq> i \<longrightarrow> q \<noteq> p \<longrightarrow> peer_kept i c c1 q" using c1(3,5) e(9) l'(4) by (simp add: peer_kept_def)
    have pend: "pending i L T c1 p" and less': "go_get (nextIndex (cl_nodes c1 ! i)) p < go_get (nextIndex ?l) p"
      using less.prems(4) e(4,6) c1(3,4) l'(4) by (simp_all add: pending_def)
    from less.hyps [OF less' c1(2) less.prems(2,3) pend] obtain es' c' where c': "cluster_run es' c1 = Some c'" "serving N i L T c'"
      "replicated i L c' p"
      "majority (cl_nodes c' ! i) \<le> replica_count (cl_nodes c' ! i) (length L) \<longrightarrow> length L \<le> commitIndex (cl_nodes c' ! i)"
      "\<forall>q < N. q \<noteq> i \<longrightarrow> q \<noteq> p \<longrightarrow> peer_kept i c1 c' q" by blast
    have "\<forall>q < N. q \<noteq> i \<longrightarrow> q \<noteq> p \<longrightarrow> peer_kept i c c' q" using kept c'(5) by (simp add: peer_kept_def)
    with cluster_run_trans [OF c1(1) c'(1)] c'(2-4) show ?thesis by blast
  qed
qed

text \<open>One follower after the other.\<close>

lemma serve_all:
  assumes "serving N i L T c" "distinct ps" "set ps \<subseteq> {..<N} - {i}" "\<And>p. p \<in> set ps \<Longrightarrow> pending i L T c p" "ps \<noteq> []"
  shows "\<exists>es c'. cluster_run es c = Some c' \<and> serving N i L T c' \<and> (\<forall>p \<in> set ps. replicated i L c' p) \<and>
    (majority (cl_nodes c' ! i) \<le> replica_count (cl_nodes c' ! i) (length L) \<longrightarrow> length L \<le> commitIndex (cl_nodes c' ! i)) \<and>
    (\<forall>q < N. q \<noteq> i \<longrightarrow> q \<notin> set ps \<longrightarrow> peer_kept i c c' q)"
  using assms
proof (induction ps rule: rev_induct)
  case (snoc p ps)
  have p: "p < N" "p \<noteq> i" "p \<notin> set ps" using snoc.prems(2,3) by auto
  obtain es1 c1 where c1: "cluster_run es1 c = Some c1" "serving N i L T c1" "\<forall>p \<in> set ps. replicated i L c1 p"
      "\<forall>q < N. q \<noteq> i \<longrightarrow> q \<notin> set ps \<longrightarrow> peer_kept i c c1 q"
  proof (cases "ps = []")
    case True
    with snoc.prems(1) show ?thesis by (intro that [of "[]" c]) (simp_all add: peer_kept_def)
  next
    case False
    then show ?thesis using snoc.IH [OF snoc.prems(1)] snoc.prems(2-4) that by auto
  qed
  have "pending i L T c1 p"
    using snoc.prems(4) [of p] c1(4) p by (simp add: pending_def peer_kept_def)
  from serve_one [OF c1(2) p(1,2) this] obtain es2 c2 where c2: "cluster_run es2 c1 = Some c2" "serving N i L T c2" "replicated i L c2 p"
      "majority (cl_nodes c2 ! i) \<le> replica_count (cl_nodes c2 ! i) (length L) \<longrightarrow> length L \<le> commitIndex (cl_nodes c2 ! i)"
      "\<forall>q < N. q \<noteq> i \<longrightarrow> q \<noteq> p \<longrightarrow> peer_kept i c1 c2 q" by blast
  have "replicated i L c2 q" if "q \<in> set ps" for q
    using that p(3) snoc.prems(3) c1(3) c2(5) by (fastforce simp: replicated_def peer_kept_def)
  moreover have "\<forall>q < N. q \<noteq> i \<longrightarrow> q \<notin> set (ps @ [p]) \<longrightarrow> peer_kept i c c2 q"
    using c1(4) c2(5) by (simp add: peer_kept_def)
  ultimately show ?case using cluster_run_trans [OF c1(1) c2(1)] c2(2-4)
    by (intro exI [of _ "es1 @ es2"] exI [of _ c2]) auto
qed simp

text \<open>A further round tells a follower that holds the log what is committed.\<close>

lemma append_spec_Nil [simp]: "append_spec p [] l = l"
  by (simp add: append_spec_def)

lemma announce_one:
  assumes s: "serving N i L T c" and p: "p < N" "p \<noteq> i" and r: "replicated i L c p"
    and k: "length L \<le> commitIndex (cl_nodes c ! i)"
  shows "\<exists>es c'. cluster_run es c = Some c' \<and> serving N i L T c' \<and> length L \<le> commitIndex (cl_nodes c' ! i) \<and>
    replicated i L c' p \<and> length L \<le> commitIndex (cl_nodes c' ! p) \<and> (\<forall>q < N. q \<noteq> i \<longrightarrow> q \<noteq> p \<longrightarrow> peer_kept i c c' q)"
proof -
  let ?l = "cl_nodes c ! i" and ?f = "cl_nodes c ! p"
  have rep: "repairing ?l ?f" by (rule serving_repairing [OF s p])
  have id: "node_id ?f = p" and l: "role ?l = Leader" "alive ?l" "rlog ?l = L" "currentTerm ?l = T" "L \<noteq> []" "le_term (last L) = T"
    using s p by (simp_all add: serving_def IsLeader_def)
  have r': "go_get (matchIndex ?l) p = length L" "go_get (nextIndex ?l) p = length L + 1" "length (rlog ?f) = length L" "last (rlog ?f) = last L"
    using r by (simp_all add: replicated_def)
  have "rlog ?f \<noteq> []" using l(5) r'(3) by auto
  then have same: "rlog ?f ! (length L - 1) = L ! (length L - 1)" using r'(3,4) l(5) by (simp add: last_conv_nth)
  have req: "ae_prevLogIndex (request_to ?f ?l) = length L" "ae_entries (request_to ?f ?l) = []"
    "ae_prevLogTerm (request_to ?f ?l) = le_term (L ! (length L - 1))"
    using l(3,5) r'(2) by (simp_all add: request_to_def Let_def id)
  then have "prev_matches (request_to ?f ?l) (rlog ?f)" using r'(3) same l(5) by (simp add: prev_matches_def)
  from exchange_accepted [OF rep this] obtain l' f' where e: "exchange ?l ?f = Some (l', f')" "rlog l' = L" "role l' = Leader" "rlog f' = rlog ?f"
    "l' = maybeAdvanceCommitIndex (?l\<lparr>matchIndex := matchIndex l', nextIndex := nextIndex l'\<rparr>)"
    "go_get (matchIndex l') p = max (length (rlog f')) (go_get (matchIndex ?l) p)" "go_get (nextIndex l') p = go_get (matchIndex l') p + 1"
    "min (commitIndex ?l) (length (rlog f')) \<le> commitIndex f'"
    "\<And>q. q \<noteq> p \<Longrightarrow> go_get (nextIndex l') q = go_get (nextIndex ?l) q \<and> go_get (matchIndex l') q = go_get (matchIndex ?l) q"
    "node_id f' = p" "currentTerm f' = T"
    unfolding id l(3,4) req append_spec_Nil by metis
  have l': "alive l'" "hb_loops l' = hb_loops ?l" "currentTerm l' = T" by (subst e(5), simp add: l)+
  have "commitIndex ?l \<le> commitIndex l'"
    using advance_from_commit [of "?l\<lparr>matchIndex := matchIndex l', nextIndex := nextIndex l'\<rparr>" "length L"] e(5) l(3)
    by (simp add: maybeAdvanceCommitIndex_def lastLogIndex_def)
  with k have k': "length L \<le> commitIndex l'" by simp
  obtain es c' where c': "cluster_run es c = Some c'" "serving N i L T c'" "cl_nodes c' ! i = l'" "rlog (cl_nodes c' ! p) = rlog f'"
    "commitIndex (cl_nodes c' ! p) = commitIndex f'"
    "\<And>q. q < N \<Longrightarrow> q \<noteq> i \<Longrightarrow> q \<noteq> p \<Longrightarrow>
       rlog (cl_nodes c' ! q) = rlog (cl_nodes c ! q) \<and> commitIndex (cl_nodes c' ! q) = commitIndex (cl_nodes c ! q)"
    using serving_round [OF s p e(1,3) l'(1,2) e(2) l'(3) e(10)] e(11) by blast
  have "replicated i L c' p" using e(4,6,7) c'(3,4) r' by (simp add: replicated_def)
  moreover have "length L \<le> commitIndex (cl_nodes c' ! p)" using e(4,8) k r'(3) c'(5) by simp
  moreover have "\<forall>q < N. q \<noteq> i \<longrightarrow> q \<noteq> p \<longrightarrow> peer_kept i c c' q" using c'(3,6) e(9) by (simp add: peer_kept_def)
  ultimately show ?thesis using c'(1-3) k' by blast
qed

lemma announce_all:
  assumes "serving N i L T c" "length L \<le> commitIndex (cl_nodes c ! i)" "distinct ps" "set ps \<subseteq> {..<N} - {i}"
    "\<And>p. p \<in> set ps \<Longrightarrow> replicated i L c p"
  shows "\<exists>es c'. cluster_run es c = Some c' \<and> serving N i L T c' \<and> length L \<le> commitIndex (cl_nodes c' ! i) \<and>
    (\<forall>p \<in> set ps. replicated i L c' p \<and> length L \<le> commitIndex (cl_nodes c' ! p)) \<and>
    (\<forall>q < N. q \<noteq> i \<longrightarrow> q \<notin> set ps \<longrightarrow> peer_kept i c c' q)"
  using assms(3-5)
proof (induction ps rule: rev_induct)
  case Nil
  with assms(1,2) show ?case by (intro exI [of _ "[]"] exI [of _ c]) (simp add: peer_kept_def)
next
  case (snoc p ps)
  have p: "p < N" "p \<noteq> i" "p \<notin> set ps" using snoc.prems(1,2) by auto
  obtain es1 c1 where c1: "cluster_run es1 c = Some c1" "serving N i L T c1" "length L \<le> commitIndex (cl_nodes c1 ! i)"
      "\<forall>p \<in> set ps. replicated i L c1 p \<and> length L \<le> commitIndex (cl_nodes c1 ! p)"
      "\<forall>q < N. q \<noteq> i \<longrightarrow> q \<notin> set ps \<longrightarrow> peer_kept i c c1 q"
    using snoc.IH snoc.prems by auto
  have "replicated i L c1 p"
    using snoc.prems(3) [of p] c1(5) p by (simp add: replicated_def peer_kept_def)
  from announce_one [OF c1(2) p(1,2) this c1(3)] obtain es2 c2 where c2: "cluster_run es2 c1 = Some c2" "serving N i L T c2"
      "length L \<le> commitIndex (cl_nodes c2 ! i)" "replicated i L c2 p" "length L \<le> commitIndex (cl_nodes c2 ! p)"
      "\<forall>q < N. q \<noteq> i \<longrightarrow> q \<noteq> p \<longrightarrow> peer_kept i c1 c2 q" by blast
  have "replicated i L c2 q \<and> length L \<le> commitIndex (cl_nodes c2 ! q)" if q: "q \<in> set ps" for q
  proof -
    have "peer_kept i c1 c2 q" using q p(3) snoc.prems(2) c2(6) by auto
    with c1(4) q show ?thesis by (simp add: replicated_def peer_kept_def)
  qed
  moreover have "\<forall>q < N. q \<noteq> i \<longrightarrow> q \<notin> set (ps @ [p]) \<longrightarrow> peer_kept i c c2 q"
    using c1(5) c2(6) by (simp add: peer_kept_def)
  ultimately show ?case using cluster_run_trans [OF c1(1) c2(1)] c2(2-5)
    by (intro exI [of _ "es1 @ es2"] exI [of _ c2]) auto
qed

section \<open>The command\<close>

lemma submit_skips: "\<forall>j \<in> set xs. role (cl_nodes c ! j) \<noteq> Leader \<Longrightarrow> submit_from cmd (xs @ ys) c = submit_from cmd ys c"
  by (induction xs) (simp_all add: SubmitCommand_def)

lemma only_leader_takes:
  assumes c: "open_cluster N c" "i < N" "node_ok N i (cl_nodes c ! i)" "role (cl_nodes c ! i) = Leader"
    and others: "\<And>j. j < N \<Longrightarrow> j \<noteq> i \<Longrightarrow> role (cl_nodes c ! j) \<noteq> Leader"
    and n': "n' = notifyChange ((cl_nodes c ! i)\<lparr>rlog := rlog (cl_nodes c ! i) @
        [\<lparr>le_index = length (rlog (cl_nodes c ! i)) + 1, le_term = currentTerm (cl_nodes c ! i), le_command = cmd\<rparr>]\<rparr>)"
  obtains c' where "cluster_step (Submit cmd) c = Some c'" "open_cluster N c'" "cl_nodes c' = (cl_nodes c)[i := n']"
    "inboxes c' ! i = inboxes c ! i"
proof -
  have len: "length (cl_nodes c) = N" "length (inboxes c) = N" using c(1) by (simp_all add: open_cluster_def)
  have peers: "set (peers n') = {..<N} - {i}" using c(3) by (auto simp: n' node_ok_def)
  obtain ms where ms: "send_to_all (peers n') n' = Some ms"
    using send_to_all_Some [of "peers n'" n'] c(3,4) by (auto simp: node_ok_def n')
  then have taken: "SubmitCommand cmd (cl_nodes c ! i) = Some (n', ms, True)" using c(4) by (simp add: SubmitCommand_def n' Let_def)
  have to: "msg_to m < N" "msg_to m \<noteq> i" if "m \<in> set ms" for m
    using send_to_all_mem [OF ms that] peers by (auto elim!: sendAppendEntries_msg)
  let ?c0 = "c\<lparr>cl_nodes := (cl_nodes c)[i := n']\<rparr>"
  obtain c' where c': "route_all ms ?c0 = Some c'" using route_all_total [of ms ?c0] to(1) len by auto
  have "open_cluster N ?c0" using c(1) by (simp add: open_cluster_def)
  from route_all_open_kept [OF c' this to(2)] have kept: "open_cluster N c'" "cl_nodes c' = (cl_nodes c)[i := n']" "inboxes c' ! i = inboxes c ! i"
    by simp_all
  have "[0..<N] = [0..<i] @ [i..<N]" using upt_add_eq_append [of 0 i "N - i"] c(2) by simp
  also have "[i..<N] = i # [Suc i..<N]" using c(2) by (rule upt_conv_Cons)
  finally have upt: "[0..<N] = [0..<i] @ i # [Suc i..<N]" .
  have "submit_from cmd [0..<N] c = Some (c', True)"
    unfolding upt using others c(2) taken c' by (simp add: submit_skips node_ran_def)
  with kept show ?thesis by (intro that [of c']) (simp_all add: cluster_SubmitCommand_def len)
qed

lemma starts_serving:
  assumes run: "cluster_run es (New N) = Some c" and i: "i < N"
    and c: "installed (cl_nodes c ! i)" "open_cluster N c" "inboxes c ! i = []" "calm (currentTerm (cl_nodes c ! i)) c"
  obtains es' c' L where "cluster_run es' c = Some c'" "serving N i L (currentTerm (cl_nodes c ! i)) c'" "le_command (last L) = cmd"
    "\<And>p. p < N \<Longrightarrow> p \<noteq> i \<Longrightarrow> pending i L (currentTerm (cl_nodes c ! i)) c' p"
proof -
  let ?js = "filter (\<lambda>j. j \<noteq> i) [0..<N]" and ?T = "currentTerm (cl_nodes c ! i)" and ?l = "cl_nodes c ! i"
  obtain s where ok: "length (cl_nodes c) = N" "\<And>j. j < N \<Longrightarrow> node_ok N j (cl_nodes c ! j)" by (rule run_nodes_ok [OF run]) blast
  have js: "distinct ?js" "set ?js = {..<N} - {i}" by auto
  obtain es1 c1 where c1: "cluster_run es1 c = Some c1" "open_cluster N c1"
      "\<And>j. j < N \<Longrightarrow> inboxes c1 ! j = [] \<and> cl_nodes c1 ! j = (if j \<noteq> i then Restart (Kill (cl_nodes c ! j)) else ?l)"
    using flushed_all [OF c(2) js(1)] js(2) c(3) by auto
  define e where "e = \<lparr>le_index = length (rlog ?l) + 1, le_term = ?T, le_command = cmd\<rparr>"
  define n' where "n' = notifyChange (?l\<lparr>rlog := rlog ?l @ [e]\<rparr>)"
  have l: "role ?l = Leader" "alive ?l" "hb_loops ?l \<noteq> []" "node_ok N i ?l" using c(1) ok(2) i by (simp_all add: installed_def)
  obtain c2 where c2: "cluster_step (Submit cmd) c1 = Some c2" "open_cluster N c2" "cl_nodes c2 = (cl_nodes c1)[i := n']" "inboxes c2 ! i = []"
    using only_leader_takes [OF c1(2) i, of n' cmd] c1(3) i l(1,4) by (auto simp: n'_def e_def restarted_sel)
  obtain es3 c3 where c3: "cluster_run es3 c2 = Some c3" "open_cluster N c3"
      "\<And>j. j < N \<Longrightarrow> inboxes c3 ! j = [] \<and> cl_nodes c3 ! j = (if j \<noteq> i then Restart (Kill (cl_nodes c2 ! j)) else cl_nodes c2 ! i)"
    using flushed_all [OF c2(2) js(1)] js(2) c2(4) by auto
  have len: "length (cl_nodes c1) = N" using c1(2) by (simp add: open_cluster_def)
  have nodes: "cl_nodes c3 ! j = (if j \<noteq> i then Restart (Kill (Restart (Kill (cl_nodes c ! j)))) else n')" if "j < N" for j
    using c3(3) [OF that] c1(3) [OF that] c2(3) that len by simp
  have calm: "calm_node ?T (cl_nodes c ! j)" if "j < N" for j using c(4) that ok(1) by (simp add: calm_def)
  have box: "\<forall>j < N. inboxes c3 ! j = []" and id: "\<And>j. j < N \<Longrightarrow> node_id (cl_nodes c ! j) = j"
    using c3(3) ok(2) by (simp_all add: node_ok_def)
  have run': "cluster_run (es1 @ Submit cmd # es3) c = Some c3"
    using cluster_run_trans [OF c1(1), of "Submit cmd # es3" c3] c2(1) c3(1) by (simp del: cluster_step.simps)
  have n'_sel: "role n' = Leader" "alive n'" "hb_loops n' \<noteq> []" "rlog n' = rlog ?l @ [e]" "currentTerm n' = ?T" "node_ok N i n'"
    "nextIndex n' = nextIndex ?l" "matchIndex n' = matchIndex ?l"
    using l by (simp_all add: n'_def node_ok_def)
  have "serving N i (rlog ?l @ [e]) ?T c3"
    unfolding serving_def at_rest_def IsLeader_def
    using c3(2) box nodes i n'_sel calm id by (simp add: restarted_sel e_def calm_node_def)
  moreover have "pending i (rlog ?l @ [e]) ?T c3 p" if "p < N" "p \<noteq> i" for p
  proof -
    have "p \<in> set (peers ?l)" using l(4) that by (simp add: node_ok_def)
    then show ?thesis using c(1) nodes that i n'_sel calm [OF that(1)]
      by (simp add: pending_def installed_def restarted_sel calm_node_def)
  qed
  moreover have "le_command (last (rlog ?l @ [e])) = cmd" by (simp add: e_def)
  ultimately show ?thesis using run' by (intro that)
qed

lemma serves_everyone:
  assumes s: "serving N i L T c" and N: "1 < N" and pend: "\<And>p. p < N \<Longrightarrow> p \<noteq> i \<Longrightarrow> pending i L T c p"
  shows "\<exists>es c'. cluster_run es c = Some c' \<and> serving N i L T c' \<and> length L \<le> commitIndex (cl_nodes c' ! i) \<and>
    (\<forall>p < N. p \<noteq> i \<longrightarrow> replicated i L c' p \<and> length L \<le> commitIndex (cl_nodes c' ! p))"
proof -
  let ?js = "filter (\<lambda>j. j \<noteq> i) [0..<N]"
  have i: "i < N" using s by (simp add: serving_def)
  have js: "distinct ?js" "set ?js = {..<N} - {i}" "length ?js = N - 1" using length_others [OF i] by auto
  have "?js \<noteq> []" using js(3) N by (metis length_0_conv zero_less_diff less_irrefl)
  have "pending i L T c p" if "p \<in> set ?js" for p using pend that by simp
  from serve_all [OF s js(1) _ this \<open>?js \<noteq> []\<close>]
  obtain es1 c1 where c1: "cluster_run es1 c = Some c1" "serving N i L T c1" "\<forall>p \<in> set ?js. replicated i L c1 p"
      "majority (cl_nodes c1 ! i) \<le> replica_count (cl_nodes c1 ! i) (length L) \<longrightarrow> length L \<le> commitIndex (cl_nodes c1 ! i)"
    unfolding js(2) by blast
  have "peers (cl_nodes c1 ! i) = ?js" "majority (cl_nodes c1 ! i) = N div 2 + 1"
    using c1(2) majority_node_ok [of N i] by (auto simp: serving_def node_ok_def)
  moreover have "length L \<le> go_get (matchIndex (cl_nodes c1 ! i)) p" if "p \<in> set ?js" for p
    using c1(3) that unfolding replicated_def by (metis order_refl)
  then have "filter (\<lambda>p. length L \<le> go_get (matchIndex (cl_nodes c1 ! i)) p) ?js = ?js" by (intro filter_True) blast
  ultimately have "majority (cl_nodes c1 ! i) \<le> replica_count (cl_nodes c1 ! i) (length L)"
    unfolding replica_count_def using js(3) N by (simp only:)
  then have "length L \<le> commitIndex (cl_nodes c1 ! i)" using c1(4) by simp
  from announce_all [OF c1(2) this js(1)] c1(3) obtain es2 c2 where c2: "cluster_run es2 c1 = Some c2" "serving N i L T c2"
      "length L \<le> commitIndex (cl_nodes c2 ! i)" "\<forall>p \<in> set ?js. replicated i L c2 p \<and> length L \<le> commitIndex (cl_nodes c2 ! p)"
    unfolding js(2) by blast
  with cluster_run_trans [OF c1(1) c2(1)] js(2) show ?thesis by (intro exI [of _ "es1 @ es2"] exI [of _ c2]) auto
qed

section \<open>Properties\<close>

lemma run_term_mono:
  assumes "cluster_run es c = Some c'" "j < length (cl_nodes c)"
  shows "currentTerm (cl_nodes c ! j) \<le> currentTerm (cl_nodes c' ! j)"
  by (rule cluster_run_nodes [where R = "\<lambda>n n'. currentTerm n \<le> currentTerm n'", OF _ _ node_step_term assms]) simp_all

text \<open>
  C8: Commands can always be committed: from every state that any schedule of deliveries, timers,
  commands, crashes, restarts and partitions can reach, there is a schedule after which every
  node is alive and its log ends, at the same index, with one new entry that carries the
  command, of a term later than any node had before; every node has committed that index, and
  one of them is the live leader. Nothing the user does can leave the simulation without a way back.
\<close>

theorem command_can_always_commit:
  assumes "cluster_run es (New N) = Some c" and "1 < N"
  shows "\<exists>es' c' e k. cluster_run es' c = Some c' \<and> le_command e = cmd \<and> 0 < k \<and> list_ex IsLeader (cl_nodes c') \<and>
    list_all (\<lambda>n. currentTerm n < le_term e) (cl_nodes c) \<and>
    list_all (\<lambda>n. alive n \<and> length (rlog n) = k \<and> last (rlog n) = e \<and> k \<le> commitIndex n) (cl_nodes c')"
proof -
  obtain es1 c1 i where q: "cluster_run es1 c = Some c1" "quiet N c1" "best_candidate N i c1" "i < N"
    by (rule becomes_quiet [OF assms])
  note run1 = cluster_run_trans [OF assms(1) q(1)]
  obtain c2 where c2: "cluster_run (electing N i) c1 = Some c2" "installed (cl_nodes c2 ! i)" "open_cluster N c2"
      "inboxes c2 ! i = []" "calm (currentTerm (cl_nodes c2 ! i)) c2" "currentTerm (cl_nodes c2 ! i) = currentTerm (cl_nodes c1 ! i) + 1"
    by (rule quiet_installs [OF run1 assms(2) q(4,2,3)])
  let ?T = "currentTerm (cl_nodes c2 ! i)"
  obtain es3 c3 L where c3: "cluster_run es3 c2 = Some c3" "serving N i L ?T c3" "le_command (last L) = cmd"
      "\<And>p. p < N \<Longrightarrow> p \<noteq> i \<Longrightarrow> pending i L ?T c3 p"
    using starts_serving [where cmd = cmd, OF cluster_run_trans [OF run1 c2(1)] q(4) c2(2-5)] by metis
  obtain es4 c4 where c4: "cluster_run es4 c3 = Some c4" "serving N i L ?T c4" "length L \<le> commitIndex (cl_nodes c4 ! i)"
      "\<forall>p < N. p \<noteq> i \<longrightarrow> replicated i L c4 p \<and> length L \<le> commitIndex (cl_nodes c4 ! p)"
    using serves_everyone [OF c3(2) assms(2) c3(4)] by blast
  obtain s where len: "length (cl_nodes c) = N" by (rule run_nodes_ok [OF assms(1)]) blast
  have len4: "length (cl_nodes c4) = N" using c4(2) by (simp add: serving_def at_rest_def open_cluster_def)
  have "list_all (\<lambda>n. currentTerm n < le_term (last L)) (cl_nodes c)"
    unfolding list_all_length len
  proof (intro allI impI)
    fix j assume j: "j < N"
    have "currentTerm (cl_nodes c ! j) \<le> currentTerm (cl_nodes c1 ! j)" using run_term_mono [OF q(1)] j len by simp
    also have "\<dots> \<le> currentTerm (cl_nodes c1 ! i)" using q(3) j by (simp add: best_candidate_def)
    finally show "currentTerm (cl_nodes c ! j) < le_term (last L)" using c2(6) c4(2) by (simp add: serving_def)
  qed
  moreover have "list_all (\<lambda>n. alive n \<and> length (rlog n) = length L \<and> last (rlog n) = last L \<and> length L \<le> commitIndex n) (cl_nodes c4)"
    unfolding list_all_length len4
  proof (intro allI impI)
    fix j assume "j < N"
    with c4(2-4) show "alive (cl_nodes c4 ! j) \<and> length (rlog (cl_nodes c4 ! j)) = length L \<and>
        last (rlog (cl_nodes c4 ! j)) = last L \<and> length L \<le> commitIndex (cl_nodes c4 ! j)"
      by (cases "j = i") (auto simp: serving_def IsLeader_def replicated_def)
  qed
  moreover have "list_ex IsLeader (cl_nodes c4)"
    using c4(2) len4 nth_mem [of i "cl_nodes c4"] by (auto simp: serving_def list_ex_iff)
  moreover have "0 < length L" using c4(2) by (simp add: serving_def)
  moreover have "cluster_run (es1 @ electing N i @ es3 @ es4) c = Some c4"
    using q(1) c2(1) c3(1) c4(1) by (simp add: cluster_run_append)
  ultimately show ?thesis using c3(3) by blast
qed

text \<open>Three crashed nodes with messages in every mailbox, behind a partition.\<close>

lemma command_can_always_commit_witness:
  "let c = the (cluster_run [Timeout 0, Timeout 1, KillEv 0, KillEv 1, KillEv 2, PartitionEv [0] [1, 2]] (New 3))
   in list_ex alive (cl_nodes c) = False \<and> map length (inboxes c) = [1, 1, 2] \<and>
      (\<exists>es' c' e k. cluster_run es' c = Some c' \<and> le_command e = ''set x'' \<and> 0 < k \<and> list_ex IsLeader (cl_nodes c') \<and>
         list_all (\<lambda>n. currentTerm n < le_term e) (cl_nodes c) \<and>
         list_all (\<lambda>n. alive n \<and> length (rlog n) = k \<and> last (rlog n) = e \<and> k \<le> commitIndex n) (cl_nodes c'))"
proof -
  let ?r = "cluster_run [Timeout 0, Timeout 1, KillEv 0, KillEv 1, KillEv 2, PartitionEv [0] [1, 2]] (New 3)"
  have r: "?r \<noteq> None" and shape: "list_ex alive (cl_nodes (the ?r)) = False" "map length (inboxes (the ?r)) = [1, 1, 2]"
    by code_simp+
  note commit = command_can_always_commit [OF option.collapse [OF r, symmetric], of "''set x''"]
  show ?thesis unfolding Let_def using shape commit by simp
qed

end
