(* ===== verification/Fault_UI.thy ===== *)
theory Fault_UI
  imports Store_Invariant
begin

text \<open>
  The fault controls: the desktop bar \<open>components/ControlPanel.jsx\<close>, the mobile button
  \<open>components/MobileFab.jsx\<close>, the clicks on the canvas of \<open>components/ClusterView.jsx\<close> and
  the highlight of \<open>components/NodeCard.jsx\<close>. A component's hooks are fields of its record,
  beside the global store; every call of \<open>sendFault\<close> appends to \<open>outbox\<close>, where the
  WebSocket hook has installed it (\<open>sendFault_set\<close>).
\<close>

section \<open>Faults\<close>

record fault =
  f_action :: string
  f_targets :: "int list"
  f_groups :: "int list list"
  f_command :: string

text \<open>\<open>panel\<close>: the state a fault control reads and writes.\<close>

record panel =
  pn_store :: store
  outbox :: "fault list"
  cmdText :: string
  tutorialOpen :: bool
  fabOpen :: bool

definition send_fault :: "string \<Rightarrow> int list \<Rightarrow> int list list \<Rightarrow> string \<Rightarrow> panel \<Rightarrow> panel" where
  "send_fault a ts gs cmd p =
     (if sendFault_set (pn_store p)
      then p\<lparr>outbox := outbox p @ [\<lparr>f_action = a, f_targets = ts, f_groups = gs, f_command = cmd\<rparr>]\<rparr>
      else p)"

definition upd_store :: "(store \<Rightarrow> store) \<Rightarrow> panel \<Rightarrow> panel" where
  "upd_store f p = p\<lparr>pn_store := f (pn_store p)\<rparr>"

text \<open>\<open>String.prototype.trim\<close> on 8-bit characters.\<close>

definition js_space :: "char \<Rightarrow> bool" where
  "js_space c \<longleftrightarrow> (of_char c :: nat) \<in> {9, 10, 11, 12, 13, 32, 160}"

definition js_trim :: "string \<Rightarrow> string" where
  "js_trim s = rev (dropWhile js_space (rev (dropWhile js_space s)))"

section \<open>ControlPanel.jsx\<close>

definition aliveNodes :: "store \<Rightarrow> view_node list" where
  "aliveNodes s = filter n_alive (nodes s)"

definition groupB :: "store \<Rightarrow> int list" where
  "groupB s = filter (\<lambda>i. i \<notin> set (partitionGroupA s)) (map n_id (aliveNodes s))"

definition canConfirmGroupA :: "store \<Rightarrow> bool" where
  "canConfirmGroupA s \<longleftrightarrow> length (partitionGroupA s) > 0 \<and> length (partitionGroupA s) < length (aliveNodes s)"

definition showEscHint :: "panel \<Rightarrow> bool" where
  "showEscHint p \<longleftrightarrow> (actionMode (pn_store p) \<noteq> None \<and> actionMode (pn_store p) \<noteq> Some MCmd) \<or> tutorialOpen p"

definition closeAction :: "panel \<Rightarrow> panel" where
  "closeAction p = (upd_store cancelAction p)\<lparr>cmdText := []\<rparr>"

text \<open>A mouse press: \<open>outside\<close> says that it is not inside the bar.\<close>

definition onDown :: "bool \<Rightarrow> panel \<Rightarrow> panel" where
  "onDown outside p =
     (if \<not> (actionMode (pn_store p) = Some MCmd \<or> tutorialOpen p) then p
      else if outside then
        let p1 = (if actionMode (pn_store p) = Some MCmd then (upd_store cancelAction p)\<lparr>cmdText := []\<rparr> else p)
        in (if tutorialOpen p then p1\<lparr>tutorialOpen := False\<rparr> else p1)
      else p)"

definition onKeyDown :: "string \<Rightarrow> panel \<Rightarrow> panel" where
  "onKeyDown key p =
     (if key = ''Escape'' \<and> (actionMode (pn_store p) \<noteq> None \<or> tutorialOpen p)
      then (upd_store cancelAction p)\<lparr>cmdText := [], tutorialOpen := False\<rparr> else p)"

definition submitCmd :: "panel \<Rightarrow> panel" where
  "submitCmd p =
     (if js_trim (cmdText p) = [] \<or> \<not> sendFault_set (pn_store p) then p
      else closeAction (send_fault ''submit'' [] [] (js_trim (cmdText p)) p))"

definition confirmPartitionA :: "panel \<Rightarrow> panel" where
  "confirmPartitionA p =
     (if length (partitionGroupA (pn_store p)) = 0 \<or>
         length (partitionGroupA (pn_store p)) = length (aliveNodes (pn_store p)) then p
      else upd_store goPartitionConfirm p)"

definition sendPartition :: "panel \<Rightarrow> panel" where
  "sendPartition p =
     (let a = partitionGroupA (pn_store p); b = groupB (pn_store p)
      in if \<not> sendFault_set (pn_store p) then p
         else if length a = 0 \<or> length b = 0 then p
         else closeAction (upd_store (setActivePartitionGroups (Some [Some a, Some b]))
                (send_fault ''partition'' [] [a, b] [] p)))"

definition startAction :: "action_mode \<Rightarrow> panel \<Rightarrow> panel" where
  "startAction mode p =
     (let p1 = p\<lparr>tutorialOpen := False\<rparr>
      in if actionMode (pn_store p) = Some mode then closeAction p1
         else upd_store (beginAction (Some mode)) p1)"

definition toggleTutorial :: "panel \<Rightarrow> panel" where
  "toggleTutorial p =
     (if tutorialOpen p then p\<lparr>tutorialOpen := False\<rparr>
      else (upd_store cancelAction p)\<lparr>cmdText := [], tutorialOpen := True\<rparr>)"

definition handleHealClick :: "panel \<Rightarrow> panel" where
  "handleHealClick p = startAction MHeal p"

text \<open>
  The panels the bar renders and what they show: the command form with its text and whether
  the send button is disabled; the size of group A, the number of live nodes and whether the
  confirm button is disabled; the two groups of the partition; the mode of the target picker.
\<close>

datatype bar_panel =
    TutorialPanel
  | CommandPanel string bool
  | SelectPanel nat nat bool
  | ConfirmPanel "int list" "int list"
  | TargetPanel action_mode

definition bar_panels :: "panel \<Rightarrow> bar_panel list" where
  "bar_panels p =
     (let s = pn_store p in
      (if tutorialOpen p then [TutorialPanel] else []) @
      (if actionMode s = Some MCmd then [CommandPanel (cmdText p) (js_trim (cmdText p) = [])] else []) @
      (if actionMode s = Some MPartitionSelect
       then [SelectPanel (length (partitionGroupA s)) (length (aliveNodes s)) (\<not> canConfirmGroupA s)] else []) @
      (if actionMode s = Some MPartitionConfirm then [ConfirmPanel (partitionGroupA s) (groupB s)] else []) @
      (if actionMode s = Some MKill then [TargetPanel MKill]
       else if actionMode s = Some MRestart then [TargetPanel MRestart]
       else if actionMode s = Some MHeal then [TargetPanel MHeal] else []))"

section \<open>MobileFab.jsx\<close>

definition fab_onKeyDown :: "string \<Rightarrow> panel \<Rightarrow> panel" where
  "fab_onKeyDown key p =
     (if key \<noteq> ''Escape'' then p else (upd_store cancelAction p)\<lparr>fabOpen := False\<rparr>)"

definition triggerAction :: "action_mode \<Rightarrow> panel \<Rightarrow> panel" where
  "triggerAction mode p =
     (let p1 = p\<lparr>fabOpen := False\<rparr>; am = actionMode (pn_store p)
      in if mode = MPartitionSelect \<and> (am = Some MPartitionSelect \<or> am = Some MPartitionConfirm)
         then upd_store cancelAction p1
         else if am = Some mode then upd_store cancelAction p1
         else upd_store (beginAction (Some mode)) p1)"

definition confirmGroupA :: "panel \<Rightarrow> panel" where
  "confirmGroupA p = (if \<not> canConfirmGroupA (pn_store p) then p else upd_store goPartitionConfirm p)"

definition commitPartition :: "panel \<Rightarrow> panel" where
  "commitPartition p =
     (let a = partitionGroupA (pn_store p); b = groupB (pn_store p)
      in if \<not> sendFault_set (pn_store p) \<or> length a = 0 \<or> length b = 0 then p
         else upd_store cancelAction (upd_store (setActivePartitionGroups (Some [Some a, Some b]))
                (send_fault ''partition'' [] [a, b] [] p)))"

text \<open>The mode panel above the button.\<close>

datatype fab_panel = FabHint | FabSelect nat nat bool | FabConfirm "int list" "int list"

definition fab_panels :: "panel \<Rightarrow> fab_panel list" where
  "fab_panels p =
     (let s = pn_store p in
      (if actionMode s = Some MKill \<or> actionMode s = Some MRestart \<or> actionMode s = Some MHeal then [FabHint] else []) @
      (if actionMode s = Some MPartitionSelect
       then [FabSelect (length (partitionGroupA s)) (length (aliveNodes s)) (\<not> canConfirmGroupA s)] else []) @
      (if actionMode s = Some MPartitionConfirm then [FabConfirm (partitionGroupA s) (groupB s)] else []))"

definition toggleFab :: "panel \<Rightarrow> panel" where
  "toggleFab p = p\<lparr>fabOpen := \<not> fabOpen p\<rparr>"

section \<open>The canvas\<close>

text \<open>\<open>partitionedSet\<close>: the ids of the groups last sent.\<close>

definition partitionedSet :: "store \<Rightarrow> int set" where
  "partitionedSet s = set (concat (activePartitionGroups s))"

text \<open>The result is whether the click was an action; \<open>false\<close> lets it select the node.\<close>

definition handleActionClick :: "view_node \<Rightarrow> panel \<Rightarrow> bool \<times> panel" where
  "handleActionClick node p =
     (let s = pn_store p in
      if actionMode s = Some MPartitionSelect then
        (True, if n_alive node then upd_store (togglePartitionGroupANode (n_id node)) p else p)
      else if actionMode s = Some MKill then
        if \<not> n_alive node then (True, p)
        else (True, upd_store cancelAction (send_fault ''kill'' [n_id node] [] [] p))
      else if actionMode s = Some MRestart then
        if n_alive node then (True, p)
        else (True, upd_store cancelAction (send_fault ''restart'' [n_id node] [] [] p))
      else if actionMode s = Some MHeal then
        if \<not> (\<not> n_alive node \<or> n_id node \<in> partitionedSet s) then (True, p)
        else if \<not> n_alive node then
          (True, upd_store cancelAction (send_fault ''restart'' [n_id node] [] [] p))
        else
          (True, upd_store cancelAction (upd_store clearActivePartitionGroups (send_fault ''heal'' [] [] [] p)))
      else if actionMode s = Some MPartitionConfirm then (True, p)
      else (False, p))"

text \<open>\<open>onNodeClick\<close>: the clicked card's id is looked up in the nodes now in the store.\<close>

definition onNodeClick :: "int \<Rightarrow> panel \<Rightarrow> panel" where
  "onNodeClick i p =
     (case find (\<lambda>n. n_id n = i) (nodes (pn_store p)) of
        None \<Rightarrow> p
      | Some node \<Rightarrow>
          (case handleActionClick node p of
             (True, p1) \<Rightarrow> p1
           | (False, p1) \<Rightarrow> upd_store (selectNode (Some i)) p1))"

definition onPaneClick :: "panel \<Rightarrow> panel" where
  "onPaneClick p = (if actionMode (pn_store p) \<noteq> None then p else upd_store (selectNode None) p)"

section \<open>NodeCard.jsx\<close>

definition inKnownPartition :: "view_node \<Rightarrow> store \<Rightarrow> bool" where
  "inKnownPartition node s = list_ex (\<lambda>group. n_id node \<in> set group) (activePartitionGroups s)"

definition selectable :: "view_node \<Rightarrow> store \<Rightarrow> bool" where
  "selectable node s =
     (if actionMode s = Some MKill then n_alive node
      else if actionMode s = Some MRestart then \<not> n_alive node
      else if actionMode s = Some MHeal then \<not> n_alive node \<or> inKnownPartition node s
      else if actionMode s = Some MPartitionSelect then n_alive node
      else False)"

definition roleClass :: "view_node \<Rightarrow> string" where
  "roleClass node =
     (if \<not> n_alive node then ''dead''
      else if n_role node = ''leader'' then ''leader''
      else if n_role node = ''candidate'' then ''candidate''
      else ''follower'')"

text \<open>The class list of the card.\<close>

definition card_classes :: "view_node \<Rightarrow> store \<Rightarrow> string list" where
  "card_classes node s =
     filter (\<lambda>c. c \<noteq> [])
       [''node'', roleClass node,
        if selectedNodeId s = Some (n_id node) then ''selected'' else [],
        if n_pulseSeq node \<noteq> 0 then ''pulseOnce'' else [],
        if actionMode s = Some MPartitionSelect \<and> selectable node s then ''partitionSelectable'' else [],
        if actionMode s = Some MPartitionSelect \<and> n_id node \<in> set (partitionGroupA s) then ''partitionSelected'' else [],
        if actionMode s \<noteq> Some MPartitionSelect \<and> selectable node s then ''actionSelectable'' else []]"

end
