(* ===== verification/Fault_UI_Properties.thy ===== *)
theory Fault_UI_Properties
  imports Fault_UI
begin

text \<open>
  The fault controls as a machine over the user's events and the snapshots received: its
  panels exclude each other, what a card highlights is what a click does, and the faults it
  sends are well formed and name nodes it was told of.
\<close>

section \<open>The desktop bar and the canvas as a machine\<close>

datatype ui_event =
    Down bool
  | Key string
  | Typed string
  | SubmitForm
  | ConfirmA
  | ConfirmPartition
  | Start action_mode
  | Tutorial
  | CloseTutorial
  | CancelButton
  | NodeClick int
  | PaneClick
  | Snapshot_received string string "payload option"
  | SendFault_installed bool

fun panel_step :: "ui_event \<Rightarrow> panel \<Rightarrow> panel" where
  "panel_step (Down outside) p = onDown outside p"
| "panel_step (Key k) p = onKeyDown k p"
| "panel_step (Typed s) p = (if actionMode (pn_store p) = Some MCmd then p\<lparr>cmdText := s\<rparr> else p)"
| "panel_step SubmitForm p = submitCmd p"
| "panel_step ConfirmA p = confirmPartitionA p"
| "panel_step ConfirmPartition p = sendPartition p"
| "panel_step (Start m) p = startAction m p"
| "panel_step Tutorial p = toggleTutorial p"
| "panel_step CloseTutorial p = p\<lparr>tutorialOpen := False\<rparr>"
| "panel_step CancelButton p = closeAction p"
| "panel_step (NodeClick i) p = onNodeClick i p"
| "panel_step PaneClick p = onPaneClick p"
| "panel_step (Snapshot_received t1 t2 pl) p = upd_store (applyStateUpdate t1 t2 pl) p"
| "panel_step (SendFault_installed b) p = upd_store (setSendFault b) p"

definition init_panel :: "(string \<rightharpoonup> string) \<Rightarrow> panel" where
  "init_panel ls = \<lparr>pn_store = init_store ls, outbox = [], cmdText = [], tutorialOpen = False, fabOpen = False\<rparr>"

definition panel_run :: "ui_event list \<Rightarrow> panel \<Rightarrow> panel" where
  "panel_run es p = fold panel_step es p"

text \<open>A condition on the events, kept along a run.\<close>

lemma panel_run_inv:
  assumes "P p" and "\<And>e p. e \<in> set es \<Longrightarrow> P p \<Longrightarrow> P (panel_step e p)"
  shows "P (panel_run es p)"
  using assms
proof (induction es arbitrary: p)
  case (Cons e es)
  then have "P (panel_step e p)" by simp
  with Cons show ?case by (simp add: panel_run_def)
qed (simp add: panel_run_def)

section \<open>Field lemmas\<close>

lemmas ui_defs = onDown_def onKeyDown_def submitCmd_def confirmPartitionA_def sendPartition_def startAction_def
  toggleTutorial_def closeAction_def onPaneClick_def upd_store_def send_fault_def store_defs

lemma applyStateUpdate_sel [simp]:
  "actionMode (applyStateUpdate t1 t2 pl s) = actionMode s"
  "partitionGroupA (applyStateUpdate t1 t2 pl s) = partitionGroupA s"
  "activePartitionGroups (applyStateUpdate t1 t2 pl s) = activePartitionGroups s"
  "sendFault_set (applyStateUpdate t1 t2 pl s) = sendFault_set s"
  "selectedNodeId (applyStateUpdate t1 t2 pl s) = selectedNodeId s"
  by (simp_all add: applyStateUpdate_eq)

lemma applyStateUpdate_ids: "map n_id (nodes (applyStateUpdate t1 t2 pl s)) = map n_id (raw_nodes pl)"
  using map2_view_of_fields [OF length_tokens]
  by (simp add: applyStateUpdate_eq update_nodes_def ingest_nodes_eq del: map_map)

lemma handleActionClick_cases [case_names none toggled killed restarted healed]:
  obtains b where "handleActionClick node p = (b, p)" "b \<longleftrightarrow> actionMode (pn_store p) \<notin> {None, Some MCmd}"
  | "handleActionClick node p = (True, upd_store (togglePartitionGroupANode (n_id node)) p)"
      "actionMode (pn_store p) = Some MPartitionSelect" "n_alive node"
  | "handleActionClick node p = (True, upd_store cancelAction (send_fault ''kill'' [n_id node] [] [] p))"
      "actionMode (pn_store p) = Some MKill" "n_alive node"
  | "handleActionClick node p = (True, upd_store cancelAction (send_fault ''restart'' [n_id node] [] [] p))"
      "actionMode (pn_store p) = Some MRestart \<or> actionMode (pn_store p) = Some MHeal" "\<not> n_alive node"
  | "handleActionClick node p =
        (True, upd_store cancelAction (upd_store clearActivePartitionGroups (send_fault ''heal'' [] [] [] p)))"
      "actionMode (pn_store p) = Some MHeal" "n_alive node" "n_id node \<in> partitionedSet (pn_store p)"
proof (cases "actionMode (pn_store p)")
  case None
  with that(1) [of False] show ?thesis by (simp add: handleActionClick_def)
next
  case (Some m)
  show ?thesis
  proof (cases m)
    case MPartitionSelect
    with Some show ?thesis by (cases "n_alive node") (use that(1,2) in \<open>simp_all add: handleActionClick_def\<close>)
  next
    case MKill
    with Some show ?thesis by (cases "n_alive node") (use that(1,3) in \<open>simp_all add: handleActionClick_def\<close>)
  next
    case MRestart
    with Some show ?thesis by (cases "n_alive node") (use that(1,4) in \<open>simp_all add: handleActionClick_def\<close>)
  next
    case MHeal
    with Some show ?thesis
      by (cases "n_alive node"; cases "n_id node \<in> partitionedSet (pn_store p)")
        (use that(1,4,5) in \<open>simp_all add: handleActionClick_def\<close>)
  qed (use that(1) [of True] that(1) [of False] Some in \<open>simp_all add: handleActionClick_def\<close>)
qed

section \<open>The panels\<close>

definition panels_ok :: "panel \<Rightarrow> bool" where
  "panels_ok p \<longleftrightarrow> (tutorialOpen p \<longrightarrow> actionMode (pn_store p) = None)"

lemma onNodeClick_cases [case_names missing acted selected]:
  obtains "onNodeClick i p = p"
  | node where "node \<in> set (nodes (pn_store p))" "n_id node = i" "handleActionClick node p = (True, onNodeClick i p)"
  | node where "node \<in> set (nodes (pn_store p))" "n_id node = i"
      "handleActionClick node p = (False, p)" "onNodeClick i p = upd_store (selectNode (Some i)) p"
proof (cases "find (\<lambda>n. n_id n = i) (nodes (pn_store p))")
  case None
  then show ?thesis by (intro that(1)) (simp add: onNodeClick_def)
next
  case (Some node)
  then have node: "node \<in> set (nodes (pn_store p))" "n_id node = i"
    by (auto simp: find_Some_iff)
  show ?thesis
  proof (cases rule: handleActionClick_cases [of node p])
    case (none b)
    show ?thesis
    proof (cases b)
      case True
      with none(1) Some show ?thesis by (intro that(1)) (simp add: onNodeClick_def)
    next
      case False
      with none(1) Some show ?thesis by (intro that(3) [OF node]) (simp_all add: onNodeClick_def)
    qed
  qed (use that(2) [OF node] Some in \<open>simp_all add: onNodeClick_def\<close>)
qed

text \<open>What a click on the canvas keeps: shown on the node it acts on, and on the selection.\<close>

lemma onNodeClick_keeps:
  assumes "P p" and "\<And>node. node \<in> set (nodes (pn_store p)) \<Longrightarrow> P (snd (handleActionClick node p))"
    and "P (upd_store (selectNode (Some i)) p)"
  shows "P (onNodeClick i p)"
proof (cases rule: onNodeClick_cases [of i p])
  case (acted node)
  with assms(2) [OF acted(1)] show ?thesis by simp
qed (use assms in simp_all)

lemma panels_ok_action: "panels_ok p \<Longrightarrow> panels_ok (snd (handleActionClick node p))"
  by (cases rule: handleActionClick_cases [of node p]) (simp_all add: panels_ok_def ui_defs)

lemma panels_ok_step: "panels_ok p \<Longrightarrow> panels_ok (panel_step e p)"
proof (cases e)
  case (NodeClick i)
  assume ok: "panels_ok p"
  then have "panels_ok (upd_store (selectNode (Some i)) p)" by (simp add: panels_ok_def ui_defs)
  with ok NodeClick show ?thesis by (auto intro: onNodeClick_keeps panels_ok_action)
qed (auto simp: panels_ok_def ui_defs Let_def)

interpretation bar: invariant_system "\<lambda>p. \<exists>ls. p = init_panel ls" "\<lambda>p q. \<exists>e. q = panel_step e p" panels_ok
proof unfold_locales
  show "panels_ok p" if "\<exists>ls. p = init_panel ls" for p
    using that by (auto simp: panels_ok_def init_panel_def)
qed (auto intro: panels_ok_step)

lemma panel_run_reach:
  "reach (\<lambda>p. \<exists>ls. p = init_panel ls) (\<lambda>p q. \<exists>e. q = panel_step e p) (panel_run es (init_panel ls))"
proof (induction es rule: rev_induct)
  case Nil
  then show ?case by (auto simp: panel_run_def intro: reach_init)
next
  case (snoc e es)
  then show ?case by (auto simp: panel_run_def intro: reach_step)
qed

section \<open>The faults that are sent\<close>

text \<open>The ids a store and its panel know, and those a fault names.\<close>

definition ids_below :: "nat \<Rightarrow> int list \<Rightarrow> bool" where
  "ids_below N is \<longleftrightarrow> list_all (\<lambda>i. 0 \<le> i \<and> i < int N) is"

definition known_ids :: "nat \<Rightarrow> store \<Rightarrow> bool" where
  "known_ids N s \<longleftrightarrow> ids_below N (map n_id (nodes s)) \<and> ids_below N (partitionGroupA s)"

definition fault_ids :: "nat \<Rightarrow> fault \<Rightarrow> bool" where
  "fault_ids N f \<longleftrightarrow> ids_below N (f_targets f) \<and> list_all (ids_below N) (f_groups f)"

text \<open>The shapes of fault the user interface sends.\<close>

definition fault_ok :: "fault \<Rightarrow> bool" where
  "fault_ok f \<longleftrightarrow>
     (if f_action f = ''kill'' \<or> f_action f = ''restart'' then length (f_targets f) = 1 \<and> f_groups f = [] \<and> f_command f = []
      else if f_action f = ''partition'' then
        f_targets f = [] \<and> f_command f = [] \<and>
        (case f_groups f of [a, b] \<Rightarrow> a \<noteq> [] \<and> b \<noteq> [] \<and> set a \<inter> set b = {} \<and> distinct a | _ \<Rightarrow> False)
      else if f_action f = ''heal'' then f_targets f = [] \<and> f_groups f = [] \<and> f_command f = []
      else f_action f = ''submit'' \<and> f_targets f = [] \<and> f_groups f = [] \<and> f_command f \<noteq> [] \<and>
        js_trim (f_command f) = f_command f)"

text \<open>What snapshots an event brings.\<close>

definition event_ids :: "nat \<Rightarrow> ui_event \<Rightarrow> bool" where
  "event_ids N e = (case e of Snapshot_received _ _ pl \<Rightarrow> ids_below N (map n_id (raw_nodes pl)) | _ \<Rightarrow> True)"

definition ui_ok :: "nat \<Rightarrow> panel \<Rightarrow> bool" where
  "ui_ok N p \<longleftrightarrow> store_inv (pn_store p) \<and> known_ids N (pn_store p) \<and>
     list_all (\<lambda>f. fault_ok f \<and> fault_ids N f) (outbox p)"

lemma js_trim_again [simp]: "js_trim (js_trim s) = js_trim s"
proof -
  have drop: "dropWhile P (dropWhile P xs) = dropWhile P xs" for P :: "char \<Rightarrow> bool" and xs
    by (induction xs) auto
  have hd: "dropWhile P (rev (dropWhile P (rev xs))) = rev (dropWhile P (rev xs))"
    if "dropWhile P xs = xs" for P :: "char \<Rightarrow> bool" and xs
  proof (cases "rev (dropWhile P (rev xs))")
    case (Cons y ys)
    have "prefix (rev (dropWhile P (rev xs))) xs"
      by (metis rev_rev_ident suffix_dropWhile suffix_to_prefix)
    with Cons that have "hd xs = y" "xs \<noteq> []" by (auto simp: prefix_def)
    with that have "\<not> P y" by (metis hd_dropWhile)
    with Cons show ?thesis by simp
  next
    case Nil
    then show ?thesis by (simp only: dropWhile.simps)
  qed
  show ?thesis unfolding js_trim_def by (simp add: hd [OF drop] drop)
qed

lemma ids_below_groupB: "ids_below N (map n_id (nodes s)) \<Longrightarrow> ids_below N (groupB s)"
  by (auto simp: ids_below_def list_all_iff groupB_def aliveNodes_def)

lemma ui_ok_send:
  assumes "ui_ok N p" and "fault_ok \<lparr>f_action = a, f_targets = ts, f_groups = gs, f_command = c\<rparr>"
    and "ids_below N ts" and "list_all (ids_below N) gs"
  shows "ui_ok N (send_fault a ts gs c p)"
  using assms by (simp add: ui_ok_def send_fault_def fault_ids_def)

lemma ui_ok_upd:
  assumes "ui_ok N p" and "store_inv (f (pn_store p))" and "map n_id (nodes (f (pn_store p))) = map n_id (nodes (pn_store p))"
    and "set (partitionGroupA (f (pn_store p))) \<subseteq> set (partitionGroupA (pn_store p)) \<union> set (map n_id (nodes (pn_store p)))"
  shows "ui_ok N (upd_store f p)"
  using assms by (auto simp: ui_ok_def upd_store_def known_ids_def ids_below_def list_all_iff)

lemma ui_ok_act:
  assumes "ui_ok N p" and "store_step a (pn_store p) = f (pn_store p)"
    and "nodes (f (pn_store p)) = nodes (pn_store p)"
    and "set (partitionGroupA (f (pn_store p))) \<subseteq> set (partitionGroupA (pn_store p))"
  shows "ui_ok N (upd_store f p)"
proof (rule ui_ok_upd [OF assms(1)])
  show "store_inv (f (pn_store p))"
    using store_inv_step [of "pn_store p" a] assms(1,2) by (simp add: ui_ok_def)
qed (use assms in auto)

lemma ui_ok_store:
  assumes "ui_ok N p"
  shows "ui_ok N (upd_store cancelAction p)" "ui_ok N (upd_store (beginAction m) p)"
    "ui_ok N (upd_store goPartitionConfirm p)" "ui_ok N (upd_store clearActivePartitionGroups p)"
    "ui_ok N (upd_store (setActivePartitionGroups g) p)" "ui_ok N (upd_store (selectNode i) p)"
    "ui_ok N (upd_store (setSendFault b) p)"
  using ui_ok_act [OF assms, of CancelAction cancelAction] ui_ok_act [OF assms, of "BeginAction m" "beginAction m"]
    ui_ok_act [OF assms, of GoPartitionConfirm goPartitionConfirm]
    ui_ok_act [OF assms, of ClearActivePartitionGroups clearActivePartitionGroups]
    ui_ok_act [OF assms, of "SetActivePartitionGroups g" "setActivePartitionGroups g"]
    ui_ok_act [OF assms, of "SelectNode i" "selectNode i"] ui_ok_act [OF assms, of "SetSendFault b" "setSendFault b"]
  by (simp_all add: store_defs Let_def)

lemma ui_ok_hooks [simp]:
  "ui_ok N (p\<lparr>cmdText := c\<rparr>) = ui_ok N p" "ui_ok N (p\<lparr>tutorialOpen := b\<rparr>) = ui_ok N p"
  by (simp_all add: ui_ok_def)

lemma ui_ok_close: "ui_ok N p \<Longrightarrow> ui_ok N (closeAction p)"
  by (simp add: closeAction_def ui_ok_store)

lemma ui_ok_submit: "ui_ok N p \<Longrightarrow> ui_ok N (submitCmd p)"
  by (auto simp: submitCmd_def fault_ok_def ids_below_def intro!: ui_ok_close ui_ok_send)

lemma ui_ok_partition: "ui_ok N p \<Longrightarrow> ui_ok N (sendPartition p)"
proof -
  assume ok: "ui_ok N p"
  let ?a = "partitionGroupA (pn_store p)" and ?b = "groupB (pn_store p)"
  have "ids_below N ?a" "ids_below N ?b" "distinct ?a" "set ?a \<inter> set ?b = {}"
    using ok ids_below_groupB [of N "pn_store p"]
    by (auto simp: ui_ok_def known_ids_def store_inv_def workflow_ok_def groupB_def)
  then have "ui_ok N (send_fault ''partition'' [] [?a, ?b] [] p)" if "?a \<noteq> []" "?b \<noteq> []"
    using that by (intro ui_ok_send [OF ok]) (auto simp: fault_ok_def ids_below_def)
  with ok show ?thesis by (simp add: sendPartition_def Let_def ui_ok_close ui_ok_store)
qed

lemma ui_ok_click: "ui_ok N p \<Longrightarrow> node \<in> set (nodes (pn_store p)) \<Longrightarrow> ui_ok N (snd (handleActionClick node p))"
proof -
  assume ok: "ui_ok N p" and node: "node \<in> set (nodes (pn_store p))"
  then have "0 \<le> n_id node \<and> n_id node < int N"
    by (auto simp: ui_ok_def known_ids_def ids_below_def list_all_iff)
  then have id: "ids_below N [n_id node]" by (simp add: ids_below_def)
  show ?thesis
  proof (cases rule: handleActionClick_cases [of node p])
    case toggled
    have "store_inv (togglePartitionGroupANode (n_id node) (pn_store p))"
      using ok store_inv_step [of "pn_store p" "TogglePartitionGroupANode (n_id node)"] by (simp add: ui_ok_def)
    then have "ui_ok N (upd_store (togglePartitionGroupANode (n_id node)) p)"
      by (rule ui_ok_upd [OF ok]) (use node in \<open>auto simp: togglePartitionGroupANode_def\<close>)
    with toggled show ?thesis by simp
  qed (use ok id in \<open>simp_all add: ui_ok_store ui_ok_send fault_ok_def ids_below_def\<close>)
qed

lemma ui_ok_step: "ui_ok N p \<Longrightarrow> event_ids N e \<Longrightarrow> ui_ok N (panel_step e p)"
proof (cases e)
  case (NodeClick i)
  assume ok: "ui_ok N p"
  with NodeClick show ?thesis
    by (auto intro: onNodeClick_keeps [where P = "ui_ok N"] ui_ok_click ui_ok_store)
next
  case (Snapshot_received t1 t2 pl)
  assume ok: "ui_ok N p" and ids: "event_ids N e"
  with Snapshot_received store_inv_step [of "pn_store p" "ApplyStateUpdate t1 t2 pl"] show ?thesis
    by (simp add: ui_ok_def upd_store_def known_ids_def event_ids_def applyStateUpdate_ids)
qed (auto simp: onDown_def onKeyDown_def confirmPartitionA_def startAction_def toggleTutorial_def onPaneClick_def
      Let_def ui_ok_submit ui_ok_partition ui_ok_close ui_ok_store)

lemma ui_ok_init: "ui_ok N (init_panel ls)"
  by (simp add: ui_ok_def init_panel_def store_inv_init known_ids_def ids_below_def) (simp add: init_store_def)

lemma ui_ok_run: "list_all (event_ids N) es \<Longrightarrow> ui_ok N (panel_run es (init_panel ls))"
  by (rule panel_run_inv [OF ui_ok_init ui_ok_step]) (auto simp: list_all_iff)

section \<open>Properties\<close>

text \<open>
  C36: The panels of the control bar never overlap: whatever the user clicks, types or presses
  and whatever snapshots arrive, at most one of the tutorial, the command form, the two
  partition steps and the target picker is rendered, and Escape closes it.
\<close>

theorem bar_panels_exclusive:
  "length (bar_panels (panel_run es (init_panel ls))) \<le> 1 \<and>
   bar_panels (panel_step (Key ''Escape'') (panel_run es (init_panel ls))) = []"
proof -
  let ?p = "panel_run es (init_panel ls)"
  have "panels_ok ?p" by (rule bar.reach_inv [OF panel_run_reach])
  then have "length (bar_panels ?p) \<le> 1" by (auto simp: bar_panels_def panels_ok_def Let_def)
  moreover have "bar_panels (onKeyDown ''Escape'' ?p) = []"
    by (auto simp: bar_panels_def Let_def onKeyDown_def upd_store_def cancelAction_def)
  ultimately show ?thesis by simp
qed


text \<open>
  The partition the user confirms: when the confirm button does anything, it sends one
  partition fault whose two groups are non-empty and disjoint, the second one of live nodes,
  together covering every live node, and the store remembers exactly these groups and leaves
  the workflow.
\<close>

theorem partition_fault_splits_live_nodes:
  "sendPartition p = p \<or>
   (let a = partitionGroupA (pn_store p); b = groupB (pn_store p); q = sendPartition p;
        live = set (map n_id (aliveNodes (pn_store p)))
    in outbox q = outbox p @ [\<lparr>f_action = ''partition'', f_targets = [], f_groups = [a, b], f_command = []\<rparr>] \<and>
       a \<noteq> [] \<and> b \<noteq> [] \<and> set a \<inter> set b = {} \<and> set b \<subseteq> live \<and> live \<subseteq> set a \<union> set b \<and>
       activePartitionGroups (pn_store q) = [a, b] \<and> actionMode (pn_store q) = None \<and> partitionGroupA (pn_store q) = [])"
proof -
  have "set (groupB s) = set (map n_id (aliveNodes s)) - set (partitionGroupA s)" for s
    by (auto simp: groupB_def)
  then show ?thesis
    by (auto simp: sendPartition_def Let_def closeAction_def upd_store_def send_fault_def store_defs List.map_filter_def)
qed

text \<open>
  The mobile button and the desktop bar agree: confirming a partition sends the same fault
  and leaves the same store, the partition steps preview the same groups, and starting an action has the same effect on the store, but for
  the one difference \<open>MobileFab\<close> is written to make: its partition entry also cancels the
  confirmation step.
\<close>

theorem mobile_and_desktop_agree:
  "pn_store (commitPartition p) = pn_store (sendPartition p) \<and> outbox (commitPartition p) = outbox (sendPartition p) \<and>
   (FabSelect a k off \<in> set (fab_panels p)) = (SelectPanel a k off \<in> set (bar_panels p)) \<and>
   (FabConfirm ga gb \<in> set (fab_panels p)) = (ConfirmPanel ga gb \<in> set (bar_panels p)) \<and>
   pn_store (triggerAction m p) =
     (if m = MPartitionSelect \<and> actionMode (pn_store p) = Some MPartitionConfirm then cancelAction (pn_store p)
      else pn_store (startAction m p))"
  by (auto simp: commitPartition_def sendPartition_def triggerAction_def startAction_def closeAction_def Let_def
      upd_store_def send_fault_def fab_panels_def bar_panels_def)

text \<open>
  Every fault the user can cause is well formed and aimed at a node of the cluster: if the
  snapshots received only name the nodes 0 to N-1, then in every fault sent the targets and the
  groups do too; a kill or restart has one target, a partition two disjoint non-empty groups,
  a submit a trimmed non-empty command.
\<close>

theorem sent_faults_well_formed:
  assumes "list_all (event_ids N) es"
  shows "list_all (\<lambda>f. fault_ok f \<and> fault_ids N f) (outbox (panel_run es (init_panel ls)))"
  using ui_ok_run [OF assms] by (simp add: ui_ok_def)

definition demo_node :: "int \<Rightarrow> wire_node" where
  "demo_node i = \<lparr>n_id = i, n_role = ''follower'', n_term = 0, n_alive = True, n_votedFor = None,
     n_commitIndex = 0, n_lastApplied = 0, w_log = None\<rparr>"

definition demo_clicks :: "ui_event list" where
  "demo_clicks =
     [SendFault_installed True,
      Snapshot_received [] [] (Some \<lparr>p_nodes = Some [demo_node 0, demo_node 1, demo_node 2], p_inFlight = None\<rparr>),
      Start MPartitionSelect, NodeClick 1, ConfirmA, ConfirmPartition, Start MKill, NodeClick 2,
      Start MCmd, Typed '' x=1 '', SubmitForm]"

lemma sent_faults_well_formed_witness:
  "let fs = outbox (panel_run demo_clicks (init_panel (\<lambda>k. None)))
   in map f_action fs = [''partition'', ''kill'', ''submit''] \<and> map f_groups fs = [[[1], [0, 2]], [], []] \<and>
      list_all (\<lambda>f. fault_ok f \<and> fault_ids 3 f) fs"
proof -
  have ids: "list_all (event_ids 3) demo_clicks" by code_simp
  have "map f_action (outbox (panel_run demo_clicks (init_panel (\<lambda>k. None)))) = [''partition'', ''kill'', ''submit'']"
    "map f_groups (outbox (panel_run demo_clicks (init_panel (\<lambda>k. None)))) = [[[1], [0, 2]], [], []]"
    by code_simp+
  with sent_faults_well_formed [OF ids, of "\<lambda>k. None"] show ?thesis by (simp only: Let_def simp_thms)
qed

end
