(* ===== verification/Raft_WS.thy ===== *)
theory Raft_WS
  imports Fault_UI
begin

text \<open>
  The WebSocket hook \<open>hooks/useRaftWS.js\<close>: the socket it holds and the ones it has left
  behind, the reconnect timer, the coalescing of snapshots on mobile devices, and the two
  outbound messages. A socket is its number; the browser's side (\<open>readyState\<close>, when events
  fire) follows the WebSocket standard: a message is delivered on an open socket only, \<open>close\<close>
  is reported once, and a handler that was set to null does not run.
\<close>

datatype ready_state = RConnecting | ROpen | RClosing | RClosed

datatype wire_message =
    FAULT_INJECT fault
  | CLIENT_COMMAND string

text \<open>
  \<open>sockets\<close> has the state of every socket made so far; \<open>detached\<close> are those whose
  \<open>onclose\<close> and \<open>onerror\<close> were cleared. \<open>connectTimers\<close> are the pending timeouts that call
  \<open>connect\<close>; the two pending payloads of \<open>undefined\<close> and null are \<open>None\<close>.
\<close>

record hook =
  h_store :: store
  wsRef :: "nat option"
  sockets :: "ready_state list"
  detached :: "nat list"
  timerRef :: "nat option"
  connectTimers :: "nat list"
  nextTimer :: nat
  disposedRef :: bool
  isMobileRef :: bool
  stateFlushTimer :: bool
  pendingPayload :: "payload option"
  sent_out :: "(nat \<times> wire_message) list"

definition upd_h :: "(store \<Rightarrow> store) \<Rightarrow> hook \<Rightarrow> hook" where
  "upd_h f h = h\<lparr>h_store := f (h_store h)\<rparr>"

definition set_socket :: "nat \<Rightarrow> ready_state \<Rightarrow> hook \<Rightarrow> hook" where
  "set_socket k r h = h\<lparr>sockets := (sockets h)[k := r]\<rparr>"

text \<open>The address: the configured one when it is set and not empty, else the page's own host.\<close>

definition getWsUrl :: "string option \<Rightarrow> string \<Rightarrow> string \<Rightarrow> string" where
  "getWsUrl VITE_WS_URL protocol host =
     (case VITE_WS_URL of
        Some (c # cs) \<Rightarrow> c # cs
      | _ \<Rightarrow> (if protocol = ''https:'' then ''wss'' else ''ws'') @ ''://'' @ host @ ''/ws'')"

section \<open>Incoming snapshots\<close>

definition scheduleStateApply :: "string \<Rightarrow> string \<Rightarrow> payload option \<Rightarrow> hook \<Rightarrow> hook" where
  "scheduleStateApply t1 t2 pl h =
     (if \<not> isMobileRef h then upd_h (applyStateUpdate t1 t2 pl) h
      else
        let h1 = h\<lparr>pendingPayload := pl\<rparr>
        in if stateFlushTimer h1 then h1 else h1\<lparr>stateFlushTimer := True\<rparr>)"

text \<open>The callback of the flush timer.\<close>

definition flush :: "string \<Rightarrow> string \<Rightarrow> hook \<Rightarrow> hook" where
  "flush t1 t2 h =
     (let nextPayload = pendingPayload h;
          h1 = h\<lparr>stateFlushTimer := False, pendingPayload := None\<rparr>
      in case nextPayload of None \<Rightarrow> h1 | Some p \<Rightarrow> upd_h (applyStateUpdate t1 t2 (Some p)) h1)"

section \<open>The connection\<close>

definition connect :: "hook \<Rightarrow> hook" where
  "connect h =
     (if disposedRef h then h
      else (upd_h (setWsStatus Connecting) h)\<lparr>sockets := sockets h @ [RConnecting], wsRef := Some (length (sockets h))\<rparr>)"

definition ignored :: "nat \<Rightarrow> hook \<Rightarrow> bool" where
  "ignored k h \<longleftrightarrow> disposedRef h \<or> wsRef h \<noteq> Some k"

definition ws_onopen :: "nat \<Rightarrow> hook \<Rightarrow> hook" where
  "ws_onopen k h = (if ignored k h then h else upd_h (setWsStatus Connected) h)"

text \<open>What \<open>JSON.parse\<close> and the test of \<open>msg.type\<close> make of the data.\<close>

datatype ws_data = Unparsable | Other_type | STATE_UPDATE "payload option"

definition ws_onmessage :: "nat \<Rightarrow> string \<Rightarrow> string \<Rightarrow> ws_data \<Rightarrow> hook \<Rightarrow> hook" where
  "ws_onmessage k t1 t2 d h =
     (if ignored k h then h
      else case d of
        Unparsable \<Rightarrow> h
      | Other_type \<Rightarrow> h
      | STATE_UPDATE pl \<Rightarrow> scheduleStateApply t1 t2 pl h)"

definition ws_onclose :: "nat \<Rightarrow> hook \<Rightarrow> hook" where
  "ws_onclose k h =
     (if ignored k h then h
      else (upd_h (setWsStatus Reconnecting) h)
        \<lparr>connectTimers := connectTimers h @ [nextTimer h], timerRef := Some (nextTimer h), nextTimer := Suc (nextTimer h)\<rparr>)"

text \<open>\<open>ws.close()\<close>\<close>

definition ws_close :: "nat \<Rightarrow> hook \<Rightarrow> hook" where
  "ws_close k h = (if k < length (sockets h) \<and> sockets h ! k = RClosed then h else set_socket k RClosing h)"

definition ws_onerror :: "nat \<Rightarrow> hook \<Rightarrow> hook" where
  "ws_onerror k h = (if ignored k h then h else ws_close k h)"

section \<open>Outgoing messages\<close>

definition ws_open :: "hook \<Rightarrow> nat option" where
  "ws_open h =
     (case wsRef h of None \<Rightarrow> None
      | Some k \<Rightarrow> if k < length (sockets h) \<and> sockets h ! k = ROpen then Some k else None)"

text \<open>\<open>x ?? d\<close>\<close>

definition nullish :: "'a option \<Rightarrow> 'a \<Rightarrow> 'a" where
  "nullish x d = (case x of None \<Rightarrow> d | Some v \<Rightarrow> v)"

definition sendFault :: "string \<Rightarrow> int list option \<Rightarrow> int list list option \<Rightarrow> string option \<Rightarrow> hook \<Rightarrow> hook" where
  "sendFault action targets partitionGroups command h =
     (case ws_open h of
        None \<Rightarrow> h
      | Some k \<Rightarrow> h\<lparr>sent_out := sent_out h @
          [(k, FAULT_INJECT \<lparr>f_action = action, f_targets = nullish targets [], f_groups = nullish partitionGroups [],
                             f_command = nullish command []\<rparr>)]\<rparr>)"

definition sendClientCommand :: "string option \<Rightarrow> hook \<Rightarrow> hook" where
  "sendClientCommand command h =
     (case ws_open h of
        None \<Rightarrow> h
      | Some k \<Rightarrow> h\<lparr>sent_out := sent_out h @ [(k, CLIENT_COMMAND (nullish command []))]\<rparr>)"

section \<open>Mounting and unmounting\<close>

text \<open>The effect's body; \<open>mobile\<close> is what the media query says now.\<close>

definition mount :: "bool \<Rightarrow> hook \<Rightarrow> hook" where
  "mount mobile h =
     connect (upd_h (setSendClientCommand True) (upd_h (setSendFault True)
       (h\<lparr>disposedRef := False, isMobileRef := mobile\<rparr>)))"

text \<open>The effect's clean-up.\<close>

definition unmount :: "hook \<Rightarrow> hook" where
  "unmount h =
     (let h1 = h\<lparr>disposedRef := True,
                 connectTimers := (case timerRef h of None \<Rightarrow> connectTimers h | Some t \<Rightarrow> filter (\<lambda>u. u \<noteq> t) (connectTimers h)),
                 timerRef := None, stateFlushTimer := False, pendingPayload := None\<rparr>;
          h2 = upd_h (setSendClientCommand False) (upd_h (setSendFault False) h1);
          ws = wsRef h2;
          h3 = h2\<lparr>wsRef := None\<rparr>
      in case ws of None \<Rightarrow> h3 | Some k \<Rightarrow> ws_close k (h3\<lparr>detached := k # detached h3\<rparr>))"

definition syncMobile :: "bool \<Rightarrow> hook \<Rightarrow> hook" where
  "syncMobile matches h = h\<lparr>isMobileRef := matches\<rparr>"

section \<open>The hook as a machine\<close>

datatype hook_event =
    Mount bool
  | Unmount
  | MediaChange bool
  | Opened nat
  | Message_received nat string string ws_data
  | Closed nat
  | Errored nat
  | ConnectTimer nat
  | FlushTimer string string
  | SendFault string "int list option" "int list list option" "string option"
  | SendClientCommand "string option"

text \<open>Events that cannot happen in a state leave it as it is.\<close>

fun hook_step :: "hook_event \<Rightarrow> hook \<Rightarrow> hook" where
  "hook_step (Mount mobile) h = (if disposedRef h then mount mobile h else h)"
| "hook_step Unmount h = (if disposedRef h then h else unmount h)"
| "hook_step (MediaChange m) h = (if disposedRef h then h else syncMobile m h)"
| "hook_step (Opened k) h =
     (if k < length (sockets h) \<and> sockets h ! k = RConnecting then ws_onopen k (set_socket k ROpen h) else h)"
| "hook_step (Message_received k t1 t2 d) h =
     (if k < length (sockets h) \<and> sockets h ! k = ROpen then ws_onmessage k t1 t2 d h else h)"
| "hook_step (Closed k) h =
     (if k < length (sockets h) \<and> sockets h ! k \<noteq> RClosed
      then (let h1 = set_socket k RClosed h in if k \<in> set (detached h) then h1 else ws_onclose k h1)
      else h)"
| "hook_step (Errored k) h =
     (if k < length (sockets h) \<and> sockets h ! k \<noteq> RClosed \<and> k \<notin> set (detached h) then ws_onerror k h else h)"
| "hook_step (ConnectTimer t) h =
     (if t \<in> set (connectTimers h) then connect (h\<lparr>connectTimers := filter (\<lambda>u. u \<noteq> t) (connectTimers h)\<rparr>) else h)"
| "hook_step (FlushTimer t1 t2) h = (if stateFlushTimer h then flush t1 t2 h else h)"
| "hook_step (SendFault a ts gs c) h = (if sendFault_set (h_store h) then sendFault a ts gs c h else h)"
| "hook_step (SendClientCommand c) h = (if sendClientCommand_set (h_store h) then sendClientCommand c h else h)"

definition hook_run :: "hook_event list \<Rightarrow> hook \<Rightarrow> hook" where
  "hook_run es h = fold hook_step es h"

text \<open>The first mount, on a store that the page has just created.\<close>

definition first_mount :: "bool \<Rightarrow> (string \<rightharpoonup> string) \<Rightarrow> hook" where
  "first_mount mobile ls =
     mount mobile
       \<lparr>h_store = init_store ls, wsRef = None, sockets = [], detached = [], timerRef = None, connectTimers = [],
        nextTimer = 0, disposedRef = False, isMobileRef = mobile, stateFlushTimer = False, pendingPayload = None,
        sent_out = []\<rparr>"

end
