(* ===== verification/Raft_WS_Properties.thy ===== *)
theory Raft_WS_Properties
  imports Raft_WS Fault_UI_Properties
begin

text \<open>
  The hook keeps one connection and one reconnect timer, is silent once disposed, and shows on
  a mobile device, at every flush, what a desktop shows. One order of events breaks the last.
\<close>

section \<open>The connection\<close>

text \<open>What the status shown and the reconnect timers are, by the state of the current socket.\<close>

definition link_ok :: "ready_state \<Rightarrow> ws_status \<Rightarrow> nat list \<Rightarrow> nat option \<Rightarrow> bool" where
  "link_ok r st timers ref =
     (case r of
        RConnecting \<Rightarrow> st = Connecting \<and> timers = []
      | ROpen \<Rightarrow> st = Connected \<and> timers = []
      | RClosing \<Rightarrow> st \<noteq> Reconnecting \<and> timers = []
      | RClosed \<Rightarrow> st = Reconnecting \<and> ref \<noteq> None \<and> timers = [the ref])"

definition left_behind :: "ready_state list \<Rightarrow> nat option \<Rightarrow> bool" where
  "left_behind socks cur \<longleftrightarrow> (\<forall>j < length socks. Some j \<noteq> cur \<longrightarrow> socks ! j = RClosing \<or> socks ! j = RClosed)"

definition conn_ok :: "hook \<Rightarrow> bool" where
  "conn_ok h \<longleftrightarrow>
     left_behind (sockets h) (wsRef h) \<and> set (detached h) \<subseteq> {..<length (sockets h)} \<and>
     (if disposedRef h then
        wsRef h = None \<and> connectTimers h = [] \<and> \<not> stateFlushTimer h \<and>
        \<not> sendFault_set (h_store h) \<and> \<not> sendClientCommand_set (h_store h)
      else
        (\<exists>k. wsRef h = Some k \<and> k < length (sockets h) \<and> k \<notin> set (detached h) \<and>
           link_ok (sockets h ! k) (wsStatus (h_store h)) (connectTimers h) (timerRef h)))"

lemma applyStateUpdate_ws [simp]:
  "wsStatus (applyStateUpdate t1 t2 pl s) = wsStatus s"
  "sendClientCommand_set (applyStateUpdate t1 t2 pl s) = sendClientCommand_set s"
  by (simp_all add: applyStateUpdate_eq)

lemmas hook_defs = mount_def unmount_def syncMobile_def ws_onopen_def ws_onmessage_def ws_onclose_def ws_onerror_def
  ws_close_def set_socket_def upd_h_def connect_def ignored_def scheduleStateApply_def flush_def sendFault_def
  sendClientCommand_def setWsStatus_def setSendFault_def setSendClientCommand_def

lemma conn_ok_apply: "conn_ok (upd_h (applyStateUpdate t1 t2 pl) h) = conn_ok h"
  by (simp add: conn_ok_def upd_h_def)

lemma conn_ok_schedule: "conn_ok h \<Longrightarrow> \<not> disposedRef h \<Longrightarrow> conn_ok (scheduleStateApply t1 t2 pl h)"
  by (simp add: scheduleStateApply_def Let_def conn_ok_apply) (simp add: conn_ok_def)

lemma conn_ok_flush: "conn_ok h \<Longrightarrow> conn_ok (flush t1 t2 h)"
  by (simp add: flush_def Let_def conn_ok_apply split: option.split) (simp add: conn_ok_def)

lemma left_behind_append: "left_behind socks cur \<Longrightarrow> (\<forall>k. cur = Some k \<longrightarrow> socks ! k = RClosed) \<Longrightarrow>
    left_behind (socks @ [r]) (Some (length socks))"
  by (auto simp: left_behind_def nth_append less_Suc_eq)

lemma conn_ok_mount: "conn_ok h \<Longrightarrow> disposedRef h \<Longrightarrow> conn_ok (mount m h)"
  using left_behind_append [of "sockets h" "wsRef h"]
  by (auto simp: conn_ok_def hook_defs link_ok_def)

lemma nth_upd: "j < length xs \<Longrightarrow> xs[k := x] ! j = (if j = k then x else xs ! j)"
  by (simp add: nth_list_update)

lemma left_behind_update:
  "left_behind socks cur \<Longrightarrow> Some k = cur \<or> r = RClosing \<or> r = RClosed \<Longrightarrow> left_behind (socks[k := r]) cur"
  by (auto simp: left_behind_def nth_upd)

lemma left_behind_close:
  "left_behind socks cur \<Longrightarrow> cur = Some k \<Longrightarrow> r = RClosing \<or> r = RClosed \<Longrightarrow> left_behind (socks[k := r]) None"
  by (auto simp: left_behind_def nth_upd)

lemma left_behind_closed: "left_behind socks (Some k) \<Longrightarrow> socks ! k = RClosed \<Longrightarrow> left_behind socks None"
  by (auto simp: left_behind_def)

lemma conn_ok_current:
  assumes "conn_ok h" and "\<not> disposedRef h"
  obtains k where "wsRef h = Some k" "k < length (sockets h)" "k \<notin> set (detached h)" "left_behind (sockets h) (Some k)"
    "link_ok (sockets h ! k) (wsStatus (h_store h)) (connectTimers h) (timerRef h)"
    "set (detached h) \<subseteq> {..<length (sockets h)}"
  using assms by (auto simp: conn_ok_def)

lemma conn_ok_currentI:
  assumes "wsRef h = Some k" "k < length (sockets h)" "k \<notin> set (detached h)" "left_behind (sockets h) (Some k)"
    "link_ok (sockets h ! k) (wsStatus (h_store h)) (connectTimers h) (timerRef h)"
    "set (detached h) \<subseteq> {..<length (sockets h)}" "\<not> disposedRef h"
  shows "conn_ok h"
  using assms by (auto simp: conn_ok_def)

lemma conn_ok_unmount:
  assumes "conn_ok h" and "\<not> disposedRef h"
  shows "conn_ok (unmount h)"
proof -
  obtain k where k: "wsRef h = Some k" "k < length (sockets h)" "left_behind (sockets h) (Some k)"
      "link_ok (sockets h ! k) (wsStatus (h_store h)) (connectTimers h) (timerRef h)"
      "set (detached h) \<subseteq> {..<length (sockets h)}"
    using conn_ok_current [OF assms] by metis
  have "(case timerRef h of None \<Rightarrow> connectTimers h | Some t \<Rightarrow> filter (\<lambda>u. u \<noteq> t) (connectTimers h)) = []"
    using k(4) by (cases "sockets h ! k") (auto simp: link_ok_def split: option.split)
  then show ?thesis
    using k left_behind_close [OF k(3), of k RClosing] left_behind_closed [OF k(3)]
    by (simp add: conn_ok_def hook_defs Let_def)
qed

lemma conn_ok_opened:
  assumes "conn_ok h" and "k < length (sockets h)" and "sockets h ! k = RConnecting"
  shows "conn_ok (ws_onopen k (set_socket k ROpen h))"
proof -
  have "wsRef h = Some k" "\<not> disposedRef h"
    using assms by (auto simp: conn_ok_def left_behind_def)
  with assms left_behind_update [of "sockets h" "wsRef h" k ROpen] show ?thesis
    by (auto simp: conn_ok_def hook_defs link_ok_def)
qed

lemma conn_ok_other_socket:
  assumes "conn_ok h" and "wsRef h \<noteq> Some k" and "r = RClosing \<or> r = RClosed"
  shows "conn_ok (set_socket k r h)"
  using assms left_behind_update [of "sockets h" "wsRef h" k r]
  by (auto simp: conn_ok_def set_socket_def nth_upd)

lemma disposed_no_ref: "conn_ok h \<Longrightarrow> disposedRef h \<Longrightarrow> wsRef h = None"
  by (simp add: conn_ok_def)

lemma conn_ok_closed:
  assumes "conn_ok h" and "k < length (sockets h)" and "sockets h ! k \<noteq> RClosed"
  shows "conn_ok (let h1 = set_socket k RClosed h in if k \<in> set (detached h) then h1 else ws_onclose k h1)"
proof (cases "wsRef h = Some k")
  case True
  then have "\<not> disposedRef h" using disposed_no_ref [OF assms(1)] by auto
  with True obtain k: "k \<notin> set (detached h)" "left_behind (sockets h) (Some k)"
      "link_ok (sockets h ! k) (wsStatus (h_store h)) (connectTimers h) (timerRef h)"
      "set (detached h) \<subseteq> {..<length (sockets h)}"
    using conn_ok_current [OF assms(1)] by (metis option.inject)
  have "connectTimers h = []" using k(3) assms(3) by (cases "sockets h ! k") (auto simp: link_ok_def)
  with k True \<open>\<not> disposedRef h\<close> assms(2) left_behind_update [OF k(2), of k RClosed] show ?thesis
    by (intro conn_ok_currentI [of _ k]) (simp_all add: hook_defs link_ok_def)
next
  case False
  with conn_ok_other_socket [OF assms(1), of k RClosed] show ?thesis
    by (simp add: Let_def ws_onclose_def ignored_def set_socket_def)
qed

lemma conn_ok_errored:
  assumes "conn_ok h" and "k < length (sockets h)" and "sockets h ! k \<noteq> RClosed"
  shows "conn_ok (ws_onerror k h)"
proof (cases "wsRef h = Some k")
  case True
  then have "\<not> disposedRef h" using disposed_no_ref [OF assms(1)] by auto
  with True obtain k: "k \<notin> set (detached h)" "left_behind (sockets h) (Some k)"
      "link_ok (sockets h ! k) (wsStatus (h_store h)) (connectTimers h) (timerRef h)"
      "set (detached h) \<subseteq> {..<length (sockets h)}"
    using conn_ok_current [OF assms(1)] by (metis option.inject)
  have "connectTimers h = [] \<and> wsStatus (h_store h) \<noteq> Reconnecting"
    using k(3) assms(3) by (cases "sockets h ! k") (auto simp: link_ok_def)
  with k True \<open>\<not> disposedRef h\<close> assms(2,3) left_behind_update [OF k(2), of k RClosing] show ?thesis
    by (intro conn_ok_currentI [of _ k]) (simp_all add: hook_defs link_ok_def)
next
  case False
  with assms(1) show ?thesis by (simp add: ws_onerror_def ignored_def)
qed

lemma conn_ok_timer:
  assumes "conn_ok h" and "t \<in> set (connectTimers h)"
  shows "conn_ok (connect (h\<lparr>connectTimers := filter (\<lambda>u. u \<noteq> t) (connectTimers h)\<rparr>))"
proof -
  have d: "\<not> disposedRef h" using assms by (auto simp: conn_ok_def)
  then obtain k where k: "wsRef h = Some k" "left_behind (sockets h) (Some k)"
      "link_ok (sockets h ! k) (wsStatus (h_store h)) (connectTimers h) (timerRef h)"
      "set (detached h) \<subseteq> {..<length (sockets h)}"
    using conn_ok_current [OF assms(1)] by metis
  have r: "sockets h ! k = RClosed" "connectTimers h = [t]"
    using k(3) assms(2) by (cases "sockets h ! k"; auto simp: link_ok_def)+
  show ?thesis
    by (rule conn_ok_currentI [where k = "length (sockets h)"])
      (use d k r left_behind_append [OF k(2), of RConnecting] in \<open>auto simp: hook_defs link_ok_def less_Suc_eq\<close>)
qed

lemma conn_ok_out [simp]: "conn_ok (h\<lparr>sent_out := ms\<rparr>) = conn_ok h"
  by (simp add: conn_ok_def)

lemma conn_ok_step: "conn_ok h \<Longrightarrow> conn_ok (hook_step e h)"
proof (cases e)
  case (Message_received k t1 t2 d)
  assume "conn_ok h"
  with Message_received show ?thesis
    by (auto simp: ws_onmessage_def ignored_def conn_ok_schedule split: ws_data.split)
next
  case (Closed k)
  assume "conn_ok h"
  with Closed show ?thesis using conn_ok_closed [of h k] by simp
next
  case (MediaChange m)
  assume "conn_ok h"
  with MediaChange show ?thesis by (simp add: syncMobile_def) (simp add: conn_ok_def)
next
  case (SendFault a ts gs c)
  assume "conn_ok h"
  with SendFault show ?thesis by (auto simp: sendFault_def split: option.split)
next
  case (SendClientCommand c)
  assume "conn_ok h"
  with SendClientCommand show ?thesis
    by (auto simp: sendClientCommand_def split: option.split)
qed (auto simp: conn_ok_mount conn_ok_unmount conn_ok_opened conn_ok_errored conn_ok_timer conn_ok_flush)

lemma conn_ok_first: "conn_ok (first_mount m ls)"
  by (simp add: first_mount_def conn_ok_def hook_defs left_behind_def link_ok_def)

interpretation connection: invariant_system "\<lambda>h. \<exists>m ls. h = first_mount m ls" "\<lambda>h g. \<exists>e. g = hook_step e h" conn_ok
  by unfold_locales (auto intro: conn_ok_first conn_ok_step)

lemma hook_run_reach:
  "reach (\<lambda>h. \<exists>m ls. h = first_mount m ls) (\<lambda>h g. \<exists>e. g = hook_step e h) (hook_run es (first_mount m ls))"
proof (induction es rule: rev_induct)
  case Nil
  then show ?case by (auto simp: hook_run_def intro: reach_init)
next
  case (snoc e es)
  then show ?case by (auto simp: hook_run_def intro: reach_step)
qed

section \<open>Snapshots replace each other\<close>

text \<open>
  The contract of a view that a snapshot determines: then a run of snapshots shows what its
  last one alone shows, and dropping earlier ones is not visible.
\<close>

locale snapshot_view =
  fixes apply_snap :: "'p \<Rightarrow> 's \<Rightarrow> 's" and view :: "'s \<Rightarrow> 'v" and shown :: "'p \<Rightarrow> 'v"
  assumes view_apply: "view (apply_snap p s) = shown p"
begin

lemma view_run: "ps \<noteq> [] \<Longrightarrow> view (fold apply_snap ps s) = shown (last ps)"
  by (induction ps rule: rev_induct) (simp_all add: view_apply)

lemma coalesce: "ps \<noteq> [] \<Longrightarrow> view (fold apply_snap ps s) = view (apply_snap (last ps) s')"
  by (simp add: view_run view_apply)

end

text \<open>What of the store a snapshot determines: the nodes but for the pulse tokens, and the RPCs.\<close>

definition snapshot_part :: "store \<Rightarrow> view_node list \<times> rpc list" where
  "snapshot_part s = (map (\<lambda>n. n\<lparr>n_pulseSeq := 0\<rparr>) (nodes s), inFlight s)"

definition payload_part :: "payload option \<Rightarrow> view_node list \<times> rpc list" where
  "payload_part pl = (map (view_of 0) (raw_nodes pl), next_in_flight pl)"

lemma map2_view_of_reset:
  "length ts = length ns \<Longrightarrow> map (\<lambda>n. n\<lparr>n_pulseSeq := 0\<rparr>) (map2 view_of ts ns) = map (view_of 0) ns"
  by (induction ts ns rule: list_induct2) (simp_all add: view_of_def)

lemma snapshot_part_apply: "snapshot_part (applyStateUpdate t1 t2 pl s) = payload_part pl"
  using map2_view_of_reset [OF length_tokens]
  by (simp add: snapshot_part_def payload_part_def applyStateUpdate_eq update_nodes_def ingest_nodes_eq del: map_map)

interpretation store_view: snapshot_view
  "\<lambda>(t1, t2, pl) s. applyStateUpdate t1 t2 pl s" snapshot_part "\<lambda>(t1, t2, pl). payload_part pl"
  by unfold_locales (auto simp: snapshot_part_apply)

section \<open>Properties\<close>

text \<open>
  C30: One connection: in every run of the hook, through drops, errors, reconnects, unmounting
  and remounting, at most one socket is connecting or open; and a mounted hook shows
  Reconnecting exactly while one reconnect timer is pending, Connecting while its socket is
  connecting and Connected while it is open.
\<close>

theorem one_connection_one_timer:
  "let h = hook_run es (first_mount m ls)
   in length (filter (\<lambda>r. r = RConnecting \<or> r = ROpen) (sockets h)) \<le> 1 \<and>
      (disposedRef h \<or>
        (case wsRef h of
           None \<Rightarrow> False
         | Some k \<Rightarrow> k < length (sockets h) \<and>
             length (connectTimers h) = (if wsStatus (h_store h) = Reconnecting then 1 else 0) \<and>
             (case sockets h ! k of
                RConnecting \<Rightarrow> wsStatus (h_store h) = Connecting
              | ROpen \<Rightarrow> wsStatus (h_store h) = Connected
              | RClosing \<Rightarrow> wsStatus (h_store h) \<noteq> Reconnecting
              | RClosed \<Rightarrow> wsStatus (h_store h) = Reconnecting)))"
proof -
  define h where "h = hook_run es (first_mount m ls)"
  have ok: "conn_ok h" unfolding h_def by (rule connection.reach_inv [OF hook_run_reach])
  have "length (filter (\<lambda>r. r = RConnecting \<or> r = ROpen) (sockets h)) \<le> 1"
  proof (rule length_filter_le_1)
    fix i j
    assume ij: "i < length (sockets h)" "j < length (sockets h)" "sockets h ! i = RConnecting \<or> sockets h ! i = ROpen"
      "sockets h ! j = RConnecting \<or> sockets h ! j = ROpen"
    have "left_behind (sockets h) (wsRef h)" using ok by (simp add: conn_ok_def)
    with ij have "wsRef h = Some i" "wsRef h = Some j" by (auto simp: left_behind_def)
    then show "i = j" by simp
  qed
  moreover have "disposedRef h \<or> (case wsRef h of None \<Rightarrow> False | Some k \<Rightarrow> k < length (sockets h) \<and>
      length (connectTimers h) = (if wsStatus (h_store h) = Reconnecting then 1 else 0) \<and>
      (case sockets h ! k of RConnecting \<Rightarrow> wsStatus (h_store h) = Connecting | ROpen \<Rightarrow> wsStatus (h_store h) = Connected
       | RClosing \<Rightarrow> wsStatus (h_store h) \<noteq> Reconnecting | RClosed \<Rightarrow> wsStatus (h_store h) = Reconnecting))"
  proof (cases "disposedRef h")
    case False
    then obtain k where "wsRef h = Some k" "k < length (sockets h)"
        "link_ok (sockets h ! k) (wsStatus (h_store h)) (connectTimers h) (timerRef h)"
      using conn_ok_current [OF ok] by metis
    then show ?thesis by (cases "sockets h ! k") (auto simp: link_ok_def)
  qed simp
  ultimately show ?thesis unfolding h_def [symmetric] by (simp only: Let_def simp_thms)
qed

text \<open>
  C32: A disposed hook is silent: after the unmounting of the demo, whatever its sockets and
  timers still do, nothing writes to the store, nothing is sent and no connection is made,
  until it is mounted again.
\<close>

theorem disposed_hook_is_silent:
  assumes "disposedRef (hook_run es (first_mount m ls))" and "case e of Mount b \<Rightarrow> False | _ \<Rightarrow> True"
  shows "let h = hook_run es (first_mount m ls); g = hook_step e h
    in h_store g = h_store h \<and> sent_out g = sent_out h \<and> length (sockets g) = length (sockets h) \<and>
       connectTimers g = [] \<and> disposedRef g"
proof -
  define h where "h = hook_run es (first_mount m ls)"
  have "conn_ok h" unfolding h_def by (rule connection.reach_inv [OF hook_run_reach])
  with assms show ?thesis unfolding h_def [symmetric] Let_def
    by (cases e) (auto simp: conn_ok_def hook_defs Let_def split: if_splits)
qed

lemma disposed_hook_is_silent_witness:
  "let h = hook_run [Opened 0, Closed 0, Unmount] (first_mount True (\<lambda>k. None)); g = hook_step (ConnectTimer 0) h
   in connectTimers (hook_run [Opened 0, Closed 0] (first_mount True (\<lambda>k. None))) = [0] \<and> disposedRef h \<and>
      sockets g = sockets h \<and> h_store g = h_store h"
proof -
  let ?h = "hook_run [Opened 0, Closed 0, Unmount] (first_mount True (\<lambda>k. None))"
  have d: "disposedRef ?h" and e: "case ConnectTimer 0 of Mount b \<Rightarrow> False | _ \<Rightarrow> True"
    and s: "sockets (hook_step (ConnectTimer 0) ?h) = sockets ?h"
    and t: "connectTimers (hook_run [Opened 0, Closed 0] (first_mount True (\<lambda>k. None))) = [0]"
    by code_simp+
  from disposed_hook_is_silent [OF d e] d s t show ?thesis by (simp only: Let_def simp_thms)
qed

section \<open>Coalescing\<close>

definition receives :: "nat \<Rightarrow> (string \<times> string \<times> payload) list \<Rightarrow> hook_event list" where
  "receives k ps = map (\<lambda>(t1, t2, p). Message_received k t1 t2 (STATE_UPDATE (Some p))) ps"

definition connected_on :: "nat \<Rightarrow> hook \<Rightarrow> bool" where
  "connected_on k h \<longleftrightarrow> \<not> disposedRef h \<and> wsRef h = Some k \<and> k < length (sockets h) \<and> sockets h ! k = ROpen"

lemma mobile_receives:
  assumes "connected_on k h" and "isMobileRef h" and "ps \<noteq> []"
  shows "hook_run (receives k ps) h = h\<lparr>pendingPayload := Some (snd (snd (last ps))), stateFlushTimer := True\<rparr>"
  using assms(3)
proof (induction ps rule: rev_induct)
  case (snoc p ps)
  obtain t1 t2 q where p: "p = (t1, t2, q)" by (cases p)
  show ?case
    using assms(1,2) snoc by (cases "ps = []") (auto simp: receives_def hook_run_def p connected_on_def hook_defs Let_def)
qed simp

lemma desktop_receives:
  assumes "connected_on k h" and "\<not> isMobileRef h"
  shows "hook_run (receives k ps) h =
    upd_h (fold (\<lambda>(t1, t2, pl) s. applyStateUpdate t1 t2 pl s) (map (\<lambda>(t1, t2, p). (t1, t2, Some p)) ps)) h"
proof (induction ps rule: rev_induct)
  case Nil
  then show ?case by (simp add: receives_def hook_run_def upd_h_def)
next
  case (snoc p ps)
  obtain t1 t2 q where p: "p = (t1, t2, q)" by (cases p)
  show ?case
    using assms snoc by (auto simp: receives_def hook_run_def p connected_on_def hook_defs Let_def)
qed

text \<open>
  C33: Coalescing is invisible: on a mobile device, after any burst of snapshots and the flush,
  the nodes and the RPCs in the store are those a desktop shows after the same burst, which
  applied every one of them.
\<close>

theorem mobile_flush_shows_desktop_snapshot:
  assumes "connected_on k h" and "isMobileRef h" and "ps \<noteq> []"
  shows "snapshot_part (h_store (hook_run (receives k ps @ [FlushTimer u1 u2]) h)) =
    snapshot_part (h_store (hook_run (receives k ps) (h\<lparr>isMobileRef := False\<rparr>)))"
proof -
  obtain t1 t2 q where last: "last ps = (t1, t2, q)" by (cases "last ps")
  have "snapshot_part (h_store (hook_run (receives k ps @ [FlushTimer u1 u2]) h)) = payload_part (Some q)"
    using mobile_receives [OF assms]
    by (simp add: hook_run_def flush_def upd_h_def snapshot_part_apply last)
  moreover have "connected_on k (h\<lparr>isMobileRef := False\<rparr>)" using assms(1) by (simp add: connected_on_def)
  then have "snapshot_part (h_store (hook_run (receives k ps) (h\<lparr>isMobileRef := False\<rparr>))) = payload_part (Some q)"
    using store_view.view_run [of "map (\<lambda>(t1, t2, p). (t1, t2, Some p)) ps"] assms(3)
    by (simp add: desktop_receives upd_h_def last_map last)
  ultimately show ?thesis by simp
qed

definition demo_snap :: "int \<Rightarrow> payload" where
  "demo_snap t = \<lparr>p_nodes = Some [(demo_node 0)\<lparr>n_term := t\<rparr>], p_inFlight = None\<rparr>"

lemma mobile_flush_shows_desktop_snapshot_witness:
  "let h = hook_run [Opened 0] (first_mount True (\<lambda>k. None)); ps = [([], [], demo_snap 1), ([], [], demo_snap 2)]
   in map n_term (nodes (h_store (hook_run (receives 0 ps @ [FlushTimer [] []]) h))) = [2] \<and>
      snapshot_part (h_store (hook_run (receives 0 ps @ [FlushTimer [] []]) h)) =
        snapshot_part (h_store (hook_run (receives 0 ps) (h\<lparr>isMobileRef := False\<rparr>)))"
proof -
  let ?h = "hook_run [Opened 0] (first_mount True (\<lambda>k. None))" and ?ps = "[([], [], demo_snap 1), ([], [], demo_snap 2)]"
  have c: "connected_on 0 ?h" and m: "isMobileRef ?h" and n: "?ps \<noteq> []"
    and t: "map n_term (nodes (h_store (hook_run (receives 0 ?ps @ [FlushTimer [] []]) ?h))) = [2]"
    by code_simp+
  from t mobile_flush_shows_desktop_snapshot [OF c m n] show ?thesis by (simp only: Let_def simp_thms)
qed

text \<open>
  A stale snapshot can win: if the page turns from mobile to desktop between a snapshot and
  its flush, the next snapshot is applied at once and then the pending older one overwrites it,
  so the store shows term 1 after term 2 was received.
\<close>

theorem pending_flush_overwrites_newer_snapshot:
  "let h = hook_run [Opened 0, Message_received 0 [] [] (STATE_UPDATE (Some (demo_snap 1))), MediaChange False,
                     Message_received 0 [] [] (STATE_UPDATE (Some (demo_snap 2)))] (first_mount True (\<lambda>k. None));
       g = hook_step (FlushTimer [] []) h
   in map n_term (nodes (h_store h)) = [2] \<and> map n_term (nodes (h_store g)) = [1]"
  by code_simp

end
