(* ===== verification/Mobile_Drawer.thy ===== *)
theory Mobile_Drawer
  imports Prelude
begin

text \<open>
  The drawer of the mobile layout, \<open>components/MobileDrawer.jsx\<close>, and the heights of the
  canvas above it (\<open>canvasHeightFor\<close> and the refit timer of \<open>App.jsx\<close>). Heights and touch
  positions are rational numbers of pixels; \<open>window.innerHeight\<close> is an integer, and for an
  integer the rounded double products of the source (\<open>* 0.5\<close>, \<open>* 0.85\<close>) are the exact ones.
\<close>

section \<open>Heights\<close>

datatype drawer_mode = Collapsed | Half | Full

text \<open>\<open>Math.round\<close>: half-way cases go up.\<close>

definition js_round :: "rat \<Rightarrow> int" where
  "js_round x = \<lfloor>x + 1/2\<rfloor>"

definition COLLAPSED_PX :: int where "COLLAPSED_PX = 40"

definition modeHeightPx :: "drawer_mode \<Rightarrow> int \<Rightarrow> int" where
  "modeHeightPx mode vh =
     (if mode = Half then js_round (of_int vh * (1/2))
      else if mode = Full then js_round (of_int vh * (17/20))
      else COLLAPSED_PX)"

text \<open>\<open>nearestMode\<close>: the loop keeps the first of the closest targets.\<close>

definition nearestMode :: "rat \<Rightarrow> int \<Rightarrow> drawer_mode" where
  "nearestMode height vh =
     (let targets = map (\<lambda>m. (m, modeHeightPx m vh)) [Collapsed, Half, Full]
      in fst (fold (\<lambda>t best. if \<bar>height - of_int (snd t)\<bar> < \<bar>height - of_int (snd best)\<bar> then t else best)
                targets (targets ! 0)))"

section \<open>The drawer\<close>

text \<open>\<open>dmode\<close> is the \<open>mode\<close> prop, which \<open>onModeChange\<close> sets; \<open>t_\<close> are the fields of \<open>touchRef\<close>.\<close>

record drawer =
  dmode :: drawer_mode
  viewportHeight :: int
  dragHeight :: "rat option"
  t_active :: bool
  t_startY :: rat
  t_startHeight :: rat
  t_moved :: bool
  suppressClick :: bool
  suppressTimers :: nat

definition currentHeight :: "drawer \<Rightarrow> rat" where
  "currentHeight d = (case dragHeight d of None \<Rightarrow> of_int (modeHeightPx (dmode d) (viewportHeight d)) | Some h \<Rightarrow> h)"

definition onHandleClick :: "drawer \<Rightarrow> drawer" where
  "onHandleClick d =
     (if suppressClick d then d else d\<lparr>dmode := (if dmode d = Collapsed then Half else Collapsed)\<rparr>)"

definition onHandlePointerDown :: "drawer \<Rightarrow> drawer" where
  "onHandlePointerDown d = onHandleClick d"

text \<open>\<open>y\<close> is \<open>e.touches?.[0]?.clientY\<close>, \<open>rectTop\<close> the top of the drawer's box.\<close>

definition onTouchStart :: "rat option \<Rightarrow> rat \<Rightarrow> drawer \<Rightarrow> drawer" where
  "onTouchStart y rectTop d =
     (case y of
        None \<Rightarrow> d
      | Some y \<Rightarrow>
          if \<not> y \<le> rectTop + 44 then d\<lparr>t_active := False\<rparr>
          else d\<lparr>t_active := True, t_startY := y, t_startHeight := currentHeight d, t_moved := False\<rparr>)"

definition onTouchMove :: "rat option \<Rightarrow> drawer \<Rightarrow> drawer" where
  "onTouchMove y d =
     (if \<not> t_active d then d
      else case y of
        None \<Rightarrow> d
      | Some y \<Rightarrow>
          let delta = t_startY d - y;
              d1 = (if \<bar>delta\<bar> > 10 then d\<lparr>t_moved := True\<rparr> else d);
              minH = of_int COLLAPSED_PX;
              maxH = of_int (modeHeightPx Full (viewportHeight d));
              nxt = max minH (min maxH (t_startHeight d + delta))
          in d1\<lparr>dragHeight := Some nxt\<rparr>)"

definition finishTouch :: "drawer \<Rightarrow> drawer" where
  "finishTouch d =
     (if \<not> t_active d then d
      else
        let d1 = d\<lparr>t_active := False\<rparr>
        in case dragHeight d of
             None \<Rightarrow> d1
           | Some h \<Rightarrow>
               let d2 = (if t_moved d1 then d1\<lparr>suppressClick := True, suppressTimers := Suc (suppressTimers d1)\<rparr> else d1)
               in d2\<lparr>dragHeight := None, dmode := nearestMode h (viewportHeight d)\<rparr>)"

text \<open>The callback of the 90 ms timer.\<close>

definition suppress_over :: "drawer \<Rightarrow> drawer" where
  "suppress_over d = (if suppressTimers d = 0 then d else d\<lparr>suppressClick := False, suppressTimers := suppressTimers d - 1\<rparr>)"

definition onResize :: "int \<Rightarrow> drawer \<Rightarrow> drawer" where
  "onResize vh d = d\<lparr>viewportHeight := vh\<rparr>"

section \<open>The canvas above the drawer (App.jsx)\<close>

text \<open>
  A \<open>calc(...)\<close> of viewport percentages and pixels: the percent of \<open>100vh\<close> left for the canvas
  and the pixels taken off.
\<close>

definition canvasHeightFor :: "drawer_mode \<Rightarrow> rat \<times> rat" where
  "canvasHeightFor mode =
     (if mode = Full then (100 - 85, 40) else if mode = Half then (100 - 50, 40) else (100, 40 + 40))"

definition canvas_px :: "drawer_mode \<Rightarrow> int \<Rightarrow> rat" where
  "canvas_px mode vh = (case canvasHeightFor mode of (pct, px) \<Rightarrow> of_int vh * pct / 100 - px)"

section \<open>Facts\<close>

lemma js_round_bound: "\<bar>of_int (js_round x) - x\<bar> \<le> 1/2"
  unfolding js_round_def by linarith

lemma js_round_mono: "x \<le> y \<Longrightarrow> js_round x \<le> js_round y"
  by (simp add: js_round_def floor_mono)

lemma js_round_ge: "of_int k \<le> x + 1/2 \<Longrightarrow> k \<le> js_round x"
  by (simp add: js_round_def le_floor_iff)

lemma heights_700: "modeHeightPx Half 700 = 350" "modeHeightPx Full 700 = 595"
  by (simp_all add: modeHeightPx_def js_round_def floor_eq_iff)

lemma nearestMode_eq:
  "nearestMode h vh =
     (let d = \<lambda>m. \<bar>h - of_int (modeHeightPx m vh)\<bar>;
          b = (if d Half < d Collapsed then Half else Collapsed)
      in if d Full < d b then Full else b)"
  by (simp add: nearestMode_def Let_def)

lemma heights_ordered:
  assumes "81 \<le> vh"
  shows "modeHeightPx Collapsed vh < modeHeightPx Half vh \<and> modeHeightPx Half vh < modeHeightPx Full vh"
proof
  have "41 \<le> js_round (of_int vh * (1/2))" using assms by (intro js_round_ge) simp
  then show "modeHeightPx Collapsed vh < modeHeightPx Half vh" by (simp add: modeHeightPx_def COLLAPSED_PX_def)
  have "(81 :: rat) \<le> of_int vh" using assms by simp
  then have "(of_int vh * (1/2) + 1/2 :: rat) + 1 \<le> of_int vh * (17/20) + 1/2" by simp
  then have "js_round (of_int vh * (1/2)) + 1 \<le> js_round (of_int vh * (17/20))"
    unfolding js_round_def by linarith
  then show "modeHeightPx Half vh < modeHeightPx Full vh" by (simp add: modeHeightPx_def)
qed

text \<open>A gesture: the moves of one finger after a touch in the drag zone.\<close>

definition gesture :: "rat \<Rightarrow> rat \<Rightarrow> rat list \<Rightarrow> drawer \<Rightarrow> drawer" where
  "gesture y rectTop ys d = finishTouch (fold (\<lambda>y. onTouchMove (Some y)) ys (onTouchStart (Some y) rectTop d))"

lemma moves:
  assumes "t_active d"
  shows "fold (\<lambda>y. onTouchMove (Some y)) (ys @ [y]) d =
    d\<lparr>t_moved := t_moved d \<or> list_ex (\<lambda>y. \<bar>t_startY d - y\<bar> > 10) (ys @ [y]),
      dragHeight := Some (max 40 (min (of_int (modeHeightPx Full (viewportHeight d))) (t_startHeight d + (t_startY d - y))))\<rparr>"
  using assms
proof (induction ys arbitrary: y rule: rev_induct)
  case Nil
  then show ?case by (simp add: onTouchMove_def Let_def COLLAPSED_PX_def)
next
  case (snoc x xs)
  then show ?case by (auto simp: onTouchMove_def Let_def COLLAPSED_PX_def)
qed

section \<open>Properties\<close>

text \<open>
  Snapping: the mode the drawer snaps to is one whose height is closest to the height it is
  dropped at.
\<close>

theorem nearestMode_is_closest:
  "\<bar>h - of_int (modeHeightPx (nearestMode h vh) vh)\<bar> \<le> \<bar>h - of_int (modeHeightPx m vh)\<bar>"
  by (cases m) (auto simp: nearestMode_eq Let_def)

text \<open>
  Snapping is stable: on a viewport of at least 81 pixels a drawer dropped at the exact
  height of a mode takes that mode, so the three modes are three different stops.
\<close>

theorem nearestMode_roundtrip:
  assumes "81 \<le> vh"
  shows "nearestMode (of_int (modeHeightPx m vh)) vh = m"
proof -
  have "\<bar>of_int (modeHeightPx m vh) - of_int (modeHeightPx (nearestMode (of_int (modeHeightPx m vh)) vh) vh)\<bar> \<le> (0 :: rat)"
    using nearestMode_is_closest [of "of_int (modeHeightPx m vh)" vh m] by simp
  then have "modeHeightPx (nearestMode (of_int (modeHeightPx m vh)) vh) vh = modeHeightPx m vh" by simp
  with heights_ordered [OF assms] show ?thesis
    by (cases m; cases "nearestMode (of_int (modeHeightPx m vh)) vh") auto
qed

lemma nearestMode_roundtrip_witness:
  "nearestMode (of_int (modeHeightPx Full 700)) 700 = Full \<and> modeHeightPx Full 700 = 595"
proof
  show "nearestMode (of_int (modeHeightPx Full 700)) 700 = Full" by (rule nearestMode_roundtrip) simp
qed (rule heights_700)

text \<open>
  A drag: whatever the finger does after touching the drag zone, when it lifts the drawer
  is no longer dragging and is in the mode nearest to the final height, which is the starting
  height plus the distance moved up, clamped to the range from the collapsed to the full one.
\<close>

theorem drag_ends_in_nearest_mode:
  assumes "y \<le> rectTop + 44"
  shows "let d' = gesture y rectTop (ys @ [z]) d;
             h = max 40 (min (of_int (modeHeightPx Full (viewportHeight d))) (currentHeight d + (y - z)))
         in dragHeight d' = None \<and> \<not> t_active d' \<and> dmode d' = nearestMode h (viewportHeight d) \<and>
            suppressClick d' = (suppressClick d \<or> list_ex (\<lambda>z. \<bar>y - z\<bar> > 10) (ys @ [z]))"
proof -
  let ?s = "onTouchStart (Some y) rectTop d"
  have s: "t_active ?s" "t_startY ?s = y" "t_startHeight ?s = currentHeight d" "\<not> t_moved ?s"
    "viewportHeight ?s = viewportHeight d" "suppressClick ?s = suppressClick d"
    using assms by (simp_all add: onTouchStart_def)
  show ?thesis
    unfolding gesture_def moves [OF s(1)] by (simp add: finishTouch_def Let_def s)
qed

definition demo_drawer :: drawer where
  "demo_drawer = \<lparr>dmode = Half, viewportHeight = 700, dragHeight = None, t_active = False, t_startY = 0,
     t_startHeight = 0, t_moved = False, suppressClick = False, suppressTimers = 0\<rparr>"

lemma drag_ends_in_nearest_mode_witness:
  "dmode (gesture 360 350 ([300] @ [150]) demo_drawer) = Full \<and> suppressClick (gesture 360 350 ([300] @ [150]) demo_drawer)"
proof -
  have le: "(360 :: rat) \<le> 350 + 44" by simp
  have d: "currentHeight demo_drawer = 350" "viewportHeight demo_drawer = 700"
    by (simp_all add: currentHeight_def demo_drawer_def heights_700)
  have "nearestMode 560 700 = Full"
    by (simp add: nearestMode_eq heights_700 Let_def) (simp add: modeHeightPx_def COLLAPSED_PX_def)
  with drag_ends_in_nearest_mode [OF le, of "[300]" 150 demo_drawer] show ?thesis
    by (simp add: Let_def d heights_700)
qed

text \<open>
  The layout fills the screen: in every mode the header of 40 pixels, the canvas and the
  drawer add up to the height of the viewport, but for the rounding of the drawer's height.
\<close>

theorem canvas_and_drawer_fill_viewport:
  "\<bar>40 + canvas_px m vh + of_int (modeHeightPx m vh) - of_int vh\<bar> \<le> 1/2"
  using js_round_bound [of "of_int vh * (1/2)"] js_round_bound [of "of_int vh * (17/20)"]
  by (cases m) (simp_all add: canvas_px_def canvasHeightFor_def modeHeightPx_def COLLAPSED_PX_def mult.commute)

end
