(* ===== verification/Canvas.thy ===== *)
theory Canvas
  imports Cluster_Store
begin

text \<open>
  The canvas, \<open>components/ClusterView.jsx\<close>: where the node cards stand, the edges from the
  leader, the message an edge animates, and the retry loop that fits the view. Coordinates are
  real numbers (the source's doubles without their rounding).
\<close>

section \<open>Numbers in strings\<close>

text \<open>\<open>Number(s)\<close> for the decimal integers that \<open>String(n)\<close> makes.\<close>

definition nat_val :: "string \<Rightarrow> nat" where
  "nat_val s = fold (\<lambda>c a. a * 10 + (of_char c - 48)) s 0"

definition js_number :: "string \<Rightarrow> int" where
  "js_number s = (case s of [] \<Rightarrow> 0 | c # cs \<Rightarrow> if c = CHR ''-'' then - int (nat_val cs) else int (nat_val s))"

lemma nat_val_snoc: "nat_val (s @ [c]) = nat_val s * 10 + (of_char c - 48)"
  by (simp add: nat_val_def)

lemma nat_val_str: "nat_val (nat_str n) = n"
proof (induction n rule: nat_str.induct)
  case (1 n)
  show ?case
  proof (cases "n < 10")
    case True
    then show ?thesis by (subst nat_str.simps) (simp add: nat_val_def of_char_digit)
  next
    case False
    with 1 show ?thesis by (subst nat_str.simps) (simp add: nat_val_snoc of_char_digit)
  qed
qed

lemma nat_str_no_minus: "nat_str n \<noteq> CHR ''-'' # cs"
  using nat_str_chars [of "CHR ''-''" n] by auto

lemma js_number_int_str [simp]: "js_number (int_str i) = i"
proof (cases "i < 0")
  case True
  then show ?thesis by (simp add: js_number_def int_str_def nat_val_str)
next
  case False
  obtain c cs where "nat_str (nat i) = c # cs" using nat_str_nonempty by (metis neq_Nil_conv)
  with False nat_str_no_minus [of "nat i"] nat_val_str [of "nat i"] show ?thesis
    by (auto simp: js_number_def int_str_def)
qed

section \<open>Layout\<close>

definition NODE_RADIUS :: real where "NODE_RADIUS = 160"

definition CENTER :: "real \<times> real" where "CENTER = (250, 220)"

definition FOLLOWER_SIZE :: real where "FOLLOWER_SIZE = 72"

definition LEADER_SIZE :: real where "LEADER_SIZE = 86.4"

definition center_angle :: "nat \<Rightarrow> nat \<Rightarrow> real" where
  "center_angle n i = - pi / 2 + (2 * pi / real n) * real i"

definition computeCenters :: "nat \<Rightarrow> (real \<times> real) list" where
  "computeCenters n =
     map (\<lambda>i. (fst CENTER + NODE_RADIUS * cos (center_angle n i),
               snd CENTER + NODE_RADIUS * sin (center_angle n i))) [0..<n]"

record flow_node =
  fn_id :: string
  fn_position :: "real \<times> real"
  fn_node :: view_node

definition card_size :: "view_node \<Rightarrow> real" where
  "card_size node = (if n_role node = ''leader'' \<and> n_alive node then LEADER_SIZE else FOLLOWER_SIZE)"

definition flow_node_at :: "view_node \<Rightarrow> real \<times> real \<Rightarrow> flow_node" where
  "flow_node_at node center =
     \<lparr>fn_id = int_str (n_id node),
      fn_position = (fst center - card_size node / 2, snd center - card_size node / 2),
      fn_node = node\<rparr>"

definition flowNodes :: "view_node list \<Rightarrow> flow_node list" where
  "flowNodes ns = map2 flow_node_at ns (computeCenters (length ns))"

section \<open>Edges\<close>

definition find_leader :: "view_node list \<Rightarrow> view_node option" where
  "find_leader ns = find (\<lambda>n. n_alive n \<and> n_role n = ''leader'') ns"

record flow_edge =
  ed_id :: string
  ed_source :: string
  ed_target :: string

definition flowEdges :: "view_node list \<Rightarrow> flow_edge list" where
  "flowEdges ns =
     (case find_leader ns of
        None \<Rightarrow> []
      | Some leader \<Rightarrow>
          map (\<lambda>n. \<lparr>ed_id = ''e'' @ int_str (n_id leader) @ ''-'' @ int_str (n_id n),
                    ed_source = int_str (n_id leader), ed_target = int_str (n_id n)\<rparr>)
            (filter (\<lambda>n. n_id n \<noteq> n_id leader \<and> n_alive n) ns))"

text \<open>The messages \<open>AnimatedEdge\<close> draws: the last AppendEntries along the edge.\<close>

definition edge_messages :: "rpc list \<Rightarrow> flow_edge \<Rightarrow> rpc list" where
  "edge_messages msgs e =
     slice_last 1
       (filter (\<lambda>m. m_from m = js_number (ed_source e) \<and> m_to m = js_number (ed_target e) \<and> m_type m = ''AppendEntries'') msgs)"

section \<open>FitViewOnLoad\<close>

text \<open>
  \<open>fitted\<close> is the ref; the rest are the variables of the effect now mounted: its attempts,
  whether an animation frame is requested and whether a \<open>fitView\<close> promise is open. Cleaning an
  effect up cancels both. \<open>fit_calls\<close> counts the calls of \<open>fitView\<close>.
\<close>

record fit =
  fitted :: bool
  attempts :: nat
  raf_pending :: bool
  promise_open :: bool
  fit_calls :: nat

definition maxAttempts :: nat where "maxAttempts = 24"

datatype fit_event = Effect nat | Frame_tick | Settled bool | Unmounted

definition fit_effect :: "nat \<Rightarrow> fit \<Rightarrow> fit" where
  "fit_effect nodeCount f =
     (let f1 = f\<lparr>attempts := 0, raf_pending := False, promise_open := False\<rparr>
      in if nodeCount = 0 \<or> fitted f1 then f1 else f1\<lparr>raf_pending := True\<rparr>)"

definition tryFit :: "fit \<Rightarrow> fit" where
  "tryFit f =
     (let f1 = f\<lparr>raf_pending := False\<rparr>
      in if fitted f1 then f1
         else f1\<lparr>attempts := attempts f1 + 1, promise_open := True, fit_calls := fit_calls f1 + 1\<rparr>)"

text \<open>The promise resolves to \<open>ok\<close>; a rejection is handled as \<open>False\<close>.\<close>

definition fit_settled :: "bool \<Rightarrow> fit \<Rightarrow> fit" where
  "fit_settled ok f =
     (let f1 = f\<lparr>promise_open := False\<rparr>
      in if fitted f1 then f1
         else if ok then f1\<lparr>fitted := True\<rparr>
         else if attempts f1 < maxAttempts then f1\<lparr>raf_pending := True\<rparr> else f1)"

fun fit_step :: "fit_event \<Rightarrow> fit \<Rightarrow> fit" where
  "fit_step (Effect n) f = fit_effect n f"
| "fit_step Frame_tick f = (if raf_pending f then tryFit f else f)"
| "fit_step (Settled ok) f = (if promise_open f then fit_settled ok f else f)"
| "fit_step Unmounted f = f\<lparr>raf_pending := False, promise_open := False\<rparr>"

definition fit_run :: "fit_event list \<Rightarrow> fit \<Rightarrow> fit" where
  "fit_run es f = fold fit_step es f"

definition fit_init :: fit where
  "fit_init = \<lparr>fitted = False, attempts = 0, raf_pending = False, promise_open = False, fit_calls = 0\<rparr>"

definition fit_ok :: "nat \<Rightarrow> fit \<Rightarrow> bool" where
  "fit_ok k f \<longleftrightarrow> attempts f + (if raf_pending f then 1 else 0) \<le> 24 \<and>
     \<not> (raf_pending f \<and> promise_open f) \<and>
     (if k = 0 then fit_calls f = 0 \<and> attempts f = 0 \<and> \<not> raf_pending f \<and> \<not> promise_open f
      else fit_calls f + 24 \<le> 24 * k + attempts f)"

lemma fit_ok_step:
  "fit_ok k f \<Longrightarrow> fit_ok (case e of Effect n \<Rightarrow> Suc k | _ \<Rightarrow> k) (fit_step e f)"
  by (cases e) (auto simp: fit_ok_def fit_effect_def tryFit_def fit_settled_def Let_def maxAttempts_def split: if_splits)

lemma fit_ok_run: "fit_ok k f \<Longrightarrow>
    fit_ok (k + length (filter (\<lambda>e. case e of Effect n \<Rightarrow> True | _ \<Rightarrow> False) es)) (fit_run es f)"
proof (induction es arbitrary: k f)
  case (Cons e es)
  from Cons.IH [OF fit_ok_step [OF Cons.prems, of e]] show ?case
    by (cases e) (simp_all add: fit_run_def)
qed (simp add: fit_run_def)

section \<open>Facts\<close>

lemma length_computeCenters [simp]: "length (computeCenters n) = n"
  by (simp add: computeCenters_def)

lemma center_nth: "i < n \<Longrightarrow> computeCenters n ! i =
    (250 + 160 * cos (center_angle n i), 220 + 160 * sin (center_angle n i))"
  by (simp add: computeCenters_def CENTER_def NODE_RADIUS_def)

lemma center_angle_inject:
  assumes "i < n" "j < n" and "center_angle n i = center_angle n j + 2 * pi * of_int k"
  shows "i = j"
proof -
  have n: "0 < real n" using assms(1) by simp
  have "2 * pi * (real i / real n) = 2 * pi * (real j / real n + of_int k)"
    using assms(3) by (simp add: center_angle_def algebra_simps)
  moreover have "2 * pi \<noteq> 0" by simp
  ultimately have "real i / real n = real j / real n + of_int k" by (metis mult_left_cancel)
  then have "real i = real j + of_int k * real n" using n by (simp add: field_simps)
  then have "(of_int (int i) :: real) = of_int (int j + k * int n)" by simp
  then have eq: "int i = int j + k * int n" by (simp only: of_int_eq_iff)
  have "k = 0"
  proof (rule ccontr)
    assume "k \<noteq> 0"
    then have "1 * int n \<le> \<bar>k\<bar> * int n" by (intro mult_right_mono) auto
    moreover have "\<bar>k\<bar> * int n = \<bar>int i - int j\<bar>" using eq by (simp add: abs_mult)
    ultimately show False using assms(1,2) by linarith
  qed
  with eq show ?thesis by simp
qed

section \<open>Properties\<close>

text \<open>
  C39: Layout: the cards of a cluster of any size stand on a circle of radius 160 around the
  centre, no two at the same place, and a card is centred on its place whatever its size, so a
  node that becomes leader grows where it stands.
\<close>

theorem cards_on_circle:
  assumes "i < length ns" and "j < length ns" and "i \<noteq> j"
  shows "computeCenters (length ns) ! i \<noteq> computeCenters (length ns) ! j \<and>
    (fst (computeCenters (length ns) ! i) - 250)\<^sup>2 + (snd (computeCenters (length ns) ! i) - 220)\<^sup>2 = 160\<^sup>2 \<and>
    (let f = flowNodes ns ! i; s = card_size (ns ! i) / 2
     in (fst (fn_position f) + s, snd (fn_position f) + s) = computeCenters (length ns) ! i)"
proof (intro conjI)
  let ?a = "center_angle (length ns) i" and ?b = "center_angle (length ns) j"
  show "computeCenters (length ns) ! i \<noteq> computeCenters (length ns) ! j"
  proof
    assume "computeCenters (length ns) ! i = computeCenters (length ns) ! j"
    then have "sin ?a = sin ?b \<and> cos ?a = cos ?b" using assms(1,2) by (simp add: center_nth)
    then obtain k :: int where "?a = ?b + 2 * pi * of_int k" using sin_cos_eq_iff by auto
    with center_angle_inject assms show False by blast
  qed
  have "(160 * cos ?a)\<^sup>2 + (160 * sin ?a)\<^sup>2 = 160\<^sup>2 * ((cos ?a)\<^sup>2 + (sin ?a)\<^sup>2)"
    by (simp only: power_mult_distrib distrib_left)
  also have "\<dots> = 160\<^sup>2" by (simp only: sin_cos_squared_add2 mult_1_right)
  finally have circle: "(160 * cos ?a)\<^sup>2 + (160 * sin ?a)\<^sup>2 = 160\<^sup>2" .
  show "(fst (computeCenters (length ns) ! i) - 250)\<^sup>2 + (snd (computeCenters (length ns) ! i) - 220)\<^sup>2 = 160\<^sup>2"
    using assms(1) circle by (simp only: center_nth fst_conv snd_conv add_diff_cancel_left')
  show "let f = flowNodes ns ! i; s = card_size (ns ! i) / 2
     in (fst (fn_position f) + s, snd (fn_position f) + s) = computeCenters (length ns) ! i"
    using assms(1) by (simp add: flowNodes_def flow_node_at_def)
qed

lemma cards_on_circle_witness:
  "let n = \<lparr>n_id = 0, n_role = ''leader'', n_term = 1, n_alive = True, n_votedFor = None, n_commitIndex = 0,
            n_lastApplied = 0, n_pulseSeq = 0, n_log = []\<rparr>
   in computeCenters (length [n, n]) ! 0 \<noteq> computeCenters (length [n, n]) ! 1"
  unfolding Let_def by (rule cards_on_circle [THEN conjunct1]) simp_all

text \<open>
  Edges: exactly when a live node leads, the canvas draws one edge from it to every other
  live node, the edges have different ids, their ends read back as the ids of the nodes, and an
  edge animates at most one message, the last AppendEntries in flight along it; election
  messages are never drawn.
\<close>

theorem edges_from_leader:
  assumes "distinct (map n_id ns)"
  shows "map (\<lambda>e. (js_number (ed_source e), js_number (ed_target e))) (flowEdges ns) =
      (case find_leader ns of
         None \<Rightarrow> []
       | Some l \<Rightarrow> map (Pair (n_id l)) (filter (\<lambda>i. i \<noteq> n_id l) (map n_id (filter n_alive ns)))) \<and>
    distinct (map ed_id (flowEdges ns)) \<and>
    length (edge_messages msgs e) \<le> 1 \<and>
    list_all (\<lambda>m. m_type m = ''AppendEntries'' \<and> m_from m = js_number (ed_source e) \<and> m_to m = js_number (ed_target e))
      (edge_messages msgs e)"
proof -
  have flt: "map (\<lambda>n. (n_id l, n_id n)) (filter (\<lambda>n. n_id n \<noteq> n_id l \<and> n_alive n) ns) =
      map (Pair (n_id l)) (filter (\<lambda>i. i \<noteq> n_id l) (map n_id (filter n_alive ns)))" for l :: view_node
    by (induction ns) auto
  have "map (\<lambda>e. (js_number (ed_source e), js_number (ed_target e))) (flowEdges ns) =
      (case find_leader ns of
         None \<Rightarrow> []
       | Some l \<Rightarrow> map (Pair (n_id l)) (filter (\<lambda>i. i \<noteq> n_id l) (map n_id (filter n_alive ns))))"
    by (simp add: flowEdges_def flt comp_def split: option.split)
  moreover have "distinct (map ed_id (flowEdges ns))"
    using assms by (auto simp: flowEdges_def distinct_map inj_on_def int_str_inject split: option.split)
  moreover have "length (edge_messages msgs e) \<le> 1" by (simp add: edge_messages_def)
  moreover have "list_all (\<lambda>m. m_type m = ''AppendEntries'' \<and> m_from m = js_number (ed_source e) \<and>
      m_to m = js_number (ed_target e)) (edge_messages msgs e)"
    by (auto simp: edge_messages_def list_all_iff dest!: set_slice_last)
  ultimately show ?thesis by blast
qed

definition demo_view :: "int \<Rightarrow> string \<Rightarrow> view_node" where
  "demo_view i r = \<lparr>n_id = i, n_role = r, n_term = 1, n_alive = True, n_votedFor = None, n_commitIndex = 0,
     n_lastApplied = 0, n_pulseSeq = 0, n_log = []\<rparr>"

lemma edges_from_leader_witness:
  "let ns = [demo_view 0 ''follower'', demo_view 1 ''leader'', demo_view 2 ''follower'']
   in map (\<lambda>e. (js_number (ed_source e), js_number (ed_target e))) (flowEdges ns) = [(1, 0), (1, 2)] \<and>
      distinct (map ed_id (flowEdges ns))"
proof -
  have d: "distinct (map n_id [demo_view 0 ''follower'', demo_view 1 ''leader'', demo_view 2 ''follower''])"
    by (simp add: demo_view_def)
  have "(case find_leader [demo_view 0 ''follower'', demo_view 1 ''leader'', demo_view 2 ''follower''] of
         None \<Rightarrow> []
       | Some l \<Rightarrow> map (Pair (n_id l)) (filter (\<lambda>i. i \<noteq> n_id l)
           (map n_id (filter n_alive [demo_view 0 ''follower'', demo_view 1 ''leader'', demo_view 2 ''follower''])))) =
      [(1, 0), (1, 2)]"
    by (simp add: demo_view_def find_leader_def)
  with edges_from_leader [OF d] show ?thesis by (simp only: Let_def simp_thms)
qed

text \<open>
  The fit loop is bounded: whatever the frames and the results of \<open>fitView\<close>, each mounting of
  the effect calls it at most 24 times; and after 24 failures nothing is scheduled any more.
\<close>

theorem fit_view_attempts_bounded:
  "fit_calls (fit_run es fit_init) \<le> 24 * length (filter (\<lambda>e. case e of Effect n \<Rightarrow> True | _ \<Rightarrow> False) es) \<and>
   (let f = fit_run (Effect 5 # concat (replicate 24 [Frame_tick, Settled False])) fit_init
    in fit_calls f = 24 \<and> \<not> raf_pending f \<and> \<not> promise_open f \<and> \<not> fitted f)"
proof
  let ?k = "length (filter (\<lambda>e. case e of Effect n \<Rightarrow> True | _ \<Rightarrow> False) es)"
  have "fit_ok 0 fit_init" by (simp add: fit_ok_def fit_init_def)
  from fit_ok_run [OF this, of es] show "fit_calls (fit_run es fit_init) \<le> 24 * ?k"
    by (auto simp: fit_ok_def split: if_splits)
qed code_simp

end
