(* ===== verification/Side_Panels.thy ===== *)
theory Side_Panels
  imports Fault_UI Canvas
begin

text \<open>
  What is shown beside the canvas: the log panel \<open>components/LogPanel.jsx\<close>, the event stream
  \<open>components/EventStream.jsx\<close>, the header numbers of \<open>App.jsx\<close> and the dismissable hint
  \<open>components/HintCard.jsx\<close>.
\<close>

section \<open>LogPanel.jsx\<close>

text \<open>
  \<open>Number(selectedNodeId)\<close>: the id, and 0 for null, which is what the store holds while
  nothing is selected.
\<close>

definition number_of_selection :: "int option \<Rightarrow> int" where
  "number_of_selection sel = (case sel of None \<Rightarrow> 0 | Some i \<Rightarrow> i)"

definition panel_node :: "store \<Rightarrow> view_node option" where
  "panel_node s = find (\<lambda>n. n_id n = number_of_selection (selectedNodeId s)) (nodes s)"

text \<open>\<open>formatVotedFor\<close>: a dash, the word self, or the node's name and term.\<close>

datatype voted_label = Dash | Self_label | Node_label int int

definition formatVotedFor :: "view_node \<Rightarrow> voted_label" where
  "formatVotedFor node =
     (case n_votedFor node of
        None \<Rightarrow> Dash
      | Some v \<Rightarrow> if v = - 1 then Dash else if v = n_id node then Self_label else Node_label v (n_term node))"

text \<open>\<open>submitCommand\<close> of the command bar: the new text of the input and the command submitted.\<close>

definition submitCommand :: "bool \<Rightarrow> string \<Rightarrow> string \<times> string option" where
  "submitCommand hasCommandInput text =
     (if \<not> hasCommandInput then (text, None)
      else let command = js_trim text
           in if command = [] then (text, None) else ([], Some command))"

text \<open>The rows of the log, newest first: key, committed dot, term, command.\<close>

definition log_rows :: "view_node \<Rightarrow> (int \<times> bool \<times> int \<times> string) list" where
  "log_rows node = map (\<lambda>e. (e_index e, e_committed e, e_term e, e_command e)) (rev (n_log node))"

datatype log_body = No_node | No_entries | Rows "(int \<times> bool \<times> int \<times> string) list"

definition log_entries :: "view_node option \<Rightarrow> log_body" where
  "log_entries node =
     (case node of None \<Rightarrow> No_node
      | Some n \<Rightarrow> if length (n_log n) = 0 then No_entries else Rows (log_rows n))"

section \<open>EventStream.jsx\<close>

text \<open>
  The lines, oldest first: the key, the level's class, and the values printed for time, route,
  type and term. \<open>styles[ev.level]\<close> exists for each of the three levels.
\<close>

record stream_line =
  sl_key :: nat
  sl_class :: string
  sl_time :: string
  sl_route :: "int \<times> int"
  sl_type :: string
  sl_term :: int

definition event_line :: "event \<Rightarrow> stream_line" where
  "event_line ev =
     \<lparr>sl_key = ev_id ev,
      sl_class = (case ev_level ev of LNormal \<Rightarrow> ''normal'' | LActive \<Rightarrow> ''active'' | LWarn \<Rightarrow> ''warn''),
      sl_time = ev_time ev, sl_route = (ev_from ev, ev_to ev), sl_type = ev_type ev, sl_term = ev_term ev\<rparr>"

definition event_lines :: "store \<Rightarrow> stream_line list option" where
  "event_lines s = (if length (eventLogs s) = 0 then None else Some (map event_line (eventLogs s)))"

text \<open>
  The effect that pins the list to its end, with \<open>[events.length]\<close>: \<open>pin_deps\<close> is the length the
  last effect ran with, \<open>pins\<close> counts the times \<open>scrollTop\<close> was set; without events no list is rendered.
\<close>

record stream_scroll =
  pin_deps :: "nat option"
  pins :: nat

definition stream_effect :: "nat \<Rightarrow> stream_scroll \<Rightarrow> stream_scroll" where
  "stream_effect len v =
     (if pin_deps v = Some len then v
      else let v1 = v\<lparr>pin_deps := Some len\<rparr> in if len = 0 then v1 else v1\<lparr>pins := pins v1 + 1\<rparr>)"

section \<open>App.jsx\<close>

definition app_leader :: "store \<Rightarrow> view_node option" where
  "app_leader s = find (\<lambda>n. n_role n = ''leader'' \<and> n_alive n) (nodes s)"

definition app_alive :: "store \<Rightarrow> nat" where
  "app_alive s = length (filter n_alive (nodes s))"

section \<open>HintCard.jsx\<close>

text \<open>
  \<open>hint_key\<close> is the value under \<open>raft-hint-dismissed\<close> in the browser's storage; \<open>h_selected\<close>
  the store's selection, \<open>h_prev\<close> the ref with the one of the last effect.
\<close>

record hint =
  dismissed :: bool
  hint_key :: "string option"
  h_selected :: "int option"
  h_prev :: "int option"

definition hint_mount :: "string option \<Rightarrow> int option \<Rightarrow> hint" where
  "hint_mount key sel = \<lparr>dismissed = (key = Some ''true''), hint_key = key, h_selected = sel, h_prev = sel\<rparr>"

definition hint_effect :: "hint \<Rightarrow> hint" where
  "hint_effect h =
     (let h1 = (if \<not> dismissed h \<and> h_prev h \<noteq> h_selected h \<and> h_selected h \<noteq> None
                then h\<lparr>hint_key := Some ''true'', dismissed := True\<rparr> else h)
      in h1\<lparr>h_prev := h_selected h\<rparr>)"

definition hint_reopen :: "hint \<Rightarrow> hint" where
  "hint_reopen h = h\<lparr>hint_key := None, dismissed := False\<rparr>"

definition hint_dismiss :: "hint \<Rightarrow> hint" where
  "hint_dismiss h = h\<lparr>hint_key := Some ''true'', dismissed := True\<rparr>"

text \<open>A reload mounts the card anew with the storage it left; the selection is the store's first one.\<close>

datatype hint_event = Selects "int option" | Close_clicked | Reopened | Reloaded

fun hint_step :: "hint_event \<Rightarrow> hint \<Rightarrow> hint" where
  "hint_step (Selects i) h = hint_effect (h\<lparr>h_selected := i\<rparr>)"
| "hint_step Close_clicked h = (if dismissed h then h else hint_effect (hint_dismiss h))"
| "hint_step Reopened h = hint_effect (hint_reopen h)"
| "hint_step Reloaded h = hint_mount (hint_key h) None"

definition hint_run :: "hint_event list \<Rightarrow> hint \<Rightarrow> hint" where
  "hint_run es h = fold hint_step es h"

definition hint_ok :: "hint \<Rightarrow> bool" where
  "hint_ok h \<longleftrightarrow> dismissed h = (hint_key h = Some ''true'') \<and> h_prev h = h_selected h"

lemma hint_ok_step: "hint_ok h \<Longrightarrow> hint_ok (hint_step e h)"
  by (cases e) (auto simp: hint_ok_def hint_effect_def hint_reopen_def hint_dismiss_def hint_mount_def Let_def)

interpretation hints: invariant_system
  "\<lambda>h. \<exists>key sel. h = hint_mount key sel" "\<lambda>h g. \<exists>e. g = hint_step e h" hint_ok
proof unfold_locales
  show "hint_ok h" if "\<exists>key sel. h = hint_mount key sel" for h
    using that by (auto simp: hint_ok_def hint_mount_def)
qed (auto intro: hint_ok_step)

lemma hint_run_reach:
  "reach (\<lambda>h. \<exists>key sel. h = hint_mount key sel) (\<lambda>h g. \<exists>e. g = hint_step e h) (hint_run es (hint_mount key sel))"
proof (induction es rule: rev_induct)
  case Nil
  then show ?case by (auto simp: hint_run_def intro: reach_init)
next
  case (snoc e es)
  then show ?case by (auto simp: hint_run_def intro: reach_step)
qed

section \<open>Properties\<close>

text \<open>
  The hint stays dismissed: after any selections, closings and reopenings the card is hidden
  exactly when the browser's storage says so, so a reload shows what was shown before; and the
  first selection of a node dismisses it.
\<close>

theorem hint_survives_reload:
  "let h = hint_run es (hint_mount key sel)
   in dismissed (hint_step Reloaded h) = dismissed h \<and> dismissed h = (hint_key h = Some ''true'') \<and>
      (h_selected h = Some i \<or> dismissed (hint_step (Selects (Some i)) h))"
proof -
  have "hint_ok (hint_run es (hint_mount key sel))" by (rule hints.reach_inv [OF hint_run_reach])
  then show ?thesis
    by (auto simp: Let_def hint_ok_def hint_mount_def hint_effect_def)
qed

text \<open>
  Nothing selected shows node 0: the panel promises a prompt until a node is selected, but it
  compares with \<open>Number(null)\<close>, which is 0; as soon as a snapshot has a node 0, its state is
  shown with nothing selected.
\<close>

theorem unselected_panel_shows_node_0:
  "let s = applyStateUpdate [] [] (Some \<lparr>p_nodes = Some [\<lparr>n_id = 0, n_role = ''follower'', n_term = 3, n_alive = True,
             n_votedFor = None, n_commitIndex = 0, n_lastApplied = 0, w_log = None\<rparr>], p_inFlight = None\<rparr>)
             (init_store (\<lambda>k. None))
   in selectedNodeId s = None \<and> map_option n_term (panel_node s) = Some 3"
  by code_simp

end
