(* ===== verification/Ui_Text.thy ===== *)
theory Ui_Text
  imports Cluster_Store
begin

text \<open>
  The texts of the page, \<open>i18n/uiText.js\<close>. A text is the list of its code points; \<open>cp\<close> makes
  one of an ASCII literal, and runs of other characters are written as numbers. A language is
  the string the store holds.
\<close>

type_synonym label = "nat list"

definition cp :: "string \<Rightarrow> label" where
  "cp s = map of_char s"

definition isZh :: "string \<Rightarrow> bool" where
  "isZh l \<longleftrightarrow> l \<noteq> ''en''"

section \<open>Labels\<close>

definition roleLabel :: "string \<Rightarrow> string \<Rightarrow> label" where
  "roleLabel r l =
     (if isZh l then
        if r = ''leader'' then [39046, 23548, 32773] @ cp '' Leader''
        else if r = ''candidate'' then [20505, 36873, 32773] @ cp '' Candidate''
        else [36319, 38543, 32773] @ cp '' Follower''
      else if r = ''leader'' then cp ''Leader''
      else if r = ''candidate'' then cp ''Candidate''
      else cp ''Follower'')"

definition deadLabel :: "string \<Rightarrow> label" where
  "deadLabel l = (if isZh l then [25925, 38556] @ cp '' Dead'' else cp ''Offline'')"

definition deadBadgeLabel :: "string \<Rightarrow> label" where
  "deadBadgeLabel l = (if isZh l then [25925, 38556] else cp ''offline'')"

definition wsStatusLabel :: "string \<Rightarrow> string \<Rightarrow> label" where
  "wsStatusLabel status l =
     (let zh = [(''connected'', [24050, 36830, 25509] @ cp '' Connected''),
                (''connecting'', [36830, 25509, 20013] @ cp '' Connecting''),
                (''reconnecting'', [37325, 36830, 20013] @ cp '' Reconnecting'')];
          en = [(''connected'', cp ''Connected''), (''connecting'', cp ''Connecting''),
                (''reconnecting'', cp ''Reconnecting'')];
          dict = (if isZh l then zh else en)
      in case map_of dict status of None \<Rightarrow> cp status | Some t \<Rightarrow> t)"

text \<open>The events \<open>formatEvent\<close> expects; no component calls it.\<close>

record ui_event_info =
  ue_kind :: string
  ue_nodeId :: int
  ue_role :: string
  ue_term :: int
  ue_commitIndex :: int

definition formatEvent :: "ui_event_info \<Rightarrow> string \<Rightarrow> label" where
  "formatEvent e l =
     (let zh = isZh l; i = cp (int_str (ue_nodeId e)); t = cp (int_str (ue_term e))
      in if ue_kind e = ''role_changed'' then
           if zh then [33410, 28857] @ cp '' node '' @ i @ cp '' '' @ [20999, 25442, 20026] @ cp '' '' @ roleLabel (ue_role e) l @
             [65288] @ cp ''term '' @ t @ [65289]
           else cp ''Node '' @ i @ cp '' became '' @ roleLabel (ue_role e) l @ cp '' (term '' @ t @ cp '')''
         else if ue_kind e = ''term_changed'' then
           if zh then [33410, 28857] @ cp '' node '' @ i @ cp '' '' @ [20219, 26399] @ cp '' term -> '' @ t
           else cp ''Node '' @ i @ cp '' term -> '' @ t
         else if ue_kind e = ''node_killed'' then
           if zh then [33410, 28857] @ cp '' node '' @ i @ cp '' '' @ [24050] @ cp '' kill'' @ [65288, 25925, 38556, 65289]
           else cp ''Node '' @ i @ cp '' was killed''
         else if ue_kind e = ''node_restarted'' then
           if zh then [33410, 28857] @ cp '' node '' @ i @ cp '' '' @ [24050] @ cp '' restart'' @ [65288, 24674, 22797, 65289]
           else cp ''Node '' @ i @ cp '' restarted''
         else if ue_kind e = ''commit_advanced'' then
           if zh then [33410, 28857] @ cp '' node '' @ i @ cp '' '' @ [25552, 20132, 20301, 28857] @ cp '' commit -> '' @
             cp (int_str (ue_commitIndex e))
           else cp ''Node '' @ i @ cp '' commit index -> '' @ cp (int_str (ue_commitIndex e))
         else if zh then [38598, 32676, 20107, 20214] @ cp '' Cluster event'' else cp ''Cluster event'')"

section \<open>Tables\<close>

record app_copy =
  ac_title :: label
  ac_sub :: label
  ac_back :: label
  ac_leader :: label
  ac_node :: label
  ac_term :: label
  ac_alive :: label
  ac_eventLogToggle :: label
  ac_langToggle :: label

definition appCopy :: "string \<Rightarrow> app_copy" where
  "appCopy l =
     (if isZh l then
       \<lparr>ac_title = cp ''Raft '' @ [20849, 35782] @ cp '' Raft Consensus'',
        ac_sub = [20316, 32773] @ cp '' Odie Yang'',
        ac_back = [36820, 22238, 24341, 23548, 39029] @ cp '' Back'',
        ac_leader = [39046, 23548, 32773] @ cp '' Leader'',
        ac_node = [33410, 28857] @ cp '' node'',
        ac_term = [20219, 26399] @ cp '' term'',
        ac_alive = [23384, 27963] @ cp '' alive'',
        ac_eventLogToggle = [20107, 20214, 26085, 24535] @ cp '' Event Log'',
        ac_langToggle = cp ''EN''\<rparr>
      else
       \<lparr>ac_title = cp ''Raft Consensus'',
        ac_sub = cp ''By Odie Yang'',
        ac_back = cp ''Back'',
        ac_leader = cp ''Leader'',
        ac_node = cp ''node'',
        ac_term = cp ''Term'',
        ac_alive = cp ''Alive'',
        ac_eventLogToggle = cp ''Event Log'',
        ac_langToggle = cp ''ZH''\<rparr>)"

record event_copy =
  ec_title :: label
  ec_empty :: label

definition eventCopy :: "string \<Rightarrow> event_copy" where
  "eventCopy l =
     (if isZh l then
       \<lparr>ec_title = [20107, 20214, 26085, 24535] @ cp '' EVENT LOG'',
        ec_empty = [31561, 24453, 38598, 32676, 20107, 20214] @ cp '' Waiting for cluster events...''\<rparr>
      else
       \<lparr>ec_title = cp ''EVENT LOG'',
        ec_empty = cp ''Waiting for cluster events...''\<rparr>)"

record log_copy =
  lc_nodeStats :: label
  lc_role :: label
  lc_term :: label
  lc_commit :: label
  lc_votedFor :: label
  lc_clickNode :: label
  lc_logEntries :: label
  lc_noEntries :: label

definition logCopy :: "string \<Rightarrow> log_copy" where
  "logCopy l =
     (if isZh l then
       \<lparr>lc_nodeStats = [33410, 28857, 29366, 24577] @ cp '' Node Stats'',
        lc_role = [35282, 33394] @ cp '' Role'',
        lc_term = [20219, 26399] @ cp '' Term'',
        lc_commit = [25552, 20132] @ cp '' Commit'',
        lc_votedFor = [25237, 31080, 32473] @ cp '' Voted For'',
        lc_clickNode = [28857, 20987, 33410, 28857, 26597, 30475, 29366, 24577] @ cp '' Click a node to inspect state'',
        lc_logEntries = [26085, 24535, 26465, 30446] @ cp '' Log Entries'',
        lc_noEntries = [8212] @ cp '' submit a cmd to append the first entry '' @ [8212]\<rparr>
      else
       \<lparr>lc_nodeStats = cp ''Node Stats'',
        lc_role = cp ''Role'',
        lc_term = cp ''Term'',
        lc_commit = cp ''Commit'',
        lc_votedFor = cp ''Voted For'',
        lc_clickNode = cp ''Click a node to inspect state'',
        lc_logEntries = cp ''Log Entries'',
        lc_noEntries = [8212] @ cp '' submit a cmd to append the first entry '' @ [8212]\<rparr>)"

record control_copy =
  cc_tutorial :: label
  cc_tutorialClose :: label
  cc_tutorialTitle :: label
  cc_tutorialIntro :: label
  cc_tutorialCmds :: label
  cc_tutorialCmdExamples :: "(label \<times> label) list"
  cc_tutorialHow :: label
  cc_tutorialHowItems :: "label list"
  cc_tutorialRaft :: label
  cc_tutorialRaftItems :: "label list"
  cc_submitToLeader :: label
  cc_cmdPlaceholder :: label
  cc_send :: label
  cc_submitCmd :: label
  cc_killNode :: label
  cc_killSelecting :: label
  cc_restart :: label
  cc_restartSelecting :: label
  cc_partition :: label
  cc_partitionStepA :: label
  cc_partitionStepB :: label
  cc_partitionChooseHint :: label
  cc_partitionPreviewA :: label
  cc_partitionPreviewB :: label
  cc_confirmGroupA :: label
  cc_heal :: label
  cc_healSelecting :: label
  cc_escHint :: label
  cc_cancel :: label
  cc_confirmPartition :: label

definition controlCopy :: "string \<Rightarrow> control_copy" where
  "controlCopy l =
     (if isZh l then
       \<lparr>cc_tutorial = [25945, 31243] @ cp '' Tutorial'',
        cc_tutorialClose = [20851, 38381, 25945, 31243],
        cc_tutorialTitle = [29609, 27861, 19982, 21629, 20196, 25945, 31243],
        cc_tutorialIntro = [21487, 38543, 26102, 25171, 24320, 65292, 24555, 36895, 26597, 30475, 21629, 20196, 20889, 27861,
            12289, 23454, 39564, 36335, 24452, 21644, 21487, 35266, 23519, 21040, 30340] @ cp '' Raft '' @
            [34892, 20026, 12290],
        cc_tutorialCmds = [24120, 29992] @ cp '' submit cmd '' @ [31034, 20363],
        cc_tutorialCmdExamples = [(cp ''set x=1'', [36861, 21152, 19968, 26465, 20889, 20837, 26085, 24535, 65307, 22810, 25968, 22797, 21046,
                21518, 20250, 26174, 31034] @ cp '' committed'' @ [12290]),
            (cp ''set y=2'', [32487, 32493, 20889, 20837, 21487, 35266, 23519] @ cp '' log index '' @ [36830, 32493, 36882,
                22686, 12290]),
            (cp ''inc counter'', [35821, 20041, 21270, 21629, 20196, 20415, 20110, 21306, 20998, 21508, 27425, 22797, 21046,
                19982, 25552, 20132, 12290]),
            (cp ''transfer node3'', [20219, 24847, 23383, 31526, 20018, 37117, 21487, 20316, 20026, 21629, 20196, 36733, 33655,
                21442, 19982, 22797, 21046, 12290])],
        cc_tutorialHow = [25512, 33616, 29609, 27861],
        cc_tutorialHowItems = [[20808, 30475, 24403, 21069] @ cp '' Leader'' @ [12289] @ cp ''term'' @ [12289] @
              cp ''commitIndex'' @ [65292, 20877, 25552, 20132] @ cp '' 2~3 '' @ [26465, 21629, 20196, 24314,
              31435, 22522, 32447, 12290],
            [28857, 20987] @ cp '' kill node '' @ [26432, 25481] @ cp '' Leader'' @ [65292, 35266, 23519,
              22810, 25968, 27966, 22914, 20309, 35302, 21457, 26032, 19968, 36718, 36873, 20030, 12290],
            [25191, 34892] @ cp '' partition'' @ [65292, 25226, 38598, 32676, 25286, 25104] @ cp '' 2 '' @
              [32452, 65292, 35266, 23519, 23569, 25968, 27966, 26080, 27861, 25552, 20132, 26032, 26085,
              24535, 12290],
            [25191, 34892] @ cp '' heal / restart '' @ [21518, 32487, 32493] @ cp '' submit cmd'' @ [65292,
              35266, 23519, 26085, 24535, 22238, 34917, 19982, 35282, 33394, 25910, 25947, 12290]],
        cc_tutorialRaft = [36825, 20123, 25805, 20316, 22914, 20309, 20307, 29616] @ cp '' Raft'',
        cc_tutorialRaftItems = [cp ''Leader Election'' @ [65306] @ cp ''election timeout '' @ [20250, 25226] @ cp '' Follower '' @
              [25512, 36827, 20026] @ cp '' Candidate '' @ [24182, 35831, 27714, 25237, 31080, 12290],
            cp ''Log Replication'' @ [65306, 21482, 26377] @ cp '' Leader '' @ [25509, 25910, 23458, 25143,
              31471, 21629, 20196, 24182, 29992] @ cp '' AppendEntries '' @ [22797, 21046, 21040] @
              cp '' followers'' @ [12290],
            cp ''Safety'' @ [65306, 24050, 25552, 20132, 26085, 24535, 22312] @ cp '' leader '' @ [20999,
              25442, 21518, 20381, 28982, 20445, 30041, 65292, 20307, 29616] @ cp '' leader completeness'' @
              [12290],
            cp ''Fault Tolerance'' @ [65306] @ cp ''crash'' @ [12289] @ cp ''partition'' @ [12289] @
              cp ''heal'' @ [12289] @ cp ''restart '' @ [20849, 21516, 23637, 31034] @ cp '' quorum '' @
              [32422, 26463, 12290]],
        cc_submitToLeader = [25552, 20132, 21629, 20196, 21040] @ cp '' Leader'',
        cc_cmdPlaceholder = [20363, 22914] @ cp '': set x=1'',
        cc_send = [21457, 36865] @ cp '' Send'',
        cc_submitCmd = [25552, 20132, 21629, 20196] @ cp '' submit cmd'',
        cc_killNode = [25925, 38556, 27880, 20837] @ cp '' kill node'',
        cc_killSelecting = [36873, 25321, 30446, 26631, 33410, 28857] @ cp '' '' @ [8212],
        cc_restart = [24674, 22797] @ cp '' restart'',
        cc_restartSelecting = [36873, 25321, 24674, 22797, 33410, 28857] @ cp '' '' @ [8212],
        cc_partition = [32593, 32476, 20998, 21306] @ cp '' partition'',
        cc_partitionStepA = [27493, 39588] @ cp '' 1 / 2'' @ [65306, 36873, 25321] @ cp '' Group A'' @ [65288, 21487, 22810,
            36873, 65289],
        cc_partitionStepB = [27493, 39588] @ cp '' 2 / 2'' @ [65306, 39044, 35272, 20998, 32452, 24182, 30830, 35748, 20998,
            21306],
        cc_partitionChooseHint = [28857, 20987, 30011, 24067, 33410, 28857, 36827, 34892, 20998, 32452, 65307, 20877, 27425, 28857,
            20987, 21487, 21462, 28040],
        cc_partitionPreviewA = cp ''Group A'',
        cc_partitionPreviewB = cp ''Group B'',
        cc_confirmGroupA = [30830, 35748] @ cp '' Group A'',
        cc_heal = [32593, 32476, 24674, 22797] @ cp '' heal'',
        cc_healSelecting = [36873, 25321, 35201, 20462, 22797, 30340, 33410, 28857] @ cp '' '' @ [8212],
        cc_escHint = cp ''ESC '' @ [21462, 28040],
        cc_cancel = [21462, 28040] @ cp '' Cancel'',
        cc_confirmPartition = [25191, 34892, 20998, 21306] @ cp '' Partition''\<rparr>
      else
       \<lparr>cc_tutorial = cp ''Tutorial'',
        cc_tutorialClose = cp ''Close Tutorial'',
        cc_tutorialTitle = cp ''How to Play & Command Guide'',
        cc_tutorialIntro = cp ''Open this panel anytime for command patterns, interaction flow, and '' @
            cp ''Raft signals to watch.'',
        cc_tutorialCmds = cp ''Useful submit cmd examples'',
        cc_tutorialCmdExamples = [(cp ''set x=1'', cp ''Appends a write entry; it turns committed after majority replication.''),
            (cp ''set y=2'', cp ''Adds a second entry so you can inspect monotonically increasing log '' @ cp ''indexes.''),
            (cp ''inc counter'', cp ''A semantic command that makes replication steps easy to trace in the '' @ cp ''log.''),
            (cp ''transfer node3'', cp ''Any opaque string works; the protocol replicates bytes, not command '' @ cp ''meaning.'')],
        cc_tutorialHow = cp ''Recommended interactions'',
        cc_tutorialHowItems = [cp ''Start by reading leader, term, and commitIndex, then submit 2-3 '' @
              cp ''commands as baseline traffic.'',
            cp ''Use kill node on the leader and watch a new election complete with '' @
              cp ''majority voting.'',
            cp ''Use partition to split the cluster and verify minority side cannot '' @
              cp ''commit fresh entries.'',
            cp ''Use heal or restart, then submit again to observe convergence and log '' @ cp ''repair.''],
        cc_tutorialRaft = cp ''How this demonstrates Raft'',
        cc_tutorialRaftItems = [cp ''Leader Election: election timeout promotes a follower to candidate, '' @
              cp ''then majority grants leadership.'',
            cp ''Log Replication: the leader accepts client commands and ships them '' @
              cp ''via AppendEntries.'',
            cp ''Safety: committed entries survive leadership changes, showing leader '' @
              cp ''completeness in practice.'',
            cp ''Fault Tolerance: crash, partition, heal, and restart expose quorum '' @
              cp ''boundaries and recovery.''],
        cc_submitToLeader = cp ''Submit command to leader'',
        cc_cmdPlaceholder = cp ''e.g. set x=1'',
        cc_send = cp ''Send'',
        cc_submitCmd = cp ''Submit Cmd'',
        cc_killNode = cp ''Kill Node'',
        cc_killSelecting = cp ''Select target node '' @ [8212],
        cc_restart = cp ''Restart'',
        cc_restartSelecting = cp ''Select target node '' @ [8212],
        cc_partition = cp ''Partition'',
        cc_partitionStepA = cp ''Step 1 / 2: select Group A (multi-select)'',
        cc_partitionStepB = cp ''Step 2 / 2: preview groups and confirm'',
        cc_partitionChooseHint = cp ''Click nodes on canvas to toggle Group A membership'',
        cc_partitionPreviewA = cp ''Group A'',
        cc_partitionPreviewB = cp ''Group B'',
        cc_confirmGroupA = cp ''Confirm Group A'',
        cc_heal = cp ''Heal'',
        cc_healSelecting = cp ''Select target node '' @ [8212],
        cc_escHint = cp ''ESC to cancel'',
        cc_cancel = cp ''Cancel'',
        cc_confirmPartition = cp ''Partition''\<rparr>)"


end
