(* ===== verification/Page_Text.thy ===== *)
theory Page_Text
  imports Side_Panels Ui_Text Mobile_Drawer
begin

text \<open>
  What the page writes: the text of a node card, the statistics of \<open>LogPanel.jsx\<close>, the header
  and the status pill of \<open>App.jsx\<close>, the buttons and the tutorial of \<open>ControlPanel.jsx\<close>, the
  buttons of \<open>MobileFab.jsx\<close> and the handle and tabs of \<open>MobileDrawer.jsx\<close>, as data: labels,
  classes and values.
\<close>

section \<open>NodeCard.jsx\<close>

definition card_meta :: "view_node \<Rightarrow> string \<Rightarrow> label" where
  "card_meta node l = (if n_alive node then cp ''t'' @ cp (int_str (n_term node)) else deadBadgeLabel l)"

text \<open>React's key of the card: a new pulse token makes a new element, which replays the animation.\<close>

definition card_key :: "view_node \<Rightarrow> string" where
  "card_key node = ''node-'' @ int_str (n_id node) @ ''-'' @ nat_str (n_pulseSeq node)"

section \<open>LogPanel.jsx\<close>

text \<open>\<open>styles[role] ?? ''\<close>: the style sheet has no class for a follower.\<close>

definition stat_class :: "string \<Rightarrow> bool \<Rightarrow> string" where
  "stat_class r live =
     (if \<not> live then ''dead'' else if r = ''leader'' \<or> r = ''candidate'' then r else [])"

definition voted_text :: "voted_label \<Rightarrow> label" where
  "voted_text v =
     (case v of Dash \<Rightarrow> [8212] | Self_label \<Rightarrow> cp ''self''
      | Node_label i t \<Rightarrow> cp ''node '' @ cp (int_str i) @ cp '' '' @ [183] @ cp '' t'' @ cp (int_str t))"

text \<open>The cells: label, value and, for the role, its class; or the prompt.\<close>

datatype node_stats = Prompt label | Cells "(label \<times> label \<times> string) list"

definition NodeStats :: "view_node option \<Rightarrow> string \<Rightarrow> label \<times> node_stats" where
  "NodeStats node l =
     (let t = logCopy l
      in (lc_nodeStats t,
          case node of
            None \<Rightarrow> Prompt (lc_clickNode t)
          | Some n \<Rightarrow> Cells
              [(lc_role t, if n_alive n then roleLabel (n_role n) l else deadLabel l, stat_class (n_role n) (n_alive n)),
               (lc_term t, cp (int_str (n_term n)), []),
               (lc_commit t, cp (int_str (n_commitIndex n)), []),
               (lc_votedFor t, voted_text (formatVotedFor n), [])]))"

section \<open>App.jsx\<close>

definition ws_str :: "ws_status \<Rightarrow> string" where
  "ws_str w = (case w of Connecting \<Rightarrow> ''connecting'' | Connected \<Rightarrow> ''connected'' | Reconnecting \<Rightarrow> ''reconnecting'')"

text \<open>\<open>StatusPill\<close>: the classes of the pill, the class of its dot, its text.\<close>

definition StatusPill :: "string \<Rightarrow> string \<Rightarrow> bool \<Rightarrow> string \<times> string \<times> label" where
  "StatusPill status l isCompact =
     (if isCompact then ''statusPill statusPillCompact'' else ''statusPill '', ''statusDot '' @ status, wsStatusLabel status l)"

text \<open>The statistics in the header of the desktop: the leader when there is one, the term, the live nodes.\<close>

record header_stat =
  hs_label :: label
  hs_value :: label

definition header_stats :: "store \<Rightarrow> header_stat list" where
  "header_stats s =
     (let t = appCopy (lang_str (lang s)); leader = app_leader s
      in (case leader of None \<Rightarrow> []
          | Some n \<Rightarrow> [\<lparr>hs_label = ac_leader t, hs_value = ac_node t @ cp '' '' @ cp (int_str (n_id n))\<rparr>]) @
         [\<lparr>hs_label = ac_term t, hs_value = (case leader of None \<Rightarrow> [8212] | Some n \<Rightarrow> cp (int_str (n_term n)))\<rparr>,
          \<lparr>hs_label = ac_alive t,
           hs_value = cp (nat_str (app_alive s)) @ cp '' / '' @ cp (nat_str (length (nodes s)))\<rparr>])"

section \<open>ControlPanel.jsx\<close>

text \<open>The buttons of the bar with their label and whether they are drawn active.\<close>

definition bar_buttons :: "panel \<Rightarrow> (label \<times> bool) list" where
  "bar_buttons p =
     (let t = controlCopy (lang_str (lang (pn_store p))); am = actionMode (pn_store p)
      in [(cc_submitCmd t, am = Some MCmd),
          (cc_tutorial t, tutorialOpen p),
          (if am = Some MKill then cc_killSelecting t else cc_killNode t, am = Some MKill),
          (cc_restart t, am = Some MRestart),
          (cc_partition t, am = Some MPartitionSelect \<or> am = Some MPartitionConfirm),
          (cc_heal t, am = Some MHeal)])"

text \<open>The tutorial: title, introduction and three titled sections.\<close>

datatype tutorial_item = Command_item label label | Step_item nat label | Line_item label

record tutorial =
  tu_title :: label
  tu_intro :: label
  tu_sections :: "(label \<times> tutorial_item list) list"

definition bar_tutorial :: "control_copy \<Rightarrow> tutorial" where
  "bar_tutorial t =
     \<lparr>tu_title = cc_tutorialTitle t, tu_intro = cc_tutorialIntro t,
      tu_sections =
        [(cc_tutorialCmds t, map (\<lambda>(c, d). Command_item c d) (cc_tutorialCmdExamples t)),
         (cc_tutorialHow t, map2 (\<lambda>i line. Step_item (i + 1) line) [0..<length (cc_tutorialHowItems t)] (cc_tutorialHowItems t)),
         (cc_tutorialRaft t, map Line_item (cc_tutorialRaftItems t))]\<rparr>"

section \<open>MobileFab.jsx\<close>

definition fab_actions :: "(string \<times> string \<times> action_mode \<times> bool) list" where
  "fab_actions =
     [(''kill'', ''Kill Node'', MKill, True), (''restart'', ''Restart'', MRestart, False),
      (''partition'', ''Partition'', MPartitionSelect, False), (''heal'', ''Heal'', MHeal, False)]"

text \<open>The stack: position, classes and label of each button.\<close>

definition fab_stack :: "panel \<Rightarrow> (nat \<times> string list \<times> string) list" where
  "fab_stack p =
     map2 (\<lambda>i (k, l, m, danger).
        (i, filter (\<lambda>c. c \<noteq> []) [''actionBtn'', if fabOpen p then ''actionBtnOpen'' else [], if danger then ''actionBtnDanger'' else []], l))
       [0..<length fab_actions] fab_actions"

text \<open>A press on the button at a position.\<close>

definition fab_press :: "nat \<Rightarrow> panel \<Rightarrow> panel" where
  "fab_press i p =
     (if i < length fab_actions then (case fab_actions ! i of (k, l, m, danger) \<Rightarrow> triggerAction m p) else p)"

section \<open>MobileDrawer.jsx\<close>

datatype drawer_tab = Node_tab | Event_tab | Tutorial_tab

definition handle_text :: "view_node option \<Rightarrow> nat \<Rightarrow> nat \<Rightarrow> label" where
  "handle_text leader aliveCount totalCount =
     cp ''LEADER node'' @ (case leader of None \<Rightarrow> [8212] | Some n \<Rightarrow> cp (int_str (n_id n))) @ cp '' '' @ [183] @ cp '' TERM '' @
     (case leader of None \<Rightarrow> [8212] | Some n \<Rightarrow> cp (int_str (n_term n))) @ cp '' '' @ [183] @ cp '' ALIVE '' @
     cp (nat_str aliveCount) @ cp ''/'' @ cp (nat_str totalCount)"

definition handle_arrow :: "drawer_mode \<Rightarrow> string" where
  "handle_arrow m = (if m = Collapsed then ''arrowUp'' else ''arrowDown'')"

definition tab_buttons :: "string \<Rightarrow> drawer_tab \<Rightarrow> (label \<times> bool) list" where
  "tab_buttons l tab =
     [(cp ''NODE'', tab = Node_tab), (cp ''EVENT LOG'', tab = Event_tab),
      (if l = ''zh'' then [25945, 31243] else cp ''TUTORIAL'', tab = Tutorial_tab)]"

definition mobile_tutorial :: "control_copy \<Rightarrow> tutorial" where
  "mobile_tutorial t =
     \<lparr>tu_title = cc_tutorialTitle t, tu_intro = cc_tutorialIntro t,
      tu_sections =
        [(cc_tutorialCmds t, map (\<lambda>(c, d). Command_item c d) (cc_tutorialCmdExamples t)),
         (cc_tutorialHow t, map2 (\<lambda>i line. Step_item (i + 1) line) [0..<length (cc_tutorialHowItems t)] (cc_tutorialHowItems t)),
         (cc_tutorialRaft t, map Line_item (cc_tutorialRaftItems t))]\<rparr>"

datatype tab_body = Event_body "stream_line list option" | Tutorial_body tutorial | Log_body "label \<times> node_stats" log_body

text \<open>The open drawer: its tabs and the body of the one chosen.\<close>

definition drawer_content :: "drawer_mode \<Rightarrow> drawer_tab \<Rightarrow> store \<Rightarrow> ((label \<times> bool) list \<times> tab_body) option" where
  "drawer_content m tab s =
     (if m \<noteq> Collapsed then
        Some (tab_buttons (lang_str (lang s)) tab,
          if tab = Event_tab then Event_body (event_lines s)
          else if tab = Tutorial_tab then Tutorial_body (mobile_tutorial (controlCopy (lang_str (lang s))))
          else Log_body (NodeStats (panel_node s) (lang_str (lang s))) (log_entries (panel_node s)))
      else None)"

end
