(* ===== verification/Page_Properties.thy ===== *)
theory Page_Properties
  imports Page_Text Fault_UI_Properties
begin

text \<open>
  Properties of what the page writes: the places that show the same fact agree, the button drawn
  active is the one whose panel is open, and labels can be told apart in both languages.
\<close>

lemma cp_inject [simp]: "cp a = cp b \<longleftrightarrow> a = b"
  unfolding cp_def by (rule inj_map_eq_map) (auto intro!: injI)

lemma cp_append: "cp (a @ b) = cp a @ cp b"
  by (simp add: cp_def)

lemma card_meta_badge: "card_meta n l = deadBadgeLabel l \<longleftrightarrow> \<not> n_alive n"
  by (auto simp: card_meta_def deadBadgeLabel_def cp_def)

lemma dead_class_iff: "''dead'' \<in> set (card_classes n s) \<longleftrightarrow> \<not> n_alive n"
  by (auto simp: card_classes_def roleClass_def)

lemma header_leader: "app_leader s = find_leader (nodes s)"
  by (simp add: app_leader_def find_leader_def conj_commute)


text \<open>
  The active button is the open panel's: at any time the bar draws as many buttons active as
  it shows panels, and it shows the hint about Escape exactly when a panel other than the
  command form is open.
\<close>

theorem active_button_matches_panel:
  "length (filter snd (bar_buttons p)) = length (bar_panels p) \<and>
   showEscHint p = list_ex (\<lambda>b. case b of CommandPanel _ _ \<Rightarrow> False | _ \<Rightarrow> True) (bar_panels p)"
proof (cases "actionMode (pn_store p)")
  case None
  then show ?thesis by (simp add: bar_buttons_def bar_panels_def showEscHint_def Let_def)
next
  case (Some m)
  then show ?thesis by (cases m) (simp_all add: bar_buttons_def bar_panels_def showEscHint_def Let_def)
qed

text \<open>
  Labels can be told apart: in either language the three roles and the crashed state have four
  different labels, the three connection states have three different pill texts, none of them the
  raw name the lookup would fall back to, and every component takes the store's language for
  Chinese alike, whether it tests for not being en or for being zh.
\<close>

theorem labels_distinguish:
  "let l = lang_str x
   in distinct [roleLabel ''leader'' l, roleLabel ''candidate'' l, roleLabel ''follower'' l, deadLabel l] \<and>
      distinct (map (\<lambda>w. snd (snd (StatusPill (ws_str w) l c))) [Connecting, Connected, Reconnecting]) \<and>
      list_all (\<lambda>w. snd (snd (StatusPill (ws_str w) l c)) \<noteq> cp (ws_str w)) [Connecting, Connected, Reconnecting] \<and>
      isZh l = (l = ''zh'')"
  by (cases x) (simp_all add: Let_def lang_str_def isZh_def roleLabel_def deadLabel_def StatusPill_def ws_str_def
      wsStatusLabel_def cp_def)

text \<open>The tutorial of the drawer is the tutorial of the bar.\<close>

lemma tutorials_agree: "mobile_tutorial t = bar_tutorial t"
  by (simp add: mobile_tutorial_def bar_tutorial_def)

text \<open>A press on the mobile stack starts what the bar's button starts, but for the open partition step.\<close>

lemma fab_press_starts:
  "i < length fab_actions \<Longrightarrow> fab_press i p = triggerAction (fst (snd (snd (fab_actions ! i)))) p"
  by (auto simp: fab_press_def split: prod.split)

text \<open>
  The event stream stops following: once the log is full, its length stays 60, so the effect that
  depends on the length does not run again and the list is not pinned to its end, whatever
  snapshots bring.
\<close>

theorem full_event_log_is_not_followed:
  assumes "length (eventLogs s) = 60"
  shows "pins (stream_effect (length (eventLogs (applyStateUpdate t1 t2 pl s))) (stream_effect (length (eventLogs s)) v)) =
    pins (stream_effect (length (eventLogs s)) v)"
proof -
  have "length (eventLogs (applyStateUpdate t1 t2 pl s)) = 60"
    using assms by (simp add: applyStateUpdate_eq)
  moreover have "pin_deps (stream_effect 60 v) = Some 60" by (simp add: stream_effect_def Let_def)
  ultimately show ?thesis using assms by (simp add: stream_effect_def)
qed

lemma full_event_log_is_not_followed_witness:
  "let e = \<lparr>ev_id = 0, ev_time = [], ev_from = 0, ev_to = 1, ev_type = ''AppendEntries'', ev_term = 1, ev_level = LNormal\<rparr>;
       s = (init_store (\<lambda>_. None))\<lparr>eventLogs := replicate 60 e, nextEventId := 60\<rparr>;
       s' = applyStateUpdate [] [] (Some \<lparr>p_nodes = None, p_inFlight = Some [\<lparr>m_from = 0, m_to = 1, m_type = ''RequestVote'', m_term = 2\<rparr>]\<rparr>) s;
       v = \<lparr>pin_deps = None, pins = 0\<rparr>
   in ev_term (last (eventLogs s)) = 1 \<and> ev_term (last (eventLogs s')) = 2 \<and>
      pins (stream_effect (length (eventLogs s')) (stream_effect (length (eventLogs s)) v)) = pins (stream_effect (length (eventLogs s)) v)"
proof -
  let ?e = "\<lparr>ev_id = 0, ev_time = [], ev_from = 0, ev_to = 1, ev_type = ''AppendEntries'', ev_term = 1, ev_level = LNormal\<rparr> :: event"
  let ?s = "(init_store (\<lambda>_. None))\<lparr>eventLogs := replicate 60 ?e, nextEventId := 60\<rparr>"
  have full: "length (eventLogs ?s) = 60" by simp
  have "ev_term (last (eventLogs ?s)) = 1"
    "ev_term (last (eventLogs (applyStateUpdate [] [] (Some \<lparr>p_nodes = None,
       p_inFlight = Some [\<lparr>m_from = 0, m_to = 1, m_type = ''RequestVote'', m_term = 2\<rparr>]\<rparr>) ?s))) = 2"
    by code_simp+
  with full_event_log_is_not_followed [OF full] show ?thesis by (simp only: Let_def simp_thms)
qed

end
