(* ===== verification/App_Shell.thy ===== *)
theory App_Shell
  imports Mobile_Drawer Page_Text
begin

text \<open>
  The application shell, \<open>App.jsx\<close>: landing page or live demo, mobile or desktop layout, the mode
  and tab of the mobile drawer, and the timer that fits the canvas again once its height has
  settled; and \<open>FitViewOnSignal\<close> of \<open>ClusterView.jsx\<close>, which answers the timer's signal.
\<close>

section \<open>App and LiveDemoApp\<close>

text \<open>
  \<open>fitTimerRef\<close> is the ref of that name, \<open>fitTimers\<close> the timeouts pending in the browser; the
  other fields are the hooks of \<open>App\<close> (\<open>started\<close>) and of \<open>LiveDemoApp\<close>.
\<close>

record app =
  started :: bool
  onMobile :: bool
  drawerMode :: drawer_mode
  mobileDrawerTab :: drawer_tab
  mobileFitSignal :: nat
  fitTimerRef :: "nat option"
  fitTimers :: "nat list"
  nextFitTimer :: nat

definition app_init :: app where
  "app_init = \<lparr>started = False, onMobile = False, drawerMode = Collapsed, mobileDrawerTab = Node_tab,
     mobileFitSignal = 0, fitTimerRef = None, fitTimers = [], nextFitTimer = 1\<rparr>"

definition clear_fit_timer :: "app \<Rightarrow> app" where
  "clear_fit_timer a =
     (case fitTimerRef a of None \<Rightarrow> a | Some t \<Rightarrow> a\<lparr>fitTimers := filter (\<lambda>u. u \<noteq> t) (fitTimers a)\<rparr>)"

definition scheduleMobileRefit :: "app \<Rightarrow> app" where
  "scheduleMobileRefit a =
     (let a1 = clear_fit_timer a
      in a1\<lparr>fitTimerRef := Some (nextFitTimer a1), fitTimers := fitTimers a1 @ [nextFitTimer a1],
            nextFitTimer := Suc (nextFitTimer a1)\<rparr>)"

text \<open>The callback of the timer, 250 ms later.\<close>

definition fit_timeout :: "nat \<Rightarrow> app \<Rightarrow> app" where
  "fit_timeout t a =
     (if t \<in> set (fitTimers a)
      then a\<lparr>fitTimers := filter (\<lambda>u. u \<noteq> t) (fitTimers a), mobileFitSignal := mobileFitSignal a + 1\<rparr> else a)"

text \<open>The effect on \<open>[isMobile, drawerMode]\<close>, after a render that changed one of them.\<close>

definition refit_effect :: "app \<Rightarrow> app" where
  "refit_effect a = (if \<not> onMobile a then a else scheduleMobileRefit a)"

definition rendered :: "app \<Rightarrow> app \<Rightarrow> app" where
  "rendered old a = (if onMobile a = onMobile old \<and> drawerMode a = drawerMode old then a else refit_effect a)"

text \<open>\<open>onStart\<close>: the demo mounts with fresh hooks; \<open>matches\<close> is what the media query says.\<close>

definition mount_demo :: "bool \<Rightarrow> app \<Rightarrow> app" where
  "mount_demo matches a =
     a\<lparr>started := True, onMobile := matches, drawerMode := Collapsed, mobileDrawerTab := Node_tab,
       mobileFitSignal := 0, fitTimerRef := None\<rparr>"

definition onStart :: "bool \<Rightarrow> app \<Rightarrow> app" where
  "onStart matches a = (if started a then a else refit_effect (mount_demo matches a))"

text \<open>\<open>onBack\<close>: the demo unmounts; its clean-up clears the timer.\<close>

definition onBack :: "app \<Rightarrow> app" where
  "onBack a = (if started a then (clear_fit_timer a)\<lparr>started := False\<rparr> else a)"

text \<open>\<open>useIsMobile\<close>: the listener of the media query.\<close>

definition sync_mobile :: "bool \<Rightarrow> app \<Rightarrow> app" where
  "sync_mobile matches a = a\<lparr>onMobile := matches\<rparr>"

definition onNodeSelected :: "app \<Rightarrow> app" where
  "onNodeSelected a = scheduleMobileRefit (a\<lparr>mobileDrawerTab := Node_tab, drawerMode := Half\<rparr>)"

definition onPaneTap :: "app \<Rightarrow> app" where
  "onPaneTap a = a\<lparr>drawerMode := (if drawerMode a = Collapsed then drawerMode a else Collapsed)\<rparr>"

datatype app_event =
    Start_clicked bool
  | Back_clicked
  | Media_changed bool
  | Node_selected
  | Pane_tapped
  | Drawer_moved drawer_mode
  | Tab_chosen drawer_tab
  | Fit_timer nat

text \<open>The canvas and the drawer report to the shell in the mobile layout only.\<close>

fun app_step :: "app_event \<Rightarrow> app \<Rightarrow> app" where
  "app_step (Start_clicked m) a = onStart m a"
| "app_step Back_clicked a = onBack a"
| "app_step (Media_changed m) a = (if started a then rendered a (sync_mobile m a) else a)"
| "app_step Node_selected a = (if started a \<and> onMobile a then rendered a (onNodeSelected a) else a)"
| "app_step Pane_tapped a = (if started a \<and> onMobile a then rendered a (onPaneTap a) else a)"
| "app_step (Drawer_moved m) a = (if started a \<and> onMobile a then rendered a (a\<lparr>drawerMode := m\<rparr>) else a)"
| "app_step (Tab_chosen t) a = (if started a \<and> onMobile a then a\<lparr>mobileDrawerTab := t\<rparr> else a)"
| "app_step (Fit_timer t) a = fit_timeout t a"

definition app_run :: "app_event list \<Rightarrow> app \<Rightarrow> app" where
  "app_run es a = fold app_step es a"

definition refit_ok :: "app \<Rightarrow> bool" where
  "refit_ok a \<longleftrightarrow>
     (case fitTimerRef a of None \<Rightarrow> fitTimers a = [] | Some t \<Rightarrow> (fitTimers a = [] \<or> fitTimers a = [t]) \<and> t < nextFitTimer a) \<and>
     (\<not> started a \<longrightarrow> fitTimers a = [])"

lemma refit_ok_schedule: "refit_ok a \<Longrightarrow> started a \<Longrightarrow> refit_ok (scheduleMobileRefit a) \<and> length (fitTimers (scheduleMobileRefit a)) = 1"
  by (auto simp: refit_ok_def scheduleMobileRefit_def clear_fit_timer_def Let_def split: option.splits)

lemma scheduleMobileRefit_sel [simp]:
  "started (scheduleMobileRefit a) = started a" "onMobile (scheduleMobileRefit a) = onMobile a"
  "drawerMode (scheduleMobileRefit a) = drawerMode a"
  by (simp_all add: scheduleMobileRefit_def clear_fit_timer_def Let_def split: option.split)

lemma refit_ok_rendered: "refit_ok a \<Longrightarrow> started a \<Longrightarrow> refit_ok (rendered b a)"
  using refit_ok_schedule by (simp add: rendered_def refit_effect_def)

lemma refit_ok_cong:
  "refit_ok a \<Longrightarrow> fitTimerRef b = fitTimerRef a \<Longrightarrow> fitTimers b = fitTimers a \<Longrightarrow> nextFitTimer b = nextFitTimer a \<Longrightarrow>
     started b = started a \<Longrightarrow> refit_ok b"
  by (auto simp: refit_ok_def split: option.splits)

lemma refit_ok_mount: "refit_ok a \<Longrightarrow> \<not> started a \<Longrightarrow> refit_ok (mount_demo m a) \<and> started (mount_demo m a) \<and> onMobile (mount_demo m a) = m"
  by (simp add: refit_ok_def mount_demo_def)

lemma refit_ok_step:
  assumes "refit_ok a"
  shows "refit_ok (app_step e a)"
proof (cases e)
  case (Start_clicked m)
  show ?thesis
  proof (cases "started a")
    case False
    note mounted = refit_ok_mount [OF assms False, of m]
    with False refit_ok_schedule [of "mount_demo m a"] show ?thesis
      by (cases m) (simp_all add: Start_clicked onStart_def refit_effect_def)
  qed (use assms in \<open>simp add: Start_clicked onStart_def\<close>)
next
  case Back_clicked
  with assms show ?thesis
    by (auto simp: onBack_def clear_fit_timer_def refit_ok_def split: option.splits)
next
  case (Media_changed m)
  with assms show ?thesis
    by (auto simp: sync_mobile_def intro!: refit_ok_rendered elim: refit_ok_cong)
next
  case Node_selected
  have "refit_ok (onNodeSelected a)" if "started a"
    unfolding onNodeSelected_def using assms that
    by (intro conjunct1 [OF refit_ok_schedule]) (auto elim: refit_ok_cong)
  with assms show ?thesis by (auto simp: Node_selected onNodeSelected_def intro!: refit_ok_rendered)
next
  case Pane_tapped
  with assms show ?thesis by (auto simp: onPaneTap_def intro!: refit_ok_rendered elim: refit_ok_cong)
next
  case (Drawer_moved m)
  with assms show ?thesis by (auto intro!: refit_ok_rendered elim: refit_ok_cong)
next
  case (Tab_chosen t)
  with assms show ?thesis by (auto elim: refit_ok_cong)
next
  case (Fit_timer t)
  with assms show ?thesis by (auto simp: fit_timeout_def refit_ok_def split: option.splits)
qed

interpretation refits: invariant_system "\<lambda>a. a = app_init" "\<lambda>a b. \<exists>e. b = app_step e a" refit_ok
  by unfold_locales (auto simp: refit_ok_step, simp add: refit_ok_def app_init_def)

lemma app_run_reach: "reach (\<lambda>a. a = app_init) (\<lambda>a b. \<exists>e. b = app_step e a) (app_run es app_init)"
proof (induction es rule: rev_induct)
  case Nil
  then show ?case by (auto simp: app_run_def intro: reach_init)
next
  case (snoc e es)
  then show ?case by (auto simp: app_run_def intro: reach_step)
qed

section \<open>FitViewOnSignal\<close>

text \<open>\<open>prevSignal\<close> is the ref, \<open>signal_fits\<close> counts the calls of \<open>fitView\<close>.\<close>

record signal_fit =
  prevSignal :: nat
  signal_fits :: nat

definition signal_mount :: "nat \<Rightarrow> signal_fit" where
  "signal_mount signal = \<lparr>prevSignal = signal, signal_fits = 0\<rparr>"

definition signal_effect :: "nat \<Rightarrow> signal_fit \<Rightarrow> signal_fit" where
  "signal_effect signal f =
     (if signal = prevSignal f then f else f\<lparr>prevSignal := signal, signal_fits := signal_fits f + 1\<rparr>)"

text \<open>The effect runs after every render, with the signal of that render.\<close>

definition signal_run :: "nat list \<Rightarrow> signal_fit \<Rightarrow> signal_fit" where
  "signal_run signals f = fold signal_effect signals f"

lemma signal_run_fits:
  "prevSignal (signal_run ss f) = last (prevSignal f # ss) \<and>
   signal_fits (signal_run ss f) + 1 = signal_fits f + length (remdups_adj (prevSignal f # ss))"
proof (induction ss arbitrary: f)
  case (Cons x ss)
  from Cons.IH [of "signal_effect x f"] show ?case
    by (auto simp: signal_run_def signal_effect_def)
qed (simp add: signal_run_def)

section \<open>Properties\<close>

text \<open>
  C31: One refit: whatever the user does, at most one refit timer is pending, none after the demo
  is left; any event that changes the height of the mobile canvas leaves exactly one pending;
  and the canvas is then fitted exactly once for every change of the signal it is given.
\<close>

theorem one_refit_pending:
  "let a = app_run es app_init; b = app_step e a
   in length (fitTimers a) \<le> 1 \<and> (if started a then True else fitTimers a = []) \<and>
      (if started b \<and> onMobile b \<and> canvasHeightFor (drawerMode b) \<noteq> canvasHeightFor (drawerMode a)
       then length (fitTimers b) = 1 else True) \<and>
      signal_fits (signal_run ss (signal_mount k)) + 1 = length (remdups_adj (k # ss))"
proof -
  define a where "a = app_run es app_init"
  have ok: "refit_ok a" unfolding a_def by (rule refits.reach_inv [OF app_run_reach])
  have 1: "length (fitTimers a) \<le> 1" "\<not> started a \<Longrightarrow> fitTimers a = []"
    using ok by (auto simp: refit_ok_def split: option.splits)
  have 2: "length (fitTimers (rendered a c)) = 1"
    if "refit_ok c" "started c" "onMobile c" "drawerMode c \<noteq> drawerMode a" for c
    using that refit_ok_schedule by (simp add: rendered_def refit_effect_def)
  have 3: "length (fitTimers (app_step e a)) = 1"
    if "started (app_step e a)" "onMobile (app_step e a)" "drawerMode (app_step e a) \<noteq> drawerMode a"
  proof (cases e)
    case (Start_clicked m)
    have fresh: "\<not> started a" using that by (auto simp: Start_clicked onStart_def)
    note mounted = refit_ok_mount [OF ok fresh, of m]
    with that refit_ok_schedule [of "mount_demo m a"] fresh show ?thesis
      by (auto simp: Start_clicked onStart_def refit_effect_def split: if_splits)
  next
    case Node_selected
    have "refit_ok (onNodeSelected a)" if "started a"
      unfolding onNodeSelected_def using ok that
      by (intro conjunct1 [OF refit_ok_schedule]) (auto elim: refit_ok_cong)
    with that 2 [of "onNodeSelected a"] show ?thesis
      by (auto simp: Node_selected onNodeSelected_def rendered_def refit_effect_def split: if_splits)
  next
    case Pane_tapped
    have "refit_ok (onPaneTap a)" using ok by (auto simp: onPaneTap_def elim: refit_ok_cong)
    with that 2 [of "onPaneTap a"] show ?thesis
      by (auto simp: Pane_tapped onPaneTap_def rendered_def refit_effect_def split: if_splits)
  next
    case (Drawer_moved m)
    have "refit_ok (a\<lparr>drawerMode := m\<rparr>)" using ok by (auto elim: refit_ok_cong)
    with that 2 [of "a\<lparr>drawerMode := m\<rparr>"] show ?thesis
      by (auto simp: Drawer_moved rendered_def refit_effect_def split: if_splits)
  qed (use that in \<open>auto simp: onBack_def clear_fit_timer_def rendered_def refit_effect_def sync_mobile_def
        fit_timeout_def split: if_splits option.splits\<close>)
  have 4: "canvasHeightFor m \<noteq> canvasHeightFor m' \<Longrightarrow> m \<noteq> m'" for m m' by auto
  show ?thesis
    unfolding Let_def a_def [symmetric]
    using 1 3 4 signal_run_fits [of ss "signal_mount k"] by (auto simp: signal_mount_def)
qed

end
