(* ===== verification/Landing.thy ===== *)
theory Landing
  imports Prelude
begin

text \<open>
  The landing page, \<open>components/IntroLanding.jsx\<close>: the animation state of its sections with
  their exit timers, the chapter highlighted while scrolling, and the rendering of a title as
  animated characters. A text is the list of its code points.
\<close>

section \<open>Sections\<close>

datatype section_state = Visible | Exiting | Idle

text \<open>
  \<open>secState\<close> is \<open>mobileSectionState\<close>, \<open>secRef\<close> its copy in \<open>mobileStateRef\<close>, updated after a
  render; \<open>exitTimers\<close> is \<open>mobileExitTimers\<close>, \<open>pendingTimers\<close> the browser's pending timeouts
  with the section their callback is about; \<open>animatedSet\<close> is \<open>animated\<close>.
\<close>

record landing =
  isMobile :: bool
  secState :: "(string \<times> section_state) list"
  secRef :: "(string \<times> section_state) list"
  exitTimers :: "(string \<times> nat) list"
  pendingTimers :: "(nat \<times> string) list"
  nextTimerId :: nat
  animatedSet :: "string list"

definition markAnimated :: "string \<Rightarrow> landing \<Rightarrow> landing" where
  "markAnimated i l = (if i \<in> set (animatedSet l) then l else l\<lparr>animatedSet := animatedSet l @ [i]\<rparr>)"

definition clear_timer :: "nat \<Rightarrow> landing \<Rightarrow> landing" where
  "clear_timer t l = l\<lparr>pendingTimers := filter (\<lambda>(u, _). u \<noteq> t) (pendingTimers l)\<rparr>"

text \<open>One entry of the intersection observer's callback.\<close>

definition observe_entry :: "string \<Rightarrow> bool \<Rightarrow> landing \<Rightarrow> landing" where
  "observe_entry i isIntersecting l =
     (if i = [] then l
      else if \<not> isMobile l then (if isIntersecting then markAnimated i l else l)
      else if isIntersecting then
        let l1 = (case map_of (exitTimers l) i of
                    None \<Rightarrow> l
                  | Some t \<Rightarrow> (clear_timer t l)\<lparr>exitTimers := filter (\<lambda>(j, _). j \<noteq> i) (exitTimers l)\<rparr>)
        in l1\<lparr>secState := map_set i Visible (secState l1)\<rparr>
      else if map_of (secRef l) i \<noteq> Some Visible then l
      else
        let l1 = l\<lparr>secState := map_set i Exiting (secState l)\<rparr>;
            l2 = (case map_of (exitTimers l1) i of None \<Rightarrow> l1 | Some t \<Rightarrow> clear_timer t l1)
        in l2\<lparr>pendingTimers := pendingTimers l2 @ [(nextTimerId l2, i)],
              exitTimers := map_set i (nextTimerId l2) (exitTimers l2), nextTimerId := Suc (nextTimerId l2)\<rparr>)"

text \<open>The callback of an exit timer, 400 ms later.\<close>

definition exit_timeout :: "nat \<Rightarrow> landing \<Rightarrow> landing" where
  "exit_timeout t l =
     (case map_of (pendingTimers l) t of
        None \<Rightarrow> l
      | Some i \<Rightarrow>
          let l1 = clear_timer t l;
              l2 = (if map_of (secState l1) i = Some Exiting then l1\<lparr>secState := map_set i Idle (secState l1)\<rparr> else l1)
          in l2\<lparr>exitTimers := filter (\<lambda>(j, _). j \<noteq> i) (exitTimers l2)\<rparr>)"

definition after_render :: "landing \<Rightarrow> landing" where
  "after_render l = l\<lparr>secRef := secState l\<rparr>"

text \<open>The clean-up when the page is left: every timer of the map is cleared.\<close>

definition leave_page :: "landing \<Rightarrow> landing" where
  "leave_page l =
     (let l1 = fold clear_timer (map snd (exitTimers l)) l in l1\<lparr>exitTimers := []\<rparr>)"

datatype landing_event = Entries "(string \<times> bool) list" | Exit_timer nat | Rendered | Media bool

fun landing_step :: "landing_event \<Rightarrow> landing \<Rightarrow> landing" where
  "landing_step (Entries es) l = fold (\<lambda>(i, b). observe_entry i b) es l"
| "landing_step (Exit_timer t) l = exit_timeout t l"
| "landing_step Rendered l = after_render l"
| "landing_step (Media m) l = l\<lparr>isMobile := m\<rparr>"

definition landing_init :: "bool \<Rightarrow> landing" where
  "landing_init m = \<lparr>isMobile = m, secState = [], secRef = [], exitTimers = [], pendingTimers = [], nextTimerId = 1,
     animatedSet = []\<rparr>"

definition landing_run :: "landing_event list \<Rightarrow> landing \<Rightarrow> landing" where
  "landing_run es l = fold landing_step es l"

text \<open>Every pending timer is the one registered for its section, and belongs to an exiting one.\<close>

definition timers_ok :: "landing \<Rightarrow> bool" where
  "timers_ok l \<longleftrightarrow>
     (\<forall>t i. map_of (pendingTimers l) t = Some i \<longrightarrow> t < nextTimerId l) \<and>
     (\<forall>i t. map_of (exitTimers l) i = Some t \<longleftrightarrow> map_of (pendingTimers l) t = Some i) \<and>
     (\<forall>i. map_of (secState l) i = Some Exiting \<longleftrightarrow> map_of (exitTimers l) i \<noteq> None)"

section \<open>The active chapter\<close>

text \<open>
  \<open>updateActive\<close>: the chapter whose top is nearest to the probe line, among those that do not
  end more than 24 pixels above it; a rectangle is the chapter's id, its top and its bottom.
\<close>

fun best_chapter :: "rat \<Rightarrow> (string \<times> rat \<times> rat) list \<Rightarrow> string \<times> rat option \<Rightarrow> string \<times> rat option" where
  "best_chapter probe [] best = best"
| "best_chapter probe ((i, t, b) # cs) (bestId, bestDist) =
     (if b < probe - 24 then best_chapter probe cs (bestId, bestDist)
      else
        let dist = \<bar>t - probe\<bar>
        in if (case bestDist of None \<Rightarrow> True | Some d \<Rightarrow> dist < d) then best_chapter probe cs (i, Some dist)
           else best_chapter probe cs (bestId, bestDist))"

definition updateActive :: "rat \<Rightarrow> rat \<Rightarrow> string \<Rightarrow> (string \<times> rat \<times> rat) list \<Rightarrow> string" where
  "updateActive rootTop rootHeight firstId cs =
     fst (best_chapter (rootTop + min 220 (rootHeight * (28/100))) cs (firstId, None))"

section \<open>Animated titles\<close>

text \<open>White space and the letters of \<open>/[A-Za-z0-9]/\<close>, as code points.\<close>

definition cp_space :: "nat \<Rightarrow> bool" where
  "cp_space c \<longleftrightarrow> (9 \<le> c \<and> c \<le> 13) \<or> (8192 \<le> c \<and> c \<le> 8202) \<or>
     c \<in> {32, 160, 5760, 8232, 8233, 8239, 8287, 12288, 65279}"

definition cp_latin :: "nat \<Rightarrow> bool" where
  "cp_latin c \<longleftrightarrow> (65 \<le> c \<and> c \<le> 90) \<or> (97 \<le> c \<and> c \<le> 122) \<or> (48 \<le> c \<and> c \<le> 57)"

text \<open>\<open>text.split(/(\s+)/)\<close>: words and the white space between them.\<close>

function split_words :: "nat list \<Rightarrow> nat list list" where
  "split_words cs =
     (let w = takeWhile (\<lambda>c. \<not> cp_space c) cs; r = dropWhile (\<lambda>c. \<not> cp_space c) cs
      in if r = [] then [w] else w # takeWhile cp_space r # split_words (dropWhile cp_space r))"
  by pat_completeness auto

lemma dropWhile_shorter: "xs \<noteq> [] \<Longrightarrow> P (hd xs) \<Longrightarrow> length (dropWhile P xs) < length xs"
  by (cases xs) (auto simp: le_imp_less_Suc length_dropWhile_le)

termination split_words
proof (relation "measure length")
  fix cs w r
  assume r: "r = dropWhile (\<lambda>c. \<not> cp_space c) cs" "r \<noteq> []"
  then have "cp_space (hd r)" by (metis hd_dropWhile)
  then have "length (dropWhile cp_space r) < length r" using r(2) by (intro dropWhile_shorter)
  also have "\<dots> \<le> length cs" using r(1) by (simp add: length_dropWhile_le)
  finally show "(dropWhile cp_space r, cs) \<in> measure length" by simp
qed simp

datatype title_node = Space_span "nat list" | Word_span bool "(nat \<times> nat) list"

text \<open>\<open>renderAnimatedLine\<close>: the characters of a word with their animation delays.\<close>

fun render_tokens :: "nat \<Rightarrow> nat \<Rightarrow> nat list list \<Rightarrow> title_node list" where
  "render_tokens baseDelay offset [] = []"
| "render_tokens baseDelay offset (token # ts) =
     (if token \<noteq> [] \<and> list_all cp_space token then Space_span token # render_tokens baseDelay offset ts
      else Word_span (list_ex cp_latin token)
             (map (\<lambda>i. (token ! i, baseDelay + (offset + i) * 30)) [0..<length token])
           # render_tokens baseDelay (offset + length token) ts)"

definition renderAnimatedLine :: "nat list \<Rightarrow> nat \<Rightarrow> title_node list" where
  "renderAnimatedLine text baseDelay = render_tokens baseDelay 0 (split_words text)"

definition node_text :: "title_node \<Rightarrow> nat list" where
  "node_text n = (case n of Space_span s \<Rightarrow> s | Word_span _ cs \<Rightarrow> map fst cs)"

definition node_delays :: "title_node \<Rightarrow> nat list" where
  "node_delays n = (case n of Space_span s \<Rightarrow> [] | Word_span _ cs \<Rightarrow> map snd cs)"

section \<open>Facts\<close>

declare split_words.simps [simp del]

lemma concat_split_words: "concat (split_words cs) = cs"
proof (induction cs rule: split_words.induct)
  case (1 cs)
  let ?r = "dropWhile (\<lambda>c. \<not> cp_space c) cs"
  show ?case
  proof (cases "?r = []")
    case True
    then show ?thesis
      using takeWhile_dropWhile_id [of "\<lambda>c. \<not> cp_space c" cs] by (subst split_words.simps) (simp add: Let_def)
  next
    case False
    then have "concat (split_words (dropWhile cp_space ?r)) = dropWhile cp_space ?r" using 1 by simp
    with False show ?thesis
      by (subst split_words.simps) (simp add: Let_def takeWhile_dropWhile_id)
  qed
qed

lemma render_text: "concat (map node_text (render_tokens b k ts)) = concat ts"
  by (induction b k ts rule: render_tokens.induct) (auto simp: node_text_def map_nth comp_def)

lemma render_delays:
  "concat (map node_delays (render_tokens b k ts)) =
     map (\<lambda>i. b + i * 30) [k..<k + length (concat (filter (\<lambda>t. \<not> (t \<noteq> [] \<and> list_all cp_space t)) ts))]"
proof (induction b k ts rule: render_tokens.induct)
  case (2 b k token ts)
  show ?case
  proof (cases "token \<noteq> [] \<and> list_all cp_space token")
    case True
    with 2 show ?thesis by (simp add: node_delays_def)
  next
    case False
    let ?w = "Word_span (list_ex cp_latin token) (map (\<lambda>i. (token ! i, b + (k + i) * 30)) [0..<length token])"
    let ?words = "filter (\<lambda>t. \<not> (t \<noteq> [] \<and> list_all cp_space t))"
    have r: "render_tokens b k (token # ts) = ?w # render_tokens b (k + length token) ts" using False by auto
    have f: "?words (token # ts) = token # ?words ts" using False by simp
    have w: "node_delays ?w = map (\<lambda>i. b + i * 30) [k..<k + length token]"
      by (rule nth_equalityI) (simp_all add: node_delays_def)
    have "[k..<k + (length token + n)] = [k..<k + length token] @ [k + length token..<k + length token + n]" for n
      by (metis add.assoc le_add1 upt_add_eq_append)
    then show ?thesis
      unfolding r f by (simp only: list.map concat.simps w 2(2) [OF False] length_append map_append)
  qed
qed simp

lemma best_chapter_nearest:
  assumes "best_chapter probe cs (i, d) = (j, e)"
  shows "(case e of None \<Rightarrow> d = None \<and> j = i \<and> (\<forall>(x, t, b) \<in> set cs. b < probe - 24)
          | Some m \<Rightarrow> ((j, m) = (i, the d) \<and> d \<noteq> None \<or> (\<exists>t b. (j, t, b) \<in> set cs \<and> \<not> b < probe - 24 \<and> m = \<bar>t - probe\<bar>)) \<and>
              (\<forall>(x, t, b) \<in> set cs. b < probe - 24 \<or> m \<le> \<bar>t - probe\<bar>) \<and> (d = None \<or> m \<le> the d))"
  using assms
proof (induction probe cs "(i, d)" arbitrary: i d rule: best_chapter.induct)
  case (1 probe)
  then show ?case by (auto split: option.split)
next
  case (2 probe x t b cs i d)
  show ?case
  proof (cases "b < probe - 24")
    case True
    with 2(1) 2(4) show ?thesis by (fastforce split: option.splits)
  next
    case skip: False
    show ?thesis
    proof (cases "case d of None \<Rightarrow> True | Some d \<Rightarrow> \<bar>t - probe\<bar> < d")
      case True
      then have "best_chapter probe cs (x, Some \<bar>t - probe\<bar>) = (j, e)" using 2(4) skip by (simp add: Let_def)
      from 2(2) [OF skip refl True this] True skip show ?thesis
        by (fastforce split: option.splits)
    next
      case False
      then have "best_chapter probe cs (i, d) = (j, e)" using 2(4) skip by (simp add: Let_def)
      from 2(3) [OF skip refl False this] False skip show ?thesis
        by (fastforce split: option.splits)
    qed
  qed
qed

section \<open>The exit timers\<close>

lemma map_of_filter_key: "map_of (filter (\<lambda>(j, _). j \<noteq> k) xs) = (map_of xs)(k := None)"
  by (induction xs) (auto simp: fun_eq_iff)

lemma clear_timer_sel [simp]:
  "map_of (pendingTimers (clear_timer t l)) = (map_of (pendingTimers l))(t := None)"
  "secState (clear_timer t l) = secState l" "exitTimers (clear_timer t l) = exitTimers l"
  "nextTimerId (clear_timer t l) = nextTimerId l" "secRef (clear_timer t l) = secRef l"
  by (simp_all add: clear_timer_def map_of_filter_key)

lemma timers_none: "timers_ok l \<Longrightarrow> map_of (exitTimers l) i = None \<Longrightarrow> map_of (pendingTimers l) t \<noteq> Some i"
  unfolding timers_ok_def by (metis option.distinct(1))

lemma timers_one: "timers_ok l \<Longrightarrow> map_of (exitTimers l) i = Some t \<Longrightarrow> map_of (pendingTimers l) u = Some i \<longleftrightarrow> u = t"
  unfolding timers_ok_def by (metis option.inject)

lemma timers_at: "timers_ok l \<Longrightarrow> map_of (exitTimers l) i = Some t \<Longrightarrow> map_of (pendingTimers l) t = Some j \<longleftrightarrow> j = i"
  unfolding timers_ok_def by (metis option.inject)

lemma timers_ok_enter:
  assumes "timers_ok l" and "i \<noteq> []" "isMobile l"
  shows "timers_ok (observe_entry i True l)"
proof (cases "map_of (exitTimers l) i")
  case None
  then have "observe_entry i True l = l\<lparr>secState := map_set i Visible (secState l)\<rparr>"
    using assms by (simp add: observe_entry_def)
  with assms(1) None timers_none [OF assms(1) None] show ?thesis by (simp add: timers_ok_def update_conv')
next
  case (Some t)
  then have "observe_entry i True l = (clear_timer t l)\<lparr>exitTimers := filter (\<lambda>(j, _). j \<noteq> i) (exitTimers l),
      secState := map_set i Visible (secState l)\<rparr>"
    using assms by (simp add: observe_entry_def)
  with assms(1) timers_one [OF assms(1) Some] timers_at [OF assms(1) Some] show ?thesis
    by (auto simp: timers_ok_def update_conv' map_of_filter_key)
qed

text \<open>\<open>l2\<close>: the state after the old timer of the section, if any, was cleared.\<close>

lemma timers_ok_exit:
  assumes "timers_ok l" and "i \<noteq> []" "isMobile l" "map_of (secRef l) i = Some Visible"
  shows "timers_ok (observe_entry i False l)"
proof -
  define l2 where "l2 = (case map_of (exitTimers l) i of None \<Rightarrow> l\<lparr>secState := map_set i Exiting (secState l)\<rparr>
      | Some t \<Rightarrow> clear_timer t (l\<lparr>secState := map_set i Exiting (secState l)\<rparr>))"
  have step: "observe_entry i False l = l2\<lparr>pendingTimers := pendingTimers l2 @ [(nextTimerId l2, i)],
      exitTimers := map_set i (nextTimerId l2) (exitTimers l2), nextTimerId := Suc (nextTimerId l2)\<rparr>"
    using assms by (simp add: observe_entry_def l2_def Let_def)
  have same: "exitTimers l2 = exitTimers l" "nextTimerId l2 = nextTimerId l"
    "map_of (secState l2) = (map_of (secState l))(i \<mapsto> Exiting)"
    by (simp_all add: l2_def update_conv' split: option.split)
  have pend: "map_of (pendingTimers l2) t = Some j \<longleftrightarrow> j \<noteq> i \<and> map_of (pendingTimers l) t = Some j" for t j
  proof (cases "map_of (exitTimers l) i")
    case None
    with timers_none [OF assms(1) None] show ?thesis by (auto simp: l2_def)
  next
    case (Some u)
    with timers_one [OF assms(1) Some] timers_at [OF assms(1) Some] show ?thesis by (auto simp: l2_def)
  qed
  have fresh: "map_of (pendingTimers l2) (nextTimerId l) = None"
    using assms(1) pend by (cases "map_of (pendingTimers l2) (nextTimerId l)") (auto simp: timers_ok_def)
  have new: "map_of (pendingTimers l2 @ [(nextTimerId l, i)]) = (map_of (pendingTimers l2))(nextTimerId l \<mapsto> i)"
    using fresh by (auto simp: map_add_def fun_eq_iff split: option.split)
  have noE: "map_of (exitTimers l) j \<noteq> Some (nextTimerId l)" for j
    using assms(1) unfolding timers_ok_def by (metis less_irrefl)
  have inv: "map_of (exitTimers l) j = Some t \<longleftrightarrow> map_of (pendingTimers l) t = Some j" for j t
    using assms(1) by (simp add: timers_ok_def)
  have exi: "map_of (secState l) j = Some Exiting \<longleftrightarrow> map_of (exitTimers l) j \<noteq> None" for j
    using assms(1) by (simp add: timers_ok_def)
  have bnd: "map_of (pendingTimers l) t = Some j \<Longrightarrow> t < nextTimerId l" for t j
    using assms(1) by (auto simp: timers_ok_def)
  have newp: "map_of (pendingTimers l2 @ [(nextTimerId l, i)]) t = Some j \<longleftrightarrow>
      (t = nextTimerId l \<and> j = i) \<or> (j \<noteq> i \<and> map_of (pendingTimers l) t = Some j)" for t j
    using pend [of t j] fresh unfolding new by auto
  show ?thesis
    unfolding timers_ok_def step
    by (intro conjI allI; simp add: same newp update_conv' del: map_of_append)
      (auto simp: inv exi dest: bnd intro: less_SucI)
qed

lemma timers_ok_entry: "timers_ok l \<Longrightarrow> timers_ok (observe_entry i b l)"
proof (cases "i \<noteq> [] \<and> isMobile l \<and> (b \<or> map_of (secRef l) i = Some Visible)")
  case True
  assume "timers_ok l"
  with True show ?thesis by (cases b) (auto intro: timers_ok_enter timers_ok_exit)
next
  case False
  assume "timers_ok l"
  with False show ?thesis by (auto simp: observe_entry_def markAnimated_def timers_ok_def)
qed

lemma timers_ok_timeout: "timers_ok l \<Longrightarrow> timers_ok (exit_timeout t l)"
proof (cases "map_of (pendingTimers l) t")
  case (Some i)
  assume ok: "timers_ok l"
  with Some have i: "map_of (exitTimers l) i = Some t" "map_of (secState l) i = Some Exiting"
    by (auto simp: timers_ok_def)
  then have "exit_timeout t l = (clear_timer t l)\<lparr>secState := map_set i Idle (secState l),
      exitTimers := filter (\<lambda>(j, _). j \<noteq> i) (exitTimers l)\<rparr>"
    using Some by (simp add: exit_timeout_def)
  with ok timers_one [OF ok i(1)] timers_at [OF ok i(1)] show ?thesis
    by (auto simp: timers_ok_def update_conv' map_of_filter_key)
qed (simp add: exit_timeout_def)

lemma timers_ok_step: "timers_ok l \<Longrightarrow> timers_ok (landing_step e l)"
proof (cases e)
  case (Entries es)
  have "timers_ok (fold (\<lambda>(i, b). observe_entry i b) es l)" if "timers_ok l" for l
    using that by (induction es arbitrary: l) (auto intro: timers_ok_entry)
  then show "timers_ok l \<Longrightarrow> ?thesis" using Entries by simp
qed (simp_all add: timers_ok_timeout, simp_all add: timers_ok_def after_render_def)

interpretation exit_timers: invariant_system
  "\<lambda>l. \<exists>m. l = landing_init m" "\<lambda>l k. \<exists>e. k = landing_step e l" timers_ok
proof unfold_locales
  show "timers_ok l" if "\<exists>m. l = landing_init m" for l
    using that by (auto simp: timers_ok_def landing_init_def)
qed (auto intro: timers_ok_step)

lemma landing_run_reach:
  "reach (\<lambda>l. \<exists>m. l = landing_init m) (\<lambda>l k. \<exists>e. k = landing_step e l) (landing_run es (landing_init m))"
proof (induction es rule: rev_induct)
  case Nil
  then show ?case by (auto simp: landing_run_def intro: reach_init)
next
  case (snoc e es)
  then show ?case by (auto simp: landing_run_def intro: reach_step)
qed

lemma clear_all: "map_of (pendingTimers (fold clear_timer ts l)) t = (if t \<in> set ts then None else map_of (pendingTimers l) t)"
  by (induction ts arbitrary: l) auto

section \<open>Properties\<close>

text \<open>
  Exit timers: after any sequence of observer callbacks, renders and timeouts a section is
  exiting exactly while a timer for it is pending, the timer makes it idle, and leaving the
  page clears every pending timer, so no callback runs on an unmounted page.
\<close>

theorem exit_timers_tracked:
  "let l = landing_run es (landing_init m)
   in (map_of (secState l) i = Some Exiting) = (\<exists>t. map_of (pendingTimers l) t = Some i) \<and>
      (case map_of (exitTimers l) i of None \<Rightarrow> True | Some t \<Rightarrow> map_of (secState (exit_timeout t l)) i = Some Idle) \<and>
      pendingTimers (leave_page l) = []"
proof -
  define l where "l = landing_run es (landing_init m)"
  have ok: "timers_ok l" unfolding l_def by (rule exit_timers.reach_inv [OF landing_run_reach])
  have 1: "(map_of (secState l) i = Some Exiting) = (\<exists>t. map_of (pendingTimers l) t = Some i)"
    using ok by (auto simp: timers_ok_def)
  have 2: "case map_of (exitTimers l) i of None \<Rightarrow> True | Some t \<Rightarrow> map_of (secState (exit_timeout t l)) i = Some Idle"
  proof (cases "map_of (exitTimers l) i")
    case (Some t)
    then have "map_of (pendingTimers l) t = Some i" "map_of (secState l) i = Some Exiting"
      using ok by (auto simp: timers_ok_def)
    with Some show ?thesis by (simp add: exit_timeout_def Let_def update_conv')
  qed simp
  have "map_of (pendingTimers (leave_page l)) t = None" for t
  proof (cases "map_of (pendingTimers l) t")
    case (Some j)
    then have "map_of (exitTimers l) j = Some t" using ok by (simp add: timers_ok_def)
    then have "t \<in> set (map snd (exitTimers l))" by (force dest: map_of_SomeD)
    then show ?thesis by (simp add: leave_page_def Let_def clear_all)
  qed (simp add: leave_page_def Let_def clear_all)
  then have "map_of (pendingTimers (leave_page l)) = Map.empty" by (intro ext) simp
  then have 3: "pendingTimers (leave_page l) = []" by (simp only: map_of_eq_empty_iff)
  from 1 2 3 show ?thesis unfolding l_def [symmetric] by (simp only: Let_def simp_thms)
qed


text \<open>
  The active chapter is the nearest: when some chapter does not end above the probe line,
  the one highlighted is such a chapter and none of them has its top nearer to the line.
\<close>

theorem active_chapter_nearest:
  assumes "(i, t, b) \<in> set cs" and "rootTop + min 220 (rootHeight * (28/100)) - 24 \<le> b"
  shows "\<exists>t' b'. (updateActive rootTop rootHeight firstId cs, t', b') \<in> set cs \<and>
    rootTop + min 220 (rootHeight * (28/100)) - 24 \<le> b' \<and>
    \<bar>t' - (rootTop + min 220 (rootHeight * (28/100)))\<bar> \<le> \<bar>t - (rootTop + min 220 (rootHeight * (28/100)))\<bar>"
proof -
  define p where "p = rootTop + min 220 (rootHeight * (28/100))"
  obtain j e where r: "best_chapter p cs (firstId, None) = (j, e)" by (cases "best_chapter p cs (firstId, None)")
  have "\<exists>t' b'. (j, t', b') \<in> set cs \<and> p - 24 \<le> b' \<and> \<bar>t' - p\<bar> \<le> \<bar>t - p\<bar>"
  proof (cases e)
    case None
    with best_chapter_nearest [OF r] assms show ?thesis by (auto simp: p_def)
  next
    case (Some m)
    with best_chapter_nearest [OF r] obtain t' b' where "(j, t', b') \<in> set cs" "\<not> b' < p - 24" "m = \<bar>t' - p\<bar>"
      by auto
    moreover have "m \<le> \<bar>t - p\<bar>"
    proof -
      have "\<forall>(x, t, b) \<in> set cs. b < p - 24 \<or> m \<le> \<bar>t - p\<bar>" using best_chapter_nearest [OF r] Some by simp
      with assms(1) have "b < p - 24 \<or> m \<le> \<bar>t - p\<bar>" by blast
      with assms(2) show ?thesis by (simp add: p_def)
    qed
    ultimately show ?thesis by force
  qed
  then show ?thesis unfolding updateActive_def p_def [symmetric] r by simp
qed

lemma active_chapter_nearest_witness:
  "updateActive 0 500 ''01'' [(''01'', -300, 90), (''02'', 100, 500), (''03'', 510, 900)] = ''02'' \<and>
   (\<exists>t' b'. (updateActive 0 500 ''01'' [(''01'', -300, 90), (''02'', 100, 500), (''03'', 510, 900)], t', b') \<in>
      set [(''01'', -300 :: rat, 90 :: rat), (''02'', 100, 500), (''03'', 510, 900)] \<and>
      0 + min 220 (500 * (28/100)) - 24 \<le> b' \<and>
      \<bar>t' - (0 + min 220 (500 * (28/100)))\<bar> \<le> \<bar>100 - (0 + min 220 (500 * (28/100)))\<bar>)"
proof
  show "updateActive 0 500 ''01'' [(''01'', -300, 90), (''02'', 100, 500), (''03'', 510, 900)] = ''02''"
    by (simp add: updateActive_def)
qed (rule active_chapter_nearest [of "''02''" 100 500]; simp only: list.set insert_iff; simp)

end
