(* ===== verification/Landing_Page.thy ===== *)
theory Landing_Page
  imports Landing Ui_Text
begin

text \<open>
  What \<open>components/IntroLanding.jsx\<close> renders: its eight chapters, the header, the navigation with
  the active chapter, and the sections with their classes. A chapter's body is the list of its
  spans; the white space of the markup is as JSX keeps it: lines are trimmed and joined by one
  space, and a line break next to an element leaves nothing.
\<close>

section \<open>The chapters\<close>

datatype body_span = Plain label | Code_span label

record page_chapter =
  ch_id :: string
  ch_navZh :: label
  ch_navEn :: label
  ch_titleZh :: label
  ch_titleEn :: label
  ch_subtitleZh :: label
  ch_subtitleEn :: label
  ch_summaryZh :: label
  ch_summaryEn :: label
  ch_bodyZh :: "body_span list"
  ch_bodyEn :: "body_span list"

definition chapter_01 :: page_chapter where
  "chapter_01 =
     \<lparr>ch_id = ''01'',
      ch_navZh = [20026, 20160, 20040, 38656, 35201] @ cp '' Consensus'',
      ch_navEn = cp ''Why Consensus Matters'',
      ch_titleZh = [20026, 20160, 20040, 38656, 35201] @ cp '' Consensus'',
      ch_titleEn = cp ''Why Consensus Exists'',
      ch_subtitleZh = [27809, 26377, 20849, 35782, 23601, 27809, 26377, 19968, 33268, 24615],
      ch_subtitleEn = cp ''Consistency Before Availability'',
      ch_summaryZh = [27809, 26377, 20849, 35782, 65292, 21103, 26412, 29366, 24577, 20250, 20998, 21449, 12290],
      ch_summaryEn = cp ''Without consensus, replicas diverge.'',
      ch_bodyZh = [Plain ([20998, 24067, 24335, 31995, 32479, 25226, 29366, 24577, 22797, 21046, 21040, 22810, 20010, 33410,
            28857, 20197, 33719, 24471, 21487, 29992, 24615, 65292, 20294, 21482, 35201, 20986, 29616, 28040,
            24687, 20081, 24207, 12289, 24310, 36831, 25110, 33410, 28857, 25925, 38556, 65292] @ cp '' '' @
            [21382, 21490, 23601, 21487, 33021, 20998, 21449, 12290] @ cp ''Raft '' @ [36890, 36807] @
            cp '' ''),
        Code_span (cp ''quorum''),
        Plain (cp '' '' @ [35268, 21017, 21644, 20005, 26684, 30340, 26085, 24535, 39034, 24207, 65292, 36991,
            20813]),
        Code_span (cp ''split-brain''),
        Plain (cp '' '' @ [24102, 26469, 30340, 19981, 19968, 33268, 12290])],
      ch_bodyEn = [Plain (cp ''Replication improves availability, but failures and out-of-order '' @
            cp ''delivery can split history across nodes. Raft uses strict log '' @ cp ''ordering and''),
        Code_span (cp ''quorum''),
        Plain (cp '' semantics to prevent ''),
        Code_span (cp ''split-brain''),
        Plain (cp '' state.'')]\<rparr>"

definition chapter_02 :: page_chapter where
  "chapter_02 =
     \<lparr>ch_id = ''02'',
      ch_navZh = cp ''Raft '' @ [35774, 35745, 30446, 26631],
      ch_navEn = cp ''Raft Design Goal'',
      ch_titleZh = cp ''Raft '' @ [35774, 35745, 30446, 26631],
      ch_titleEn = cp ''Raft Design Goal'',
      ch_subtitleZh = [21487, 29702, 35299, 24615, 20248, 20808, 20110, 22797, 26434, 25216, 24039],
      ch_subtitleEn = cp ''Understandability as a Constraint'',
      ch_summaryZh = [21487, 29702, 35299, 24615, 20248, 20808, 20110, 22797, 26434, 25216, 24039, 12290],
      ch_summaryEn = cp ''Understandability is a first-class goal.'',
      ch_bodyZh = [Plain (cp ''Raft '' @ [30340, 26680, 24515, 26159, 8220, 21487, 29702, 35299, 30340, 20849, 35782, 8221,
            65306, 21333, 19968, 39046, 23548, 32773, 27169, 22411, 12289, 28165, 26224, 30340, 20219, 26399,
            25512, 36827, 21644, 19968, 33268, 30340, 26085, 24535, 26816, 26597, 12290] @ cp '' '' @ [23427,
            25226, 22797, 26434, 24615, 25910, 25947, 21040] @ cp '' ''),
        Code_span (cp ''Leader''),
        Plain ([65292, 35753, 21327, 35758, 22312, 24037, 31243, 19978, 26356, 23481, 26131, 39564, 35777, 12289,
            35843, 35797, 19982, 25945, 23398, 12290])],
      ch_bodyEn = [Plain (cp ''Raft optimizes for understandability: strong leadership, explicit '' @
            cp ''term progression, and deterministic log checks. By concentrating '' @
            cp ''authority in the ''),
        Code_span (cp ''Leader''),
        Plain (cp '', the protocol is easier to reason about and debug.'')]\<rparr>"

definition chapter_03 :: page_chapter where
  "chapter_03 =
     \<lparr>ch_id = ''03'',
      ch_navZh = [35282, 33394, 27169, 22411] @ cp '' Role Model'',
      ch_navEn = cp ''Role Model'',
      ch_titleZh = [35282, 33394, 27169, 22411] @ cp '' Role Model'',
      ch_titleEn = cp ''Role Model'',
      ch_subtitleZh = [19977, 31181, 35282, 33394, 19982, 21333, 35843, 20219, 26399],
      ch_subtitleEn = cp ''Follower, Candidate, Leader'',
      ch_summaryZh = [19977, 24577, 20999, 25442, 65292, 20219, 26399, 21333, 35843, 36882, 22686, 12290],
      ch_summaryEn = cp ''Three roles, monotonically increasing terms.'',
      ch_bodyZh = [Plain ([27599, 20010, 33410, 28857, 21482, 22312] @ cp '' ''),
        Code_span (cp ''Follower''),
        Plain ([12289]),
        Code_span (cp ''Candidate''),
        Plain ([12289]),
        Code_span (cp ''Leader''),
        Plain (cp '' '' @ [19977, 31181, 35282, 33394, 20013, 20999, 25442, 12290, 20219, 20309, 33410, 28857,
            30475, 21040, 26356, 39640]),
        Code_span (cp ''term''),
        Plain (cp '' '' @ [37117, 20250, 31435, 21363, 38477, 32423, 65292, 20445, 35777, 26087, 39046, 23548,
            19981, 20250, 38271, 26399, 24178, 25200, 31995, 32479, 12290])],
      ch_bodyEn = [Plain (cp ''Each node is always one of ''),
        Code_span (cp ''Follower''),
        Plain (cp '', ''),
        Code_span (cp ''Candidate''),
        Plain (cp '', or ''),
        Code_span (cp ''Leader''),
        Plain (cp ''. Seeing a higher ''),
        Code_span (cp ''term''),
        Plain (cp '' forces an immediate step-down, which prevents stale leaders from '' @ cp ''persisting.'')]\<rparr>"

definition chapter_04 :: page_chapter where
  "chapter_04 =
     \<lparr>ch_id = ''04'',
      ch_navZh = [36873, 20030, 27969, 31243] @ cp '' Election'',
      ch_navEn = cp ''Election Flow'',
      ch_titleZh = [36873, 20030, 27969, 31243] @ cp '' Election'',
      ch_titleEn = cp ''Election Flow'',
      ch_subtitleZh = [36229, 26102, 12289, 25237, 31080, 12289, 24403, 36873],
      ch_subtitleEn = cp ''Timeout, Vote, Leader'',
      ch_summaryZh = [36229, 26102, 35302, 21457, 25237, 31080, 65292, 22810, 25968, 31080, 36873, 20027, 12290],
      ch_summaryEn = cp ''Timeouts trigger voting; majority elects leader.'',
      ch_bodyZh = [Plain (cp ''Follower '' @ [22312, 36873, 20030, 36229, 26102, 21518, 25552, 21319, 20219, 26399, 24182,
            21457, 36865] @ cp '' ''),
        Code_span (cp ''RequestVote''),
        Plain ([12290] @ cp '' '' @ [25343, 21040, 22810, 25968, 31080, 30340, 33410, 28857, 25104, 20026] @
            cp '' Leader'' @ [65292, 24182, 36890, 36807, 21608, 26399, 24615] @ cp '' ''),
        Code_span (cp ''heartbeat''),
        Plain ([25233, 21046, 26032, 19968, 36718, 36873, 20030, 12290])],
      ch_bodyEn = [Plain (cp ''A timed-out follower increments term and sends ''),
        Code_span (cp ''RequestVote''),
        Plain (cp ''. Majority support promotes it to leader, and periodic ''),
        Code_span (cp ''heartbeat''),
        Plain (cp ''traffic keeps followers from starting competing elections.'')]\<rparr>"

definition chapter_05 :: page_chapter where
  "chapter_05 =
     \<lparr>ch_id = ''05'',
      ch_navZh = [22797, 21046, 27969, 31243] @ cp '' Replication'',
      ch_navEn = cp ''Replication Flow'',
      ch_titleZh = [22797, 21046, 27969, 31243] @ cp '' Replication'',
      ch_titleEn = cp ''Replication Flow'',
      ch_subtitleZh = [20808, 20889, 20027, 33410, 28857, 65292, 20877, 21521, 22810, 25968, 22797, 21046],
      ch_subtitleEn = cp ''AppendEntries and Commit'',
      ch_summaryZh = [20808, 20889] @ cp '' Leader'' @ [65292, 20877, 21521, 22810, 25968, 22797, 21046, 12290],
      ch_summaryEn = cp ''Leader first, then majority replication.'',
      ch_bodyZh = [Plain ([23458, 25143, 31471, 21629, 20196, 20808, 36861, 21152, 21040] @ cp '' Leader '' @ [26085, 24535,
            65292, 20877, 36890, 36807] @ cp '' ''),
        Code_span (cp ''AppendEntries''),
        Plain ([22797, 21046, 21040] @ cp '' Follower'' @ [12290, 36798, 21040, 22810, 25968, 30830, 35748, 21518,
            65292] @ cp ''Leader '' @ [25512, 36827] @ cp '' ''),
        Code_span (cp ''commitIndex''),
        Plain ([65292] @ cp '' '' @ [38598, 32676, 25165, 25226, 35813, 21629, 20196, 35270, 20026, 24050, 25552,
            20132, 12290])],
      ch_bodyEn = [Plain (cp ''Client commands are appended on the leader first, then replicated via''),
        Code_span (cp ''AppendEntries''),
        Plain (cp ''. Once a majority acknowledges, the leader advances ''),
        Code_span (cp ''commitIndex''),
        Plain (cp '' and the entry becomes committed.'')]\<rparr>"

definition chapter_06 :: page_chapter where
  "chapter_06 =
     \<lparr>ch_id = ''06'',
      ch_navZh = [23433, 20840, 24615] @ cp '' Safety'',
      ch_navEn = cp ''Safety'',
      ch_titleZh = [23433, 20840, 24615] @ cp '' Safety'',
      ch_titleEn = cp ''Safety'',
      ch_subtitleZh = [24050, 25552, 20132, 26465, 30446, 19981, 20250, 22238, 36864],
      ch_subtitleEn = cp ''Committed Means Durable'',
      ch_summaryZh = [24050, 25552, 20132, 26085, 24535, 19981, 20250, 22238, 36864, 12290],
      ch_summaryEn = cp ''Committed entries do not roll back.'',
      ch_bodyZh = [Plain (cp ''Raft '' @ [20381, 36182, 26085, 24535, 21305, 37197, 24615, 36136, 19982, 22810, 25968, 27966,
            32422, 26463, 26469, 30830, 20445, 23433, 20840, 24615, 65306, 24050, 25552, 20132, 26465, 30446,
            19981, 20250, 22240] @ cp '' Leader '' @ [20999, 25442, 32780, 20002, 22833, 12290, 21482, 26377,
            26085, 24535, 36275, 22815, 26032, 30340, 33410, 28857, 25165, 33021, 36194, 24471, 36873, 20030,
            65292, 36825, 20445, 35777, 20102]),
        Code_span (cp ''leader completeness''),
        Plain ([12290])],
      ch_bodyEn = [Plain (cp ''Safety comes from log matching plus majority constraints: committed '' @
            cp ''entries survive leader changes. Elections require up-to-date logs, '' @ cp ''which enforces''),
        Code_span (cp ''leader completeness''),
        Plain (cp ''.'')]\<rparr>"

definition chapter_07 :: page_chapter where
  "chapter_07 =
     \<lparr>ch_id = ''07'',
      ch_navZh = [25925, 38556, 22788, 29702] @ cp '' Faults'',
      ch_navEn = cp ''Fault Handling'',
      ch_titleZh = [25925, 38556, 22788, 29702] @ cp '' Faults'',
      ch_titleEn = cp ''Fault Handling'',
      ch_subtitleZh = [23849, 28291, 12289, 20998, 21306, 19982, 24674, 22797],
      ch_subtitleEn = cp ''Crash, Partition, Recovery'',
      ch_summaryZh = [25903, 25345] @ cp '' crash / restart / partition / heal'' @ [12290],
      ch_summaryEn = cp ''Crash, restart, partition, and heal are first-class.'',
      ch_bodyZh = [Plain ([36825, 20010, 28436, 31034, 25226, 25925, 38556, 20316, 20026, 20027, 36335, 24452, 65306, 20320,
            21487, 20197, 20027, 21160, 35302, 21457] @ cp '' ''),
        Code_span (cp ''kill''),
        Plain ([12289]),
        Code_span (cp ''restart''),
        Plain ([12289]),
        Code_span (cp ''partition''),
        Plain ([12289]),
        Code_span (cp ''heal''),
        Plain ([65292] @ cp '' '' @ [30452, 25509, 35266, 23519, 27861, 23450, 20154, 25968, 12289, 37325, 36873,
            19982, 26085, 24535, 20462, 22797, 34892, 20026, 12290])],
      ch_bodyEn = [Plain (cp ''Faults are part of the core workflow here: trigger ''),
        Code_span (cp ''kill''),
        Plain (cp '',''),
        Code_span (cp ''restart''),
        Plain (cp '', ''),
        Code_span (cp ''partition''),
        Plain (cp '', and ''),
        Code_span (cp ''heal''),
        Plain (cp '' to observe quorum boundaries, re-election, and log repair in real '' @ cp ''time.'')]\<rparr>"

definition chapter_08 :: page_chapter where
  "chapter_08 =
     \<lparr>ch_id = ''08'',
      ch_navZh = [20320, 23558, 30475, 21040, 20160, 20040],
      ch_navEn = cp ''What You Will See'',
      ch_titleZh = [20320, 23558, 30475, 21040, 20160, 20040],
      ch_titleEn = cp ''What You Will See'',
      ch_subtitleZh = [20174, 29702, 35770, 21040, 23454, 26102, 20449, 21495],
      ch_subtitleEn = cp ''From Theory to Runtime Signals'',
      ch_summaryZh = [29366, 24577, 12289, 26085, 24535, 12289] @ cp ''RPC '' @ [19982, 20107, 20214, 20840, 21487, 35265,
          12290],
      ch_summaryEn = cp ''State, logs, RPC flow, and events are visible.'',
      ch_bodyZh = [Plain ([36827, 20837, 28436, 31034, 21518, 65292, 20320, 20250, 30475, 21040, 35282, 33394, 21464, 21270,
            12289] @ cp ''term '' @ [25512, 36827, 12289, 26085, 24535, 22797, 21046, 12289, 25552, 20132,
            29366, 24577, 21644, 22312, 36884] @ cp '' RPC '' @ [21160, 30011, 12290] @ cp '' '' @ [24213,
            37096, 25511, 21046, 26639, 21487, 23454, 26102, 25552, 20132] @ cp '' ''),
        Code_span (cp ''submit cmd''),
        Plain (cp '' '' @ [24182, 27880, 20837, 25925, 38556, 65292, 23436, 25972, 35266, 23519, 21327, 35758,
            34892, 20026, 12290])],
      ch_bodyEn = [Plain (cp ''In the live demo, you will inspect role transitions, term '' @
            cp ''progression, replication, commit status, and in-flight RPC animation. '' @
            cp ''The control bar lets you issue ''),
        Code_span (cp ''submit cmd''),
        Plain (cp '' and inject faults instantly.'')]\<rparr>"


definition CHAPTERS :: "page_chapter list" where
  "CHAPTERS = [chapter_01, chapter_02, chapter_03, chapter_04, chapter_05, chapter_06, chapter_07, chapter_08]"

definition span_text :: "body_span \<Rightarrow> label" where
  "span_text b = (case b of Plain t \<Rightarrow> t | Code_span t \<Rightarrow> t)"

section \<open>The page\<close>

definition headerTitle :: "bool \<Rightarrow> string \<Rightarrow> label" where
  "headerTitle mobile l =
     (if mobile then cp ''Raft Visualizer''
      else if l = ''zh'' then cp ''Raft '' @ [21487, 35270, 21270, 23454, 39564, 22330]
      else cp ''Raft Consensus Visualizer'')"

text \<open>The rectangles \<open>updateActive\<close> reads: those of the chapters that are mounted, in order.\<close>

definition chapter_rects :: "(string \<Rightarrow> (rat \<times> rat) option) \<Rightarrow> (string \<times> rat \<times> rat) list" where
  "chapter_rects rect =
     concat (map (\<lambda>ch. case rect (ch_id ch) of None \<Rightarrow> [] | Some (t, b) \<Rightarrow> [(ch_id ch, t, b)]) CHAPTERS)"

definition activeId_of :: "rat \<Rightarrow> rat \<Rightarrow> (string \<Rightarrow> (rat \<times> rat) option) \<Rightarrow> string" where
  "activeId_of rootTop rootHeight rect = updateActive rootTop rootHeight (ch_id (CHAPTERS ! 0)) (chapter_rects rect)"

text \<open>The navigation, on the desktop only: id, whether it is drawn active, label and summary.\<close>

definition navItems :: "bool \<Rightarrow> string \<Rightarrow> string \<Rightarrow> (string \<times> bool \<times> label \<times> label) list" where
  "navItems mobile l activeId =
     (if mobile then []
      else map (\<lambda>ch. (ch_id ch, ch_id ch = activeId, if l = ''zh'' then ch_navZh ch else ch_navEn ch,
                      if l = ''zh'' then ch_summaryZh ch else ch_summaryEn ch)) CHAPTERS)"

text \<open>A section: whether its characters are shown, its classes, the two title lines and the body.\<close>

record section_view =
  sv_id :: string
  sv_shown :: bool
  sv_classes :: "string list"
  sv_title :: "title_node list"
  sv_subtitle :: "title_node list"
  sv_body :: "body_span list"

definition section_of :: "landing \<Rightarrow> string \<Rightarrow> page_chapter \<Rightarrow> section_view" where
  "section_of p l ch =
     (let mobileState = (case map_of (secState p) (ch_id ch) of None \<Rightarrow> Idle | Some st \<Rightarrow> st)
      in \<lparr>sv_id = ch_id ch,
          sv_shown = (if isMobile p then True else ch_id ch \<in> set (animatedSet p)),
          sv_classes = ''chapter'' #
            (if isMobile p
             then filter (\<lambda>c. c \<noteq> []) [''sectionMobile'', if mobileState = Visible then ''visible'' else [],
                                        if mobileState = Exiting then ''exiting'' else []]
             else []),
          sv_title = renderAnimatedLine (if l = ''zh'' then ch_titleZh ch else ch_titleEn ch) 0,
          sv_subtitle = renderAnimatedLine (if l = ''zh'' then ch_subtitleZh ch else ch_subtitleEn ch) 120,
          sv_body = (if l = ''zh'' then ch_bodyZh ch else ch_bodyEn ch)\<rparr>)"

definition page_sections :: "landing \<Rightarrow> string \<Rightarrow> section_view list" where
  "page_sections p l = map (section_of p l) CHAPTERS"

section \<open>Properties\<close>

lemmas chapter_defs = chapter_01_def chapter_02_def chapter_03_def chapter_04_def chapter_05_def chapter_06_def
  chapter_07_def chapter_08_def

lemma chapter_ids: "map ch_id CHAPTERS = [''01'', ''02'', ''03'', ''04'', ''05'', ''06'', ''07'', ''08'']"
  by (simp add: CHAPTERS_def chapter_defs)

lemma best_chapter_id: "fst (best_chapter probe cs best) \<in> insert (fst best) (fst ` set cs)"
proof (induction probe cs best rule: best_chapter.induct)
  case (2 probe i t b cs bestId bestDist)
  then show ?case by (auto simp: Let_def split: if_splits)
qed simp

lemma chapter_rects_ids: "fst ` set (chapter_rects rect) \<subseteq> set (map ch_id CHAPTERS)"
  by (auto simp: chapter_rects_def split: option.splits)

lemma activeId_of_chapter: "activeId_of rootTop rootHeight rect \<in> set (map ch_id CHAPTERS)"
proof -
  have "CHAPTERS \<noteq> []" by (simp add: CHAPTERS_def)
  then have "ch_id (CHAPTERS ! 0) \<in> set (map ch_id CHAPTERS)" by simp
  with best_chapter_id [of "rootTop + min 220 (rootHeight * (28/100))" "chapter_rects rect" "(ch_id (CHAPTERS ! 0), None)"]
    chapter_rects_ids [of rect]
  show ?thesis unfolding activeId_of_def updateActive_def by auto
qed

lemma one_equal: "distinct xs \<Longrightarrow> x \<in> set xs \<Longrightarrow> length (filter (\<lambda>y. y = x) xs) = 1"
  by (induction xs) (auto simp: filter_empty_conv)

text \<open>
  One place in the page: wherever the page is scrolled, whichever chapters are mounted, on the
  desktop exactly one entry of the navigation is drawn active, in either language; and the page
  has a section for every entry, in the same order.
\<close>

theorem one_active_chapter:
  "length (filter (fst \<circ> snd) (navItems False l (activeId_of rootTop rootHeight rect))) = 1 \<and>
   map fst (navItems False l a) = map sv_id (page_sections p l)"
proof -
  have "filter (fst \<circ> snd) (navItems False l i) = map (\<lambda>ch. (ch_id ch, True, if l = ''zh'' then ch_navZh ch else ch_navEn ch,
      if l = ''zh'' then ch_summaryZh ch else ch_summaryEn ch)) (filter (\<lambda>ch. ch_id ch = i) CHAPTERS)" for i
    by (simp add: navItems_def filter_map comp_def)
  then have "length (filter (fst \<circ> snd) (navItems False l i)) = length (filter (\<lambda>j. j = i) (map ch_id CHAPTERS))" for i
    by (simp add: filter_map comp_def)
  moreover have "distinct (map ch_id CHAPTERS)" unfolding chapter_ids by simp
  ultimately show ?thesis
    using one_equal [OF _ activeId_of_chapter] by (simp add: navItems_def page_sections_def section_of_def Let_def)
qed

text \<open>
  What the reader sees of a section is its state: on a mobile device a section has the class of
  its state and its text is always shown; on the desktop its text is shown once it was seen; and
  the characters of its two title lines spell the title and the subtitle of its language.
\<close>

theorem sections_show_state:
  "let v = section_of p l ch
   in (''exiting'' \<in> set (sv_classes v)) = (isMobile p \<and> map_of (secState p) (ch_id ch) = Some Exiting) \<and>
      (''visible'' \<in> set (sv_classes v)) = (isMobile p \<and> map_of (secState p) (ch_id ch) = Some Visible) \<and>
      sv_shown (section_of (markAnimated (ch_id ch) p) l ch) \<and>
      concat (map node_text (sv_title v)) = (if l = ''zh'' then ch_titleZh ch else ch_titleEn ch) \<and>
      concat (map node_text (sv_subtitle v)) = (if l = ''zh'' then ch_subtitleZh ch else ch_subtitleEn ch)"
  by (auto simp: section_of_def Let_def markAnimated_def renderAnimatedLine_def render_text concat_split_words
      split: option.split)

text \<open>
  The bodies in English: where the markup breaks a line between a word and an element, two words
  run together, in four of the eight chapters (such as \<open>ordering andquorum\<close> in the first).
\<close>

fun runs_together :: "label list \<Rightarrow> bool" where
  "runs_together (a # b # ts) =
     ((a \<noteq> [] \<and> b \<noteq> [] \<and> cp_latin (last a) \<and> cp_latin (hd b)) \<or> runs_together (b # ts))"
| "runs_together _ = False"

lemma cp_ends: "s \<noteq> [] \<Longrightarrow> last (cp s) = of_char (last s)" "s \<noteq> [] \<Longrightarrow> hd (cp s) = of_char (hd s)" "cp s = [] \<longleftrightarrow> s = []"
  by (simp_all add: cp_def last_map hd_map)

theorem english_bodies_run_words_together:
  "map ch_id (filter (\<lambda>ch. runs_together (map span_text (ch_bodyEn ch))) CHAPTERS) = [''01'', ''04'', ''05'', ''06'']"
  by (simp add: CHAPTERS_def chapter_defs span_text_def cp_ends cp_latin_def)

end
