(* ===== verification/Landing_Scroll.thy ===== *)
theory Landing_Scroll
  imports Landing_Page
begin

text \<open>
  The browser side of \<open>IntroLanding.jsx\<close>: the refs of the chapters, the intersection observer, which
  is made anew when the layout changes between mobile and desktop, the scroll listener with its
  animation frame, and \<open>useIsMobile\<close>. Elements are numbered; \<open>browser_frames\<close> are the animation
  frames requested and not yet run, \<open>observers\<close> the observers that are connected.
\<close>

record observer =
  ob_mobile :: bool
  ob_threshold :: rat
  ob_targets :: "nat list"

record scroller =
  sc_mounted :: bool
  sc_isMobile :: bool
  mediaListeners :: nat
  sc_elem :: "string \<Rightarrow> nat"
  chapterRefs :: "(string \<times> nat) list"
  observers :: "observer list"
  scrollListeners :: nat
  rafId :: "nat option"
  browser_frames :: "nat list"
  nextFrame :: nat
  activeId :: string

text \<open>\<open>setChapterRef(id)\<close>: React calls it with the element when it mounts, with null when it goes.\<close>

definition setChapterRef :: "string \<Rightarrow> nat option \<Rightarrow> scroller \<Rightarrow> scroller" where
  "setChapterRef i el p =
     (case el of Some e \<Rightarrow> p\<lparr>chapterRefs := map_set i e (chapterRefs p)\<rparr>
      | None \<Rightarrow> p\<lparr>chapterRefs := filter (\<lambda>(j, _). j \<noteq> i) (chapterRefs p)\<rparr>)"

text \<open>The effect on \<open>[isMobile]\<close> and its clean-up.\<close>

definition observe_effect :: "scroller \<Rightarrow> scroller" where
  "observe_effect p =
     p\<lparr>observers := observers p @
        [\<lparr>ob_mobile = sc_isMobile p, ob_threshold = (if sc_isMobile p then 4/10 else 33/100),
          ob_targets = concat (map (\<lambda>ch. case map_of (chapterRefs p) (ch_id ch) of Some el \<Rightarrow> [el] | None \<Rightarrow> []) CHAPTERS)\<rparr>]\<rparr>"

definition observe_cleanup :: "scroller \<Rightarrow> scroller" where
  "observe_cleanup p = p\<lparr>observers := butlast (observers p)\<rparr>"

text \<open>What the browser says of the layout when asked: the page's box, the boxes of elements.\<close>

record layout =
  ly_top :: rat
  ly_height :: rat
  ly_rect :: "nat \<Rightarrow> rat \<times> rat"

definition chapter_rect :: "layout \<Rightarrow> scroller \<Rightarrow> string \<Rightarrow> (rat \<times> rat) option" where
  "chapter_rect ly p i = map_option (ly_rect ly) (map_of (chapterRefs p) i)"

definition update_active :: "layout \<Rightarrow> scroller \<Rightarrow> scroller" where
  "update_active ly p = p\<lparr>activeId := activeId_of (ly_top ly) (ly_height ly) (chapter_rect ly p)\<rparr>"

definition onScroll :: "scroller \<Rightarrow> scroller" where
  "onScroll p =
     (if rafId p \<noteq> None then p
      else p\<lparr>rafId := Some (nextFrame p), browser_frames := browser_frames p @ [nextFrame p], nextFrame := Suc (nextFrame p)\<rparr>)"

text \<open>The callback of the animation frame.\<close>

definition scroll_frame :: "nat \<Rightarrow> layout \<Rightarrow> scroller \<Rightarrow> scroller" where
  "scroll_frame t ly p =
     (if t \<in> set (browser_frames p)
      then update_active ly (p\<lparr>browser_frames := filter (\<lambda>u. u \<noteq> t) (browser_frames p), rafId := None\<rparr>) else p)"

text \<open>The scroll effect: it runs once, and again \<open>updateActive\<close> at once.\<close>

definition scroll_effect :: "layout \<Rightarrow> scroller \<Rightarrow> scroller" where
  "scroll_effect ly p = update_active ly (p\<lparr>rafId := None, scrollListeners := scrollListeners p + 1\<rparr>)"

definition scroll_cleanup :: "scroller \<Rightarrow> scroller" where
  "scroll_cleanup p =
     (let p1 = p\<lparr>scrollListeners := scrollListeners p - 1\<rparr>
      in case rafId p1 of None \<Rightarrow> p1 | Some t \<Rightarrow> p1\<lparr>browser_frames := filter (\<lambda>u. u \<noteq> t) (browser_frames p1)\<rparr>)"

text \<open>\<open>useIsMobile\<close>: the effect listens to the query and reads it once more, as every change of the query does.\<close>

definition media_effect :: "scroller \<Rightarrow> scroller" where
  "media_effect p = p\<lparr>mediaListeners := mediaListeners p + 1\<rparr>"

definition media_cleanup :: "scroller \<Rightarrow> scroller" where
  "media_cleanup p = p\<lparr>mediaListeners := mediaListeners p - 1\<rparr>"

text \<open>
  React and the refs: each render makes new ref callbacks, so a render after the first calls all the
  old ones with null and then the new ones with the elements, in the order of the sections.
\<close>

definition attach_refs :: "scroller \<Rightarrow> scroller" where
  "attach_refs p = fold (\<lambda>ch q. setChapterRef (ch_id ch) (Some (sc_elem p (ch_id ch))) q) CHAPTERS p"

definition detach_refs :: "scroller \<Rightarrow> scroller" where
  "detach_refs p = fold (\<lambda>ch. setChapterRef (ch_id ch) None) CHAPTERS p"

definition rerender :: "scroller \<Rightarrow> scroller" where
  "rerender p = attach_refs (detach_refs p)"

text \<open>\<open>sync\<close>: \<open>setIsMobile\<close> renders the page when the layout changes sides, and the observer is made anew.\<close>

definition media_sync :: "bool \<Rightarrow> scroller \<Rightarrow> scroller" where
  "media_sync matches p =
     (if matches = sc_isMobile p then p
      else observe_effect (observe_cleanup (rerender (p\<lparr>sc_isMobile := matches\<rparr>))))"

text \<open>
  The page mounts: the query is read for the first render, React attaches the refs, then the effects
  run in the order of the component: \<open>useIsMobile\<close>, the observer, the scroll listener. What
  \<open>sync\<close> read in the first of them is rendered when they are through.
\<close>

definition landing_mount :: "bool \<Rightarrow> bool \<Rightarrow> (string \<Rightarrow> nat) \<Rightarrow> layout \<Rightarrow> scroller \<Rightarrow> scroller" where
  "landing_mount m0 m1 el ly p =
     (if sc_mounted p then p
      else media_sync m1 (scroll_effect ly (observe_effect (media_effect (attach_refs
             (p\<lparr>sc_mounted := True, sc_isMobile := m0, sc_elem := el, chapterRefs := [],
                activeId := ch_id (CHAPTERS ! 0)\<rparr>))))))"

definition landing_unmount :: "scroller \<Rightarrow> scroller" where
  "landing_unmount p =
     (if sc_mounted p
      then (scroll_cleanup (observe_cleanup (media_cleanup (detach_refs p))))\<lparr>sc_mounted := False\<rparr>
      else p)"

definition scrollToChapter :: "string \<Rightarrow> scroller \<Rightarrow> nat option" where
  "scrollToChapter i p = map_of (chapterRefs p) i"

datatype scroll_event =
    Mounts bool bool "string \<Rightarrow> nat" layout
  | Unmounts
  | Scrolls
  | Frame_runs nat layout
  | Query_changes bool
  | Renders

fun scroll_step :: "scroll_event \<Rightarrow> scroller \<Rightarrow> scroller" where
  "scroll_step (Mounts m0 m1 el ly) p = landing_mount m0 m1 el ly p"
| "scroll_step Unmounts p = landing_unmount p"
| "scroll_step Scrolls p = (if 0 < scrollListeners p then onScroll p else p)"
| "scroll_step (Frame_runs t ly) p = scroll_frame t ly p"
| "scroll_step (Query_changes m) p = (if 0 < mediaListeners p then media_sync m p else p)"
| "scroll_step Renders p = (if sc_mounted p then rerender p else p)"

definition scroller_init :: scroller where
  "scroller_init = \<lparr>sc_mounted = False, sc_isMobile = False, mediaListeners = 0, sc_elem = (\<lambda>_. 0), chapterRefs = [], observers = [],
     scrollListeners = 0, rafId = None, browser_frames = [], nextFrame = 1, activeId = ''''\<rparr>"

definition scroll_run :: "scroll_event list \<Rightarrow> scroller \<Rightarrow> scroller" where
  "scroll_run es p = fold scroll_step es p"

section \<open>The invariant\<close>

text \<open>While the page is there: one listener of each kind, one observer, of the layout shown, that sees every chapter once.\<close>

definition scroll_ok :: "scroller \<Rightarrow> bool" where
  "scroll_ok p \<longleftrightarrow>
     (if sc_mounted p then
        mediaListeners p = 1 \<and> scrollListeners p = 1 \<and>
        chapterRefs p = map (\<lambda>ch. (ch_id ch, sc_elem p (ch_id ch))) CHAPTERS \<and>
        observers p = [\<lparr>ob_mobile = sc_isMobile p, ob_threshold = (if sc_isMobile p then 4/10 else 33/100),
                        ob_targets = map (\<lambda>ch. sc_elem p (ch_id ch)) CHAPTERS\<rparr>] \<and>
        browser_frames p = (case rafId p of None \<Rightarrow> [] | Some t \<Rightarrow> [t])
      else mediaListeners p = 0 \<and> scrollListeners p = 0 \<and> observers p = [] \<and> browser_frames p = [] \<and> chapterRefs p = [])"

lemma map_set_fresh: "i \<notin> fst ` set m \<Longrightarrow> map_set i v m = m @ [(i, v)]"
  by (induction m) auto

lemma fold_attach:
  "fold (\<lambda>ch q. setChapterRef (ch_id ch) (Some (el (ch_id ch))) q) chs p =
   p\<lparr>chapterRefs := fold (\<lambda>ch. map_set (ch_id ch) (el (ch_id ch))) chs (chapterRefs p)\<rparr>"
  by (induction chs arbitrary: p) (simp_all add: setChapterRef_def)

lemma fold_map_set_fresh:
  "distinct (map ch_id chs) \<Longrightarrow> ch_id ` set chs \<inter> fst ` set m = {} \<Longrightarrow>
   fold (\<lambda>ch. map_set (ch_id ch) (el (ch_id ch))) chs m = m @ map (\<lambda>ch. (ch_id ch, el (ch_id ch))) chs"
proof (induction chs arbitrary: m)
  case (Cons ch chs)
  have "map_set (ch_id ch) (el (ch_id ch)) m = m @ [(ch_id ch, el (ch_id ch))]"
    using Cons.prems(2) by (intro map_set_fresh) auto
  with Cons show ?case by auto
qed simp

lemma fold_detach:
  "fold (\<lambda>ch. setChapterRef (ch_id ch) None) chs p =
   p\<lparr>chapterRefs := filter (\<lambda>(j, _). j \<notin> ch_id ` set chs) (chapterRefs p)\<rparr>"
  by (induction chs arbitrary: p) (simp_all only: fold.simps o_apply id_apply, simp_all add: setChapterRef_def split_def conj_commute)

lemma chapter_ids_distinct: "distinct (map ch_id CHAPTERS)"
  unfolding chapter_ids by simp

lemma attach_refs_eq:
  "chapterRefs p = [] \<Longrightarrow> attach_refs p = p\<lparr>chapterRefs := map (\<lambda>ch. (ch_id ch, sc_elem p (ch_id ch))) CHAPTERS\<rparr>"
  unfolding attach_refs_def fold_attach by (simp add: fold_map_set_fresh [OF chapter_ids_distinct, where el = "sc_elem p" and m = "[]"])

lemma detach_refs_eq:
  assumes "fst ` set (chapterRefs p) \<subseteq> set (map ch_id CHAPTERS)"
  shows "detach_refs p = p\<lparr>chapterRefs := []\<rparr>"
proof -
  have "filter (\<lambda>(j, _). j \<notin> ch_id ` set CHAPTERS) (chapterRefs p) = []"
    using assms unfolding filter_empty_conv set_map by (metis (mono_tags, lifting) case_prod_beta image_eqI subsetD)
  then show ?thesis unfolding detach_refs_def fold_detach by simp
qed

lemma scroll_ok_refs: "scroll_ok p \<Longrightarrow> fst ` set (chapterRefs p) \<subseteq> set (map ch_id CHAPTERS)"
  by (auto simp: scroll_ok_def split: if_splits)

lemma rerender_same:
  assumes "sc_mounted p" "chapterRefs p = map (\<lambda>ch. (ch_id ch, sc_elem p (ch_id ch))) CHAPTERS"
  shows "rerender p = p"
proof -
  have "detach_refs p = p\<lparr>chapterRefs := []\<rparr>" by (rule detach_refs_eq) (use assms in auto)
  then show ?thesis unfolding rerender_def using attach_refs_eq [of "p\<lparr>chapterRefs := []\<rparr>"] assms(2) by simp
qed

text \<open>The observer of a page whose refs are attached sees the element of every chapter, in order.\<close>

lemma observed_targets:
  assumes "chapterRefs p = map (\<lambda>ch. (ch_id ch, el (ch_id ch))) CHAPTERS"
  shows "concat (map (\<lambda>ch. case map_of (chapterRefs p) (ch_id ch) of Some el \<Rightarrow> [el] | None \<Rightarrow> []) CHAPTERS)
         = map (\<lambda>ch. el (ch_id ch)) CHAPTERS"
proof -
  have "map_of (chapterRefs p) (ch_id ch) = Some (el (ch_id ch))" if "ch \<in> set CHAPTERS" for ch
    unfolding assms using that chapter_ids_distinct by (intro map_of_is_SomeI) (auto simp: o_def)
  then have *: "map (\<lambda>ch. case map_of (chapterRefs p) (ch_id ch) of Some el \<Rightarrow> [el] | None \<Rightarrow> []) CHAPTERS
             = map (\<lambda>ch. [el (ch_id ch)]) CHAPTERS" by simp
  show ?thesis unfolding * by (simp add: concat_map_singleton)
qed

lemma observe_effect_eq:
  assumes "chapterRefs p = map (\<lambda>ch. (ch_id ch, sc_elem p (ch_id ch))) CHAPTERS"
  shows "observe_effect p = p\<lparr>observers := observers p @
           [\<lparr>ob_mobile = sc_isMobile p, ob_threshold = (if sc_isMobile p then 4/10 else 33/100),
             ob_targets = map (\<lambda>ch. sc_elem p (ch_id ch)) CHAPTERS\<rparr>]\<rparr>"
  unfolding observe_effect_def observed_targets [OF assms] ..

lemma media_sync_ok:
  assumes "scroll_ok p" "sc_mounted p"
  shows "scroll_ok (media_sync m p)"
proof (cases "m = sc_isMobile p")
  case False
  have "rerender (p\<lparr>sc_isMobile := m\<rparr>) = p\<lparr>sc_isMobile := m\<rparr>"
    using assms by (intro rerender_same) (auto simp: scroll_ok_def)
  with False have "media_sync m p = observe_effect (p\<lparr>sc_isMobile := m, observers := []\<rparr>)"
    using assms by (simp add: media_sync_def observe_cleanup_def scroll_ok_def)
  also have "scroll_ok \<dots>"
    using assms by (subst observe_effect_eq) (simp_all add: scroll_ok_def)
  finally show ?thesis .
qed (use assms in \<open>simp add: media_sync_def\<close>)

lemma landing_mount_ok:
  assumes "scroll_ok p"
  shows "scroll_ok (landing_mount m0 m1 el ly p)"
proof (cases "sc_mounted p")
  case False
  define p1 where "p1 = attach_refs (p\<lparr>sc_mounted := True, sc_isMobile := m0, sc_elem := el, chapterRefs := [],
                activeId := ch_id (CHAPTERS ! 0)\<rparr>)"
  have p1: "p1 = p\<lparr>sc_mounted := True, sc_isMobile := m0, sc_elem := el, activeId := ch_id (CHAPTERS ! 0),
                chapterRefs := map (\<lambda>ch. (ch_id ch, el (ch_id ch))) CHAPTERS\<rparr>"
    unfolding p1_def by (subst attach_refs_eq) simp_all
  have "scroll_ok (scroll_effect ly (observe_effect (media_effect p1)))"
    using assms False
    by (subst observe_effect_eq) (simp_all add: p1 media_effect_def scroll_effect_def update_active_def scroll_ok_def)
  moreover have "sc_mounted (scroll_effect ly (observe_effect (media_effect p1)))"
    by (simp add: p1 media_effect_def scroll_effect_def update_active_def observe_effect_def)
  ultimately show ?thesis using False by (simp add: landing_mount_def p1_def media_sync_ok)
qed (use assms in \<open>simp add: landing_mount_def\<close>)

lemma landing_unmount_ok:
  assumes "scroll_ok p"
  shows "scroll_ok (landing_unmount p)"
proof (cases "sc_mounted p")
  case True
  have "detach_refs p = p\<lparr>chapterRefs := []\<rparr>" by (rule detach_refs_eq [OF scroll_ok_refs [OF assms]])
  then show ?thesis using True assms
    by (auto simp: landing_unmount_def media_cleanup_def observe_cleanup_def scroll_cleanup_def scroll_ok_def Let_def
             split: option.splits)
qed (use assms in \<open>simp add: landing_unmount_def\<close>)

lemma scroll_step_ok: "scroll_ok p \<Longrightarrow> scroll_ok (scroll_step e p)"
proof (induction e p rule: scroll_step.induct)
  case (3 p)
  then show ?case by (auto simp: onScroll_def scroll_ok_def split: if_splits option.splits)
next
  case (4 t ly p)
  then show ?case by (auto simp: scroll_frame_def update_active_def scroll_ok_def split: if_splits option.splits)
next
  case (5 m p)
  then show ?case using media_sync_ok [of p m] by (auto simp: scroll_ok_def split: if_splits)
next
  case (6 p)
  then show ?case using rerender_same [of p] by (auto simp: scroll_ok_def split: if_splits)
qed (simp_all add: landing_mount_ok landing_unmount_ok)

lemma scroll_run_ok: "scroll_ok p \<Longrightarrow> scroll_ok (scroll_run es p)"
  unfolding scroll_run_def by (induction es arbitrary: p) (simp_all add: scroll_step_ok)

lemma scroller_init_ok: "scroll_ok scroller_init"
  by (simp add: scroll_ok_def scroller_init_def)

lemma chapter_rect_cong: "chapterRefs p = chapterRefs q \<Longrightarrow> chapter_rect ly p = chapter_rect ly q"
  by (simp add: chapter_rect_def fun_eq_iff)

lemma frame_active:
  "t \<in> set (browser_frames p) \<Longrightarrow>
   activeId (scroll_frame t ly p) = activeId_of (ly_top ly) (ly_height ly) (chapter_rect ly p)"
  by (simp add: scroll_frame_def update_active_def chapter_rect_cong [of "p\<lparr>browser_frames := _, rafId := _\<rparr>" p])

lemma scroll_burst:
  assumes "scroll_ok p" "sc_mounted p"
  shows "\<exists>t. browser_frames (scroll_run (replicate (Suc n) Scrolls) p) = [t] \<and>
    (\<forall>ly. activeId (scroll_step (Frame_runs t ly) (scroll_run (replicate (Suc n) Scrolls) p))
          = activeId_of (ly_top ly) (ly_height ly) (chapter_rect ly p))"
proof -
  have stay: "scroll_run (replicate k Scrolls) q = q" if "scroll_ok q" "sc_mounted q" "rafId q \<noteq> None" for k q
    using that by (induction k) (simp_all add: scroll_run_def onScroll_def)
  have ok: "scroll_ok (scroll_step Scrolls p)" by (rule scroll_step_ok [OF assms(1)])
  have pending: "sc_mounted (scroll_step Scrolls p)" "rafId (scroll_step Scrolls p) \<noteq> None"
    using assms by (auto simp: onScroll_def scroll_ok_def)
  have run: "scroll_run (replicate (Suc n) Scrolls) p = scroll_step Scrolls p"
    using stay [OF ok pending, of n] by (simp add: scroll_run_def)
  obtain t where t: "browser_frames (scroll_step Scrolls p) = [t]"
    using ok pending by (auto simp: scroll_ok_def simp del: scroll_step.simps)
  have "chapterRefs (scroll_step Scrolls p) = chapterRefs p" by (simp add: onScroll_def)
  from chapter_rect_cong [OF this] t show ?thesis unfolding run
    using frame_active [of t "scroll_step Scrolls p"] by (simp add: onScroll_def)
qed

text \<open>
  C27: Whatever mounts, unmounts, renders, scroll events, animation frames and changes of the media
  query come, the landing page that is shown has one listener of the query, one scroll listener and
  one observer, which has the threshold of the present layout and observes every chapter's element
  once; a page that is gone has left no listener, observer or frame behind. However many scroll events
  come before the next frame, one frame is requested, and when it runs the active chapter is the one
  nearest to the probe in the layout of that moment.
\<close>

theorem landing_page_browser:
  "let p = scroll_run es scroller_init in
   if sc_mounted p then
     mediaListeners p = 1 \<and> scrollListeners p = 1 \<and>
     observers p = [\<lparr>ob_mobile = sc_isMobile p, ob_threshold = (if sc_isMobile p then 4/10 else 33/100),
                     ob_targets = map (\<lambda>ch. sc_elem p (ch_id ch)) CHAPTERS\<rparr>] \<and>
     (\<forall>n. \<exists>t. browser_frames (scroll_run (replicate (Suc n) Scrolls) p) = [t] \<and>
       (\<forall>ly. activeId (scroll_step (Frame_runs t ly) (scroll_run (replicate (Suc n) Scrolls) p))
             = activeId_of (ly_top ly) (ly_height ly) (chapter_rect ly p)))
   else mediaListeners p = 0 \<and> scrollListeners p = 0 \<and> observers p = [] \<and> browser_frames p = []"
proof -
  define p where "p = scroll_run es scroller_init"
  have ok: "scroll_ok p" unfolding p_def by (rule scroll_run_ok [OF scroller_init_ok])
  have burst: "\<exists>t. browser_frames (scroll_run (replicate (Suc n) Scrolls) p) = [t] \<and>
       (\<forall>ly. activeId (scroll_step (Frame_runs t ly) (scroll_run (replicate (Suc n) Scrolls) p))
             = activeId_of (ly_top ly) (ly_height ly) (chapter_rect ly p))" if "sc_mounted p" for n
    by (rule scroll_burst [OF ok that])
  show ?thesis using ok burst unfolding Let_def p_def [symmetric] by (auto simp: scroll_ok_def)
qed

end
