(* ===== verification/Hint_Text.thy ===== *)
theory Hint_Text
  imports Side_Panels Ui_Text
begin

text \<open>
  The texts of \<open>components/HintCard.jsx\<close>: title, legend, tips, the section on commands and the
  primer, in Chinese where the language is zh and in English otherwise; and the card as it is
  rendered.
\<close>

definition hint_lang :: "string \<Rightarrow> label \<Rightarrow> label \<Rightarrow> label" where
  "hint_lang l zh en = (if l = ''zh'' then zh else en)"

definition hint_title :: "string \<Rightarrow> label" where
  "hint_title l = hint_lang l ([29609, 27861, 25945, 31243] @ cp '' Guide'')
       (cp ''Guide'')"

definition hint_legend :: "string \<Rightarrow> (string \<times> label) list" where
  "hint_legend l =
     [(''swatchLeader'', hint_lang l (cp ''Leader '' @ [39046, 23548, 32773] @ cp '' '' @ [8212] @ cp '' '' @ [25152, 26377, 20889,
            35831, 27714, 37117, 20808, 21040, 36825, 37324])
          (cp ''Leader '' @ [8212] @ cp '' all client writes go through this node'')),
      (''swatchFollower'', hint_lang l (cp ''Follower '' @ [36319, 38543, 32773] @ cp '' '' @ [8212] @ cp '' '' @ [34987, 21160, 25509,
            25910, 24182, 22797, 21046, 26085, 24535])
          (cp ''Follower '' @ [8212] @ cp '' passively receives replicated log entries'')),
      (''swatchCandidate'', hint_lang l (cp ''Candidate '' @ [20505, 36873, 32773] @ cp '' '' @ [8212] @ cp '' '' @ [27491, 22312, 21457,
            36215, 36873, 20030])
          (cp ''Candidate '' @ [8212] @ cp '' currently campaigning for leadership'')),
      (''swatchDead'', hint_lang l (cp ''Dead '' @ [25925, 38556, 33410, 28857] @ cp '' '' @ [8212] @ cp '' '' @ [27169, 25311] @
            cp '' crash'')
          (cp ''Offline '' @ [8212] @ cp '' simulated crash state''))]"

definition hint_tips :: "string \<Rightarrow> (string \<times> label) list" where
  "hint_tips l =
     [(''1.'', hint_lang l ([28857, 20987, 20219, 24847] @ cp '' node'' @ [65292, 22312, 21491, 20391, 38754, 26495, 26597,
            30475, 29366, 24577, 21644, 26085, 24535, 12290])
          (cp ''Click any node to inspect its state and log in the right panel.'')),
      (''2.'', hint_lang l ([20351, 29992, 24213, 37096, 25511, 21046, 26639, 25191, 34892] @ cp '' submit cmd'' @ [12289] @
            cp ''kill/restart'' @ [12289] @ cp ''partition/heal'' @ [12290])
          (cp ''Use the bottom control bar to submit commands and inject failures.'')),
      (''3.'', hint_lang l ([36830, 32447, 19978, 30340] @ cp '' moving dots '' @ [26159] @ cp '' in-flight RPC'' @ [65306,
            28145, 33394, 20559, 36873, 20030, 65292, 27973, 33394, 20559, 24515, 36339, 22797, 21046, 12290])
          (cp ''Moving dots indicate in-flight RPC traffic: darker for election, '' @
            cp ''lighter for heartbeat/replication.''))]"

text \<open>Title, introduction, example commands with their effect, and the closing line around a code span.\<close>

record hint_accepts =
  ha_title :: label
  ha_intro :: label
  ha_commands :: "(string \<times> label) list"
  ha_closing :: "label \<times> string \<times> label"

definition hint_section :: "string \<Rightarrow> hint_accepts" where
  "hint_section l =
     \<lparr>ha_title = hint_lang l (cp ''submit cmd '' @ [21487, 36755, 20837, 20869, 23481])
          (cp ''What `Submit Cmd` Accepts''),
      ha_intro = hint_lang l (cp ''`submit cmd` '' @ [25509, 21463, 20219, 24847, 25991, 26412, 23383, 31526, 20018, 12290,
            21518, 31471, 19981, 20250, 35299, 26512, 19994, 21153, 35821, 20041, 65292, 21482, 25226, 23427,
            24403, 20316] @ cp '' log entry '' @ [22797, 21046, 21040, 38598, 32676, 12290])
          (cp ''`Submit Cmd` accepts arbitrary text. The backend does not execute '' @
            cp ''business logic; it only replicates the command as a Raft log entry.''),
      ha_commands =
        [(''set x=1'', hint_lang l ([22522, 30784, 20889, 20837, 31034, 20363, 65292, 35266, 23519, 26085, 24535, 20174] @
               cp '' Leader '' @ [22797, 21046, 21040] @ cp '' Followers'' @ [12290])
             (cp ''Basic write example to observe Leader-to-Follower replication.'')),
         (''set user:42 status=online'', hint_lang l ([27169, 25311, 19994, 21153, 29366, 24577, 26356, 26032, 65292, 39564, 35777, 38271, 25991,
               26412, 21629, 20196, 30340, 22797, 21046, 34892, 20026, 12290])
             (cp ''Simulates an application state update with a longer payload.'')),
         (''transfer A->B 20'', hint_lang l ([27169, 25311, 20132, 26131, 21629, 20196, 65292, 35266, 23519, 20309, 26102, 20174] @
               cp '' pending '' @ [21464] @ cp '' committed'' @ [12290])
             (cp ''Represents a transactional command; watch pending entries become '' @ cp ''committed.'')),
         (''config featureX=true'', hint_lang l ([27169, 25311, 37197, 32622, 21464, 26356, 65292, 36866, 21512, 27979, 35797, 36830, 32493,
               25552, 20132, 12290])
             (cp ''Represents a configuration update for repeated-commit testing.''))],
      ha_closing = (hint_lang l ([21629, 20196, 20250, 20986, 29616, 22312, 21491, 20391] @ cp '' '')
          (cp ''Commands appear in ''), ''log entries'', hint_lang l ([65306, 28784, 28857, 34920, 31034, 26410, 25552, 20132, 65292, 32511, 28857, 34920, 31034, 24050,
            34987, 22810, 25968, 33410, 28857, 30830, 35748, 25552, 20132, 12290])
          (cp '': gray indicates uncommitted, green indicates majority-committed.''))\<rparr>"

definition hint_primer :: "string \<Rightarrow> label \<times> (label \<times> label) list" where
  "hint_primer l =
     (hint_lang l (cp ''Raft '' @ [31639, 27861, 36895, 35272])
         (cp ''Raft Quick Primer''),
      [(hint_lang l ([35282, 33394] @ cp '' Role'' @ [65306])
           (cp ''Roles:''),
        hint_lang l ([33410, 28857, 22312] @ cp '' Follower / Candidate / Leader '' @ [19977, 24577, 20043, 38388,
             20999, 25442, 12290])
           (cp ''Nodes transition among Follower, Candidate, and Leader states.'')),
       (hint_lang l ([36873, 20027] @ cp '' Election'' @ [65306])
           (cp ''Leader Election:''),
        hint_lang l (cp ''Follower '' @ [36873, 20030, 36229, 26102, 21518, 21457, 36215, 25237, 31080, 65292, 33719,
             24471, 22810, 25968, 31080, 21363, 25104, 20026] @ cp '' Leader'' @ [12290])
           (cp ''A follower starts an election on timeout and becomes leader after '' @
             cp ''winning a majority vote.'')),
       (hint_lang l ([26085, 24535, 22797, 21046] @ cp '' Replication'' @ [65306])
           (cp ''Log Replication:''),
        hint_lang l ([23458, 25143, 31471, 21629, 20196, 20889, 20837] @ cp '' Leader'' @ [65292, 20877, 36890, 36807] @
             cp '' AppendEntries '' @ [22797, 21046, 21040, 20854, 20182, 33410, 28857, 12290])
           (cp ''Client commands are accepted by the leader and replicated via '' @ cp ''AppendEntries.'')),
       (hint_lang l ([25552, 20132] @ cp '' Commit'' @ [65306])
           (cp ''Commit Rule:''),
        hint_lang l ([26085, 24535, 34987, 22810, 25968, 33410, 28857, 30830, 35748, 21518, 25165] @ cp '' committed'' @
             [65292, 38543, 21518, 21487, 23545, 22806, 21487, 35265, 12290])
           (cp ''An entry is committed only after majority replication and then '' @
             cp ''becomes externally visible.'')),
       (hint_lang l ([23481, 38169] @ cp '' Fault Tolerance'' @ [65306])
           (cp ''Fault Tolerance:''),
        hint_lang l (cp ''5 '' @ [33410, 28857, 38598, 32676, 21487, 23481, 24525, 26368, 22810] @ cp '' 2 '' @ [20010,
             33410, 28857, 22833, 25928, 65292, 20173, 21487, 32500, 25345, 20849, 35782, 12290])
           (cp ''A 5-node cluster tolerates up to 2 node failures while preserving '' @ cp ''consensus.''))])"


text \<open>The card, when it is not dismissed.\<close>

definition HintCard :: "hint \<Rightarrow> string \<Rightarrow>
    (label \<times> (string \<times> label) list \<times> (string \<times> label) list \<times> hint_accepts \<times> label \<times> (label \<times> label) list) option" where
  "HintCard h l =
     (if dismissed h then None
      else Some (hint_title l, hint_legend l, hint_tips l, hint_section l, hint_primer l))"

text \<open>The card is rendered exactly when the stored preference does not hide it.\<close>

lemma HintCard_shown: "(HintCard (hint_run es (hint_mount key sel)) l = None) = (hint_key (hint_run es (hint_mount key sel)) = Some ''true'')"
proof -
  have "hint_ok (hint_run es (hint_mount key sel))" by (rule hints.reach_inv [OF hint_run_reach])
  then show ?thesis by (simp add: HintCard_def hint_ok_def)
qed

end
