(* ===== verification/Markup.thy ===== *)
theory Markup
  imports App_Shell Hint_Text Landing_Scroll Raft_WS
begin

text \<open>
  Element trees, as JSX makes them, and the state of the whole page that the handlers in them act on.
  A class of a style module is written by its own name. A handler takes what it reads of the event
  and the state of the page; a component's props that are functions are handlers of its parent.
\<close>

section \<open>Trees\<close>

datatype 'h markup =
    Txt label
  | El string string "(string \<times> label) list" "(string \<times> 'h) list" "'h markup list"

fun tag_of :: "'h markup \<Rightarrow> string" where
  "tag_of (Txt t) = []"
| "tag_of (El tag cls attrs ons kids) = tag"

fun class_of :: "'h markup \<Rightarrow> string" where
  "class_of (Txt t) = []"
| "class_of (El tag cls attrs ons kids) = cls"

fun attr :: "string \<Rightarrow> 'h markup \<Rightarrow> label option" where
  "attr a (Txt t) = None"
| "attr a (El tag cls attrs ons kids) = map_of attrs a"

fun handlers :: "'h markup \<Rightarrow> (string \<times> 'h) list" where
  "handlers (Txt t) = []"
| "handlers (El tag cls attrs ons kids) = ons"

text \<open>All nodes of a tree in document order, and the text it shows.\<close>

fun nodes_of :: "'h markup \<Rightarrow> 'h markup list" where
  "nodes_of (Txt t) = [Txt t]"
| "nodes_of (El tag cls attrs ons kids) = El tag cls attrs ons kids # concat (map nodes_of kids)"

definition all_nodes :: "'h markup list \<Rightarrow> 'h markup list" where
  "all_nodes ms = concat (map nodes_of ms)"

fun text_of :: "'h markup \<Rightarrow> label" where
  "text_of (Txt t) = t"
| "text_of (El tag cls attrs ons kids) = concat (map text_of kids)"

definition buttons :: "'h markup list \<Rightarrow> 'h markup list" where
  "buttons ms = filter (\<lambda>m. tag_of m = ''button'') (all_nodes ms)"

text \<open>The name of a button for assistive technology: its label, or its text.\<close>

definition accessible_name :: "'h markup \<Rightarrow> label" where
  "accessible_name m = (case attr ''aria-label'' m of Some a \<Rightarrow> a | None \<Rightarrow> text_of m)"

definition disabled :: "'h markup \<Rightarrow> bool" where
  "disabled m \<longleftrightarrow> attr ''disabled'' m = Some (cp ''true'')"

text \<open>JSX: \<open>{b && x}\<close>, a boolean attribute, two classes in a template string, and a joined class list.\<close>

definition shown_if :: "bool \<Rightarrow> 'a list \<Rightarrow> 'a list" where
  "shown_if b xs = (if b then xs else [])"

definition bool_attr :: "bool \<Rightarrow> label" where
  "bool_attr b = (if b then cp ''true'' else cp ''false'')"

definition cls2 :: "string \<Rightarrow> string \<Rightarrow> string" where
  "cls2 a b = a @ '' '' @ b"

fun join_with :: "string \<Rightarrow> string list \<Rightarrow> string" where
  "join_with sep [] = []"
| "join_with sep [x] = x"
| "join_with sep (x # y # xs) = x @ sep @ join_with sep (y # xs)"

abbreviation Div :: "string \<Rightarrow> 'h markup list \<Rightarrow> 'h markup" where
  "Div c ks \<equiv> El ''div'' c [] [] ks"

abbreviation Span :: "string \<Rightarrow> 'h markup list \<Rightarrow> 'h markup" where
  "Span c ks \<equiv> El ''span'' c [] [] ks"

section \<open>The page\<close>

text \<open>
  The state of all components and what they have asked of the browser: \<open>pg_hook\<close> is the WebSocket
  hook, \<open>pg_cmd\<close> the text of the command bar of \<open>LogPanel\<close>, \<open>pg_hovered\<close> the edges under the
  mouse, \<open>pg_narrow\<close> what the media query says, \<open>pg_scrolled\<close> the elements scrolled into view.
  The one store is the panel's and the hook's: whoever writes it, the other is given it.
\<close>

record page =
  pg_app :: app
  pg_panel :: panel
  pg_hook :: hook
  pg_drawer :: drawer
  pg_hint :: hint
  pg_landing :: landing
  pg_scroller :: scroller
  pg_cmd :: string
  pg_hovered :: "string list"
  pg_narrow :: bool
  pg_scrolled :: "nat list"

datatype event_arg = No_arg | Value string | Touched "rat option" rat

type_synonym handler = "event_arg \<Rightarrow> page \<Rightarrow> page"

abbreviation pg_store :: "page \<Rightarrow> store" where
  "pg_store g \<equiv> pn_store (pg_panel g)"

abbreviation pg_lang :: "page \<Rightarrow> string" where
  "pg_lang g \<equiv> lang_str (lang (pg_store g))"

text \<open>A call of the store's \<open>sendFault\<close> is the hook's: what a component adds to its outbox, the hook sends.\<close>

definition send_new :: "fault list \<Rightarrow> hook \<Rightarrow> hook" where
  "send_new fs h = fold (\<lambda>f. sendFault (f_action f) (Some (f_targets f)) (Some (f_groups f)) (Some (f_command f))) fs h"

definition with_panel :: "panel \<Rightarrow> page \<Rightarrow> page" where
  "with_panel p g =
     g\<lparr>pg_panel := p,
       pg_hook := (send_new (drop (length (outbox (pg_panel g))) (outbox p)) (pg_hook g))\<lparr>h_store := pn_store p\<rparr>\<rparr>"

definition with_hook :: "hook \<Rightarrow> page \<Rightarrow> page" where
  "with_hook h g = g\<lparr>pg_hook := h, pg_panel := (pg_panel g)\<lparr>pn_store := h_store h\<rparr>\<rparr>"

definition on_panel :: "(panel \<Rightarrow> panel) \<Rightarrow> handler" where
  "on_panel f a g = with_panel (f (pg_panel g)) g"

definition on_store :: "(store \<Rightarrow> store) \<Rightarrow> handler" where
  "on_store f = on_panel (upd_store f)"

text \<open>\<open>handleFastTap\<close> of four components: the default action is prevented, the action runs.\<close>

definition handleFastTap :: "(page \<Rightarrow> page) \<Rightarrow> handler" where
  "handleFastTap action a g = action g"

definition handleFastTap_panel :: "(panel \<Rightarrow> panel) \<Rightarrow> handler" where
  "handleFastTap_panel action = handleFastTap (on_panel action No_arg)"

section \<open>Collections of a tree\<close>

lemma all_nodes_simps [simp]:
  "all_nodes [] = []" "all_nodes (m # ms) = nodes_of m @ all_nodes ms" "all_nodes (ms @ ns) = all_nodes ms @ all_nodes ns"
  by (simp_all add: all_nodes_def)

lemma buttons_simps [simp]:
  "buttons [] = []" "buttons (ms @ ns) = buttons ms @ buttons ns"
  "buttons (Txt t # ms) = buttons ms"
  "buttons (El tag cls attrs ons kids # ms) =
     (if tag = ''button'' then [El tag cls attrs ons kids] else []) @ buttons kids @ buttons ms"
  by (auto simp: buttons_def all_nodes_def)

lemma buttons_concat: "buttons (concat mss) = concat (map buttons mss)"
  by (induction mss) simp_all

lemma buttons_map: "buttons (map f xs) = concat (map (\<lambda>x. buttons [f x]) xs)"
proof (induction xs)
  case (Cons x xs)
  have "buttons (f x # map f xs) = buttons [f x] @ buttons (map f xs)"
    using buttons_simps(2) [of "[f x]" "map f xs"] by simp
  with Cons show ?case by simp
qed simp

lemma buttons_shown_if [simp]: "buttons (shown_if b ms) = shown_if b (buttons ms)"
  by (simp add: shown_if_def)

end
