(* ===== verification/Markup_Views.thy ===== *)
theory Markup_Views
  imports Markup
begin

text \<open>
  The trees of the components that show the cluster: \<open>NodeCard.jsx\<close>, \<open>LogPanel.jsx\<close>,
  \<open>EventStream.jsx\<close>, \<open>HintCard.jsx\<close> and \<open>ClusterView.jsx\<close> with its animated edges.
\<close>

section \<open>NodeCard.jsx\<close>

definition hiddenHandleStyle :: "(string \<times> label) list" where
  "hiddenHandleStyle = [(''style.opacity'', cp ''0''), (''style.pointerEvents'', cp ''none'')]"

definition Handle :: "string \<Rightarrow> string \<Rightarrow> handler markup" where
  "Handle type position = El ''Handle'' [] ([(''type'', cp type), (''position'', cp position)] @ hiddenHandleStyle) [] []"

definition NodeCard :: "view_node option \<Rightarrow> store \<Rightarrow> handler markup list" where
  "NodeCard data s =
     (case data of
        None \<Rightarrow> []
      | Some node \<Rightarrow>
          [Handle ''target'' ''top'', Handle ''target'' ''bottom'', Handle ''target'' ''left'', Handle ''target'' ''right'',
           Handle ''source'' ''top'', Handle ''source'' ''bottom'', Handle ''source'' ''left'', Handle ''source'' ''right'',
           El ''div'' (join_with '' '' (card_classes node s)) [(''key'', cp (card_key node))] []
             [Span ''nodeId'' [Txt (cp (int_str (n_id node)))],
              Span ''nodeMeta'' [Txt (card_meta node (lang_str (lang s)))]]])"

section \<open>LogPanel.jsx\<close>

definition stat_cell :: "label \<Rightarrow> string \<Rightarrow> label \<Rightarrow> handler markup" where
  "stat_cell name cls value = Div ''statCell'' [Span ''statLabel'' [Txt name], Span cls [Txt value]]"

definition NodeStats_tree :: "view_node option \<Rightarrow> string \<Rightarrow> handler markup list" where
  "NodeStats_tree node l =
     (let t = logCopy l
      in [Div ''sectionTitle'' [Txt (lc_nodeStats t)],
          (case node of
             Some n \<Rightarrow> Div ''statGrid''
               [stat_cell (lc_role t) (cls2 ''statValue'' (stat_class (n_role n) (n_alive n)))
                  (if n_alive n then roleLabel (n_role n) l else deadLabel l),
                stat_cell (lc_term t) ''statValue'' (cp (int_str (n_term n))),
                stat_cell (lc_commit t) ''statValue'' (cp (int_str (n_commitIndex n))),
                stat_cell (lc_votedFor t) ''statValue'' (voted_text (formatVotedFor n))]
           | None \<Rightarrow> Div ''placeholder'' [Txt (lc_clickNode t)])])"

text \<open>The prop \<open>commandInput\<close>: its fields may be missing.\<close>

record command_input =
  ci_placeholder :: "label option"
  ci_sendLabel :: "label option"
  ci_onSubmit :: "(string \<Rightarrow> page \<Rightarrow> page) option"

definition hasCommandInput :: "command_input option \<Rightarrow> bool" where
  "hasCommandInput ci = (case ci of None \<Rightarrow> False | Some c \<Rightarrow> ci_onSubmit c \<noteq> None)"

definition log_submit :: "command_input option \<Rightarrow> handler" where
  "log_submit ci a g =
     (case submitCommand (hasCommandInput ci) (pg_cmd g) of
        (text', None) \<Rightarrow> g\<lparr>pg_cmd := text'\<rparr>
      | (text', Some command) \<Rightarrow>
          (case ci of None \<Rightarrow> g | Some c \<Rightarrow> (case ci_onSubmit c of None \<Rightarrow> g | Some f \<Rightarrow> (f command g)\<lparr>pg_cmd := text'\<rparr>)))"

definition setCmdText :: handler where
  "setCmdText a g = (case a of Value v \<Rightarrow> g\<lparr>pg_cmd := v\<rparr> | _ \<Rightarrow> g)"

definition command_bar :: "command_input option \<Rightarrow> string \<Rightarrow> handler markup list" where
  "command_bar ci text' =
     (case ci of
        None \<Rightarrow> []
      | Some c \<Rightarrow> shown_if (hasCommandInput ci)
          [El ''form'' ''commandBar'' [] [(''onSubmit'', log_submit ci)]
             [El ''input'' ''commandInput''
                [(''value'', cp text'),
                 (''placeholder'', case ci_placeholder c of None \<Rightarrow> cp ''type a command...'' | Some p \<Rightarrow> p)]
                [(''onChange'', setCmdText)] [],
              El ''button'' ''commandSend'' [(''type'', cp ''submit''), (''disabled'', bool_attr (js_trim text' = []))] []
                [Txt (case ci_sendLabel c of None \<Rightarrow> cp ''send'' | Some x \<Rightarrow> x)]]])"

definition log_row :: "int \<times> bool \<times> int \<times> string \<Rightarrow> handler markup" where
  "log_row r =
     (case r of (index, committed, trm, command) \<Rightarrow>
        El ''div'' ''logEntry'' [(''key'', cp (int_str index))] []
          [Div (cls2 ''dot'' (if committed then ''dotCommitted'' else ''dotPending'')) [],
           Span ''logIndex'' [Txt (cp (int_str index))],
           Span ''logTerm'' [Txt (cp ''t''), Txt (cp (int_str trm))],
           Span ''logCommand'' [Txt (cp command)]])"

definition LogEntries :: "view_node option \<Rightarrow> string \<Rightarrow> command_input option \<Rightarrow> string \<Rightarrow> handler markup list" where
  "LogEntries node l ci text' =
     (let t = logCopy l
      in [Div ''section''
           (Div ''sectionTitle'' [Txt (lc_logEntries t)] # command_bar ci text' @
            [case log_entries node of
               No_node \<Rightarrow> Div ''empty'' [Txt [8212]]
             | No_entries \<Rightarrow> Div (cls2 ''empty'' ''emptyLog'') [Txt (lc_noEntries t)]
             | Rows rows \<Rightarrow> Div ''logList'' (map log_row rows)])])"

definition LogPanel :: "command_input option \<Rightarrow> string \<Rightarrow> page \<Rightarrow> handler markup list" where
  "LogPanel ci className g =
     [Div (join_with '' '' (filter (\<lambda>c. c \<noteq> []) [''panel'', className]))
        (NodeStats_tree (panel_node (pg_store g)) (pg_lang g) @
         LogEntries (panel_node (pg_store g)) (pg_lang g) ci (pg_cmd g))]"

section \<open>EventStream.jsx\<close>

definition stream_row :: "event \<Rightarrow> handler markup" where
  "stream_row ev =
     (let sl = event_line ev
      in El ''div'' (cls2 ''event'' (sl_class sl)) [(''key'', cp (nat_str (sl_key sl)))] []
          [Span ''time'' [Txt (cp ''[''), Txt (cp (sl_time sl)), Txt (cp '']'')],
           Span ''route'' [Txt (cp ''[node''), Txt (cp (int_str (fst (sl_route sl)))), Txt (cp '' '' @ [8594] @ cp '' node''),
                           Txt (cp (int_str (snd (sl_route sl)))), Txt (cp '']'')],
           Span ''type'' [Txt (cp ''[''), Txt (cp (sl_type sl)), Txt (cp '']'')],
           Span ''term'' [Txt (cp ''[t''), Txt (cp (int_str (sl_term sl))), Txt (cp '']'')]])"

definition EventStream :: "bool \<Rightarrow> store \<Rightarrow> handler markup list" where
  "EventStream fill s =
     (let t = eventCopy (lang_str (lang s))
      in [Div (cls2 ''stream'' (if fill then ''fill'' else []))
           [Div ''title'' [Txt (ec_title t)],
            if length (eventLogs s) = 0 then Div ''empty'' [Txt (ec_empty t)]
            else Div ''list'' (map stream_row (eventLogs s))]])"

section \<open>HintCard.jsx\<close>

definition on_hint :: "(hint \<Rightarrow> hint) \<Rightarrow> handler" where
  "on_hint f a g = g\<lparr>pg_hint := f (pg_hint g)\<rparr>"

definition HintCard_tree :: "page \<Rightarrow> handler markup list" where
  "HintCard_tree g =
     (let l = pg_lang g; sec = hint_section l; primer = hint_primer l
      in if dismissed (pg_hint g) then []
         else
          [Div ''card''
            [Div ''header''
              [Span ''title'' [Txt (hint_title l)],
               El ''button'' ''close'' [(''aria-label'', if l = ''zh'' then [20851, 38381] @ cp '' close'' else cp ''dismiss'')]
                 [(''onClick'', on_hint hint_dismiss)] [Txt [215]]],
             Div ''legend''
              (map (\<lambda>(c, t). Div ''legendRow'' [Div (cls2 ''swatch'' c) [], Txt t]) (hint_legend l)),
             Div ''tips'' (map (\<lambda>(k, t). Div ''tip'' [Span ''tipKey'' [Txt (cp k)], Txt t]) (hint_tips l)),
             Div ''section''
              [Div ''sectionTitle'' [Txt (ha_title sec)],
               Div ''line'' [Txt (ha_intro sec)],
               Div ''cmdList''
                 (map (\<lambda>(c, t). Div ''cmdRow'' [El ''code'' [] [] [] [Txt (cp c)], Span [] [Txt t]]) (ha_commands sec)),
               Div ''line'' (case ha_closing sec of (a, c, b) \<Rightarrow> [Txt a, El ''code'' [] [] [] [Txt (cp c)], Txt b])],
             Div ''section''
              [Div ''sectionTitle'' [Txt (fst primer)],
               Div ''raftList'' (map (\<lambda>(b, t). Div [] [El ''strong'' [] [] [] [Txt b], Txt t]) (snd primer))]]])"

section \<open>ClusterView.jsx\<close>

definition MSG_COLORS :: "(string \<times> string) list" where
  "MSG_COLORS =
     [(''RequestVote'', ''#253745''), (''RequestVoteReply'', ''#4A5C6A''),
      (''AppendEntries'', ''#9BA8AB''), (''AppendEntriesReply'', ''#C2C8C7'')]"

definition MSG_DURATION :: "(string \<times> string) list" where
  "MSG_DURATION = [(''AppendEntries'', ''2.1s'')]"

definition lookup_or :: "(string \<times> string) list \<Rightarrow> string \<Rightarrow> string \<Rightarrow> string" where
  "lookup_or m k d = (case map_of m k of None \<Rightarrow> d | Some v \<Rightarrow> v)"

definition hover :: "bool \<Rightarrow> string \<Rightarrow> handler" where
  "hover b i a g = g\<lparr>pg_hovered := (if b then List.insert i (pg_hovered g) else filter (\<lambda>j. j \<noteq> i) (pg_hovered g))\<rparr>"

text \<open>
  \<open>edgePath\<close> is the path that React Flow's \<open>getBezierPath\<close> computes for the edge. At most one
  message is drawn (\<open>slice(-1)\<close>), so its position \<open>i\<close> is 0.
\<close>

definition AnimatedEdge :: "(flow_edge \<Rightarrow> label) \<Rightarrow> flow_edge \<Rightarrow> page \<Rightarrow> handler markup list" where
  "AnimatedEdge edgePath e g =
     (let stroke = cp (if ed_id e \<in> set (pg_hovered g) then ''#9BA8AB'' else ''#C2C8C7'');
          markerId = ''arrow-'' @ ed_id e;
          from' = int_str (js_number (ed_source e)); to' = int_str (js_number (ed_target e))
      in [El ''defs'' [] [] []
            [El ''marker'' [] [(''id'', cp markerId), (''markerWidth'', cp ''10''), (''markerHeight'', cp ''7''),
                               (''refX'', cp ''8.2''), (''refY'', cp ''3.5''), (''orient'', cp ''auto'')] []
               [El ''path'' [] [(''d'', cp ''M0,0 L10,3.5 L0,7 z''), (''fill'', stroke)] [] []]],
          El ''path'' [] [(''id'', cp (ed_id e)), (''d'', edgePath e), (''fill'', cp ''none''), (''stroke'', stroke),
                          (''strokeWidth'', cp ''1.5''), (''markerEnd'', cp (''url(#'' @ markerId @ '')''))]
            [(''onMouseEnter'', hover True (ed_id e)), (''onMouseLeave'', hover False (ed_id e))] []] @
         map (\<lambda>msg. El ''circle'' []
                [(''key'', cp (from' @ ''-'' @ to' @ ''-'' @ m_type msg @ ''-0'')), (''r'', cp ''3.5''),
                 (''fill'', cp (lookup_or MSG_COLORS (m_type msg) ''#9BA8AB''))] []
                [El ''animateMotion'' []
                   [(''dur'', cp (lookup_or MSG_DURATION (m_type msg) ''1.8s'')), (''begin'', cp ''0s''),
                    (''fill'', cp ''freeze''), (''path'', edgePath e), (''rotate'', cp ''auto'')] [] []])
             (edge_messages (inFlight (pg_store g)) e))"

text \<open>
  The canvas: React Flow is a library component; the elements of its props \<open>nodes\<close> and \<open>edges\<close>
  are its first children, each rendered by the component registered for its type. \<open>onNodeSelected\<close>
  and \<open>onPaneTap\<close> are the props, which may be null.
\<close>

definition canvas_node_click :: "(page \<Rightarrow> page) option \<Rightarrow> handler" where
  "canvas_node_click selected a g =
     (case a of
        Value i \<Rightarrow>
          (case find (\<lambda>n. n_id n = js_number i) (nodes (pg_store g)) of
             None \<Rightarrow> g
           | Some node \<Rightarrow>
               (case handleActionClick node (pg_panel g) of
                  (True, p) \<Rightarrow> with_panel p g
                | (False, p) \<Rightarrow>
                    let g1 = with_panel (upd_store (selectNode (Some (js_number i))) p) g
                    in (case selected of None \<Rightarrow> g1 | Some f \<Rightarrow> f g1)))
      | _ \<Rightarrow> g)"

definition canvas_pane_click :: "(page \<Rightarrow> page) option \<Rightarrow> handler" where
  "canvas_pane_click tapped a g =
     (let g1 = (case tapped of None \<Rightarrow> g | Some f \<Rightarrow> f g)
      in with_panel (onPaneClick (pg_panel g1)) g1)"

definition flow_props :: "(string \<times> label) list" where
  "flow_props =
     [(''nodesDraggable'', bool_attr False), (''nodesConnectable'', bool_attr False), (''panOnDrag'', bool_attr True),
      (''zoomOnScroll'', bool_attr True), (''minZoom'', cp ''0.4''), (''maxZoom'', cp ''2''),
      (''proOptions.hideAttribution'', bool_attr True)]"

definition ClusterView :: "(flow_edge \<Rightarrow> label) \<Rightarrow> (page \<Rightarrow> page) option \<Rightarrow> (page \<Rightarrow> page) option \<Rightarrow> nat \<Rightarrow> page \<Rightarrow> handler markup list" where
  "ClusterView edgePath selected tapped fitSignal g =
     (let s = pg_store g
      in [Div ''canvas''
           (HintCard_tree g @
            [El ''ReactFlow'' [] flow_props
               [(''onNodeClick'', canvas_node_click selected), (''onPaneClick'', canvas_pane_click tapped)]
               (map (\<lambda>n. El ''raftNode'' [] [(''key'', cp (int_str (n_id n)))] [] (NodeCard (Some n) s)) (nodes s) @
                map (\<lambda>e. El ''animated'' [] [(''key'', cp (ed_id e))] [] (AnimatedEdge edgePath e g)) (flowEdges (nodes s)) @
                [El ''FitViewOnLoad'' [] [(''nodeCount'', cp (nat_str (length (nodes s))))] [] [],
                 El ''FitViewOnSignal'' [] [(''signal'', cp (nat_str fitSignal))] [] []])])])"

end
