(* ===== verification/Markup_App.thy ===== *)
theory Markup_App
  imports Markup_Views
begin

text \<open>
  The trees of the components that act: \<open>ControlPanel.jsx\<close>, \<open>MobileFab.jsx\<close>,
  \<open>MobileDrawer.jsx\<close>, \<open>IntroLanding.jsx\<close> and \<open>App.jsx\<close>, which composes all others.
\<close>

section \<open>The tutorial (ControlPanel.jsx and MobileDrawer.jsx)\<close>

definition tutorial_item_tree :: "nat \<Rightarrow> tutorial_item \<Rightarrow> handler markup" where
  "tutorial_item_tree idx item =
     (case item of
        Command_item c d \<Rightarrow> El ''div'' ''tutorialItem'' [(''key'', c @ cp (''-'' @ nat_str idx))] []
          [El ''code'' ''tutorialCmd'' [] [] [Txt c], Span ''tutorialDetail'' [Txt d]]
      | Step_item k line \<Rightarrow> El ''div'' ''tutorialItem'' [(''key'', line @ cp (''-'' @ nat_str idx))] []
          [Span ''tutorialStepNo'' [Txt (cp (nat_str k)), Txt (cp ''.'')], Span ''tutorialDetail'' [Txt line]]
      | Line_item line \<Rightarrow> El ''div'' ''tutorialItem'' [(''key'', line @ cp (''-'' @ nat_str idx))] []
          [Span ''tutorialDetail'' [Txt line]])"

definition tutorial_section :: "label \<times> tutorial_item list \<Rightarrow> handler markup" where
  "tutorial_section sec =
     Div ''tutorialSection''
       [Div ''tutorialSectionTitle'' [Txt (fst sec)],
        Div ''tutorialList'' (map2 tutorial_item_tree [0..<length (snd sec)] (snd sec))]"

definition MobileTutorial :: "control_copy \<Rightarrow> handler markup list" where
  "MobileTutorial t =
     (let tu = mobile_tutorial t
      in [Div ''tutorialView''
           ([Div ''tutorialTitle'' [Txt (tu_title tu)], El ''p'' ''tutorialIntro'' [] [] [Txt (tu_intro tu)]] @
            map tutorial_section (tu_sections tu))])"

section \<open>ControlPanel.jsx\<close>

definition setTutorialOpen :: "bool \<Rightarrow> panel \<Rightarrow> panel" where
  "setTutorialOpen b p = p\<lparr>tutorialOpen := b\<rparr>"

definition setBarText :: handler where
  "setBarText a = (case a of Value v \<Rightarrow> on_panel (\<lambda>p. p\<lparr>cmdText := v\<rparr>) a | _ \<Rightarrow> on_panel (\<lambda>p. p) a)"

definition ids_or_dash :: "int list \<Rightarrow> label" where
  "ids_or_dash is = (if is = [] then [8212] else cp (join_with '', '' (map int_str is)))"

definition bar_panel_tree :: "panel \<Rightarrow> bar_panel \<Rightarrow> handler markup" where
  "bar_panel_tree p b =
     (let t = controlCopy (lang_str (lang (pn_store p))) in
      case b of
        TutorialPanel \<Rightarrow>
          (let tu = bar_tutorial t
           in Div ''tutorialPanel''
               ([Div ''tutorialHeader''
                  [Div ''tutorialTitle'' [Txt (tu_title tu)],
                   El ''button'' ''pickerCancel'' [] [(''onClick'', on_panel (setTutorialOpen False))] [Txt (cc_tutorialClose t)]],
                 El ''p'' ''tutorialIntro'' [] [] [Txt (tu_intro tu)]] @
                map tutorial_section (tu_sections tu)))
      | CommandPanel text' blank \<Rightarrow>
          Div ''inlinePanel''
            [Div ''inlineTitle'' [Txt (cc_submitToLeader t)],
             El ''form'' ''inputRow'' [] [(''onSubmit'', on_panel submitCmd)]
               [El ''input'' ''cmdInput'' [(''placeholder'', cc_cmdPlaceholder t), (''value'', cp text')] [(''onChange'', setBarText)] [],
                El ''button'' ''pickerConfirm'' [(''type'', cp ''submit''), (''disabled'', bool_attr blank)] [] [Txt (cc_send t)]]]
      | SelectPanel a n blocked \<Rightarrow>
          Div ''inlinePanel''
            [Div ''inlineTitle'' [Txt (cc_partitionStepA t)],
             Div ''inlineHint'' [Txt (cc_partitionChooseHint t)],
             Div ''inlinePreview''
               [Txt (cc_partitionPreviewA t), Txt (cp '': ''), Txt (cp (nat_str a)), Txt (cp '' / ''), Txt (cp (nat_str n))],
             Div ''pickerActions''
               [El ''button'' ''pickerCancel'' [] [(''onClick'', on_panel closeAction)] [Txt (cc_cancel t)],
                El ''button'' ''pickerConfirm'' [(''disabled'', bool_attr blocked)] [(''onClick'', on_panel confirmPartitionA)]
                  [Txt (cc_confirmGroupA t)]]]
      | ConfirmPanel a b \<Rightarrow>
          Div ''inlinePanel''
            [Div ''inlineTitle'' [Txt (cc_partitionStepB t)],
             Div ''groupLine'' [Span ''groupLabel'' [Txt (cc_partitionPreviewA t)], Span ''groupVal'' [Txt (ids_or_dash a)]],
             Div ''groupLine'' [Span ''groupLabel'' [Txt (cc_partitionPreviewB t)], Span ''groupVal'' [Txt (ids_or_dash b)]],
             Div ''pickerActions''
               [El ''button'' ''pickerCancel'' [] [(''onClick'', on_panel closeAction)] [Txt (cc_cancel t)],
                El ''button'' ''pickerConfirm'' [] [(''onClick'', on_panel sendPartition)] [Txt (cc_confirmPartition t)]]]
      | TargetPanel m \<Rightarrow>
          Div ''inlinePanel''
            [Div ''inlineTitle''
               [Txt (if m = MKill then cc_killSelecting t else if m = MRestart then cc_restartSelecting t else cc_healSelecting t)],
             Div ''inlineHint'' [Txt (cc_escHint t)]])"

definition bar_btn :: "string \<Rightarrow> (panel \<Rightarrow> panel) \<Rightarrow> label \<Rightarrow> handler markup" where
  "bar_btn cls f t = El ''button'' cls [] [(''onClick'', on_panel f)] [Txt t]"

definition ControlPanel :: "page \<Rightarrow> handler markup list" where
  "ControlPanel g =
     (let p = pg_panel g; am = actionMode (pn_store p); t = controlCopy (pg_lang g)
      in [Div ''bar''
           (map (bar_panel_tree p) (bar_panels p) @
            [bar_btn (cls2 ''btn'' (if am = Some MCmd then ''btnActive'' else [])) (startAction MCmd) (cc_submitCmd t),
             bar_btn (cls2 ''btn'' (if tutorialOpen p then ''btnActive'' else [])) toggleTutorial (cc_tutorial t),
             Div ''divider'' [],
             bar_btn (cls2 (cls2 ''btn'' ''btnKill'') (if am = Some MKill then ''btnActiveDanger'' else [])) (startAction MKill)
               (if am = Some MKill then cc_killSelecting t else cc_killNode t),
             bar_btn (cls2 ''btn'' (if am = Some MRestart then ''btnActive'' else [])) (startAction MRestart) (cc_restart t),
             Div ''divider'' [],
             bar_btn (cls2 ''btn'' (if am = Some MPartitionSelect \<or> am = Some MPartitionConfirm then ''btnActive'' else []))
               (startAction MPartitionSelect) (cc_partition t),
             bar_btn (cls2 ''btn'' (if am = Some MHeal then ''btnActive'' else [])) handleHealClick (cc_heal t)] @
            shown_if (showEscHint p) [Div ''escHint'' [Txt (cc_escHint t)]])])"

section \<open>MobileFab.jsx\<close>

definition fab_panel_tree :: "fab_panel \<Rightarrow> handler markup list" where
  "fab_panel_tree f =
     (let cancel = El ''button'' ''modeBtn'' [] [(''onPointerDown'', handleFastTap_panel (upd_store cancelAction))] [Txt (cp ''Cancel'')] in
      case f of
        FabHint \<Rightarrow> [Div ''modeText'' [Txt (cp ''Tap a highlighted node on canvas '' @ [183] @ cp '' ESC cancel'')]]
      | FabSelect a n blocked \<Rightarrow>
          [Div ''modeText'' [Txt (cp ''Step 1/2 '' @ [183] @ cp '' Select Group A'')],
           Div ''modeSubText'' [Txt (cp (''Group A '' @ nat_str a @ ''/'' @ nat_str n))],
           Div ''modeActions''
             [cancel,
              El ''button'' (cls2 ''modeBtn'' ''modeBtnPrimary'') [(''disabled'', bool_attr blocked)]
                [(''onPointerDown'', handleFastTap_panel confirmGroupA)] [Txt (cp ''Confirm'')]]]
      | FabConfirm a b \<Rightarrow>
          [Div ''modeText'' [Txt (cp ''Step 2/2 '' @ [183] @ cp '' Confirm partition'')],
           Div ''modeSubText'' [Txt (cp ''A: '' @ ids_or_dash a @ cp '' | B: '' @ ids_or_dash b)],
           Div ''modeActions''
             [cancel,
              El ''button'' (cls2 ''modeBtn'' ''modeBtnPrimary'') []
                [(''onPointerDown'', handleFastTap_panel commitPartition)] [Txt (cp ''Partition'')]]])"

definition fab_button :: "nat \<times> string list \<times> string \<Rightarrow> handler markup" where
  "fab_button b =
     (case b of (idx, cls, lab) \<Rightarrow>
        El ''button'' (join_with '' '' cls) [(''key'', cp (fst (fab_actions ! idx))), (''style.--i'', cp (nat_str idx))]
          [(''onPointerDown'', handleFastTap_panel (fab_press idx))] [Txt (cp lab)])"

definition MobileFab :: "page \<Rightarrow> handler markup list" where
  "MobileFab g =
     (let p = pg_panel g
      in [Div ''wrap''
           (shown_if (actionMode (pn_store p) \<noteq> None) [Div ''modePanel'' (concat (map fab_panel_tree (fab_panels p)))] @
            [Div ''stack'' (map fab_button (fab_stack p)),
             El ''button'' (cls2 ''mainBtn'' (if fabOpen p then ''mainBtnOpen'' else []))
               [(''aria-label'', cp ''Toggle actions'')] [(''onPointerDown'', handleFastTap_panel toggleFab)] [Txt (cp ''+'')]])])"

section \<open>MobileDrawer.jsx\<close>

text \<open>
  The prop \<open>mode\<close> is the shell's \<open>drawerMode\<close>, and \<open>onModeChange\<close> sets it: an operation of the
  drawer reads the one and reports the other.
\<close>

definition on_drawer :: "(event_arg \<Rightarrow> drawer \<Rightarrow> drawer) \<Rightarrow> handler" where
  "on_drawer f a g =
     (let d = f a ((pg_drawer g)\<lparr>dmode := drawerMode (pg_app g)\<rparr>)
      in g\<lparr>pg_drawer := d, pg_app := app_step (Drawer_moved (dmode d)) (pg_app g)\<rparr>)"

definition touch_start :: "event_arg \<Rightarrow> drawer \<Rightarrow> drawer" where
  "touch_start a d = (case a of Touched y rectTop \<Rightarrow> onTouchStart y rectTop d | _ \<Rightarrow> d)"

definition touch_move :: "event_arg \<Rightarrow> drawer \<Rightarrow> drawer" where
  "touch_move a d = (case a of Touched y rectTop \<Rightarrow> onTouchMove y d | _ \<Rightarrow> d)"

definition choose_tab :: "drawer_tab \<Rightarrow> page \<Rightarrow> page" where
  "choose_tab tab g = g\<lparr>pg_app := app_step (Tab_chosen tab) (pg_app g)\<rparr>"

text \<open>A height in pixels; the model's heights are rational, \<open>px\<close> prints them.\<close>

definition tab_btn :: "drawer_tab \<times> label \<times> bool \<Rightarrow> handler markup" where
  "tab_btn b =
     (case b of (tab, t, active) \<Rightarrow>
        El ''button'' (cls2 ''tabBtn'' (if active then ''tabBtnActive'' else [])) []
          [(''onPointerDown'', handleFastTap (choose_tab tab))] [Txt t])"

definition MobileDrawer :: "(rat \<Rightarrow> label) \<Rightarrow> (string \<Rightarrow> page \<Rightarrow> page) \<Rightarrow> page \<Rightarrow> handler markup list" where
  "MobileDrawer px onSubmitCommand g =
     (let mode = drawerMode (pg_app g); tab = mobileDrawerTab (pg_app g); s = pg_store g;
          d = (pg_drawer g)\<lparr>dmode := mode\<rparr>
      in [El ''div'' (cls2 ''drawer'' (if dragHeight d \<noteq> None then ''dragging'' else []))
            [(''style.height'', px (currentHeight d))]
            [(''onTouchStart'', on_drawer touch_start), (''onTouchMove'', on_drawer touch_move),
             (''onTouchEnd'', on_drawer (\<lambda>_. finishTouch)), (''onTouchCancel'', on_drawer (\<lambda>_. finishTouch))]
            (El ''button'' ''handle'' [(''type'', cp ''button'')] [(''onPointerDown'', on_drawer (\<lambda>_. onHandlePointerDown))]
               [Span ''handleText'' [Txt (handle_text (app_leader s) (app_alive s) (length (nodes s)))],
                El ''span'' (cls2 ''handleArrow'' (handle_arrow mode)) [(''aria-hidden'', cp ''true'')] [] []] #
             shown_if (mode \<noteq> Collapsed)
               [Div ''content''
                 [Div ''tabs'' (map tab_btn (zip [Node_tab, Event_tab, Tutorial_tab] (tab_buttons (pg_lang g) tab))),
                  Div ''tabBody''
                    (if tab = Event_tab then EventStream True s
                     else if tab = Tutorial_tab then MobileTutorial (controlCopy (pg_lang g))
                     else LogPanel (Some \<lparr>ci_placeholder = Some (cp ''type a command...''), ci_sendLabel = Some (cp ''send''),
                                          ci_onSubmit = Some onSubmitCommand\<rparr>) [] g)]])])"

section \<open>App.jsx\<close>

definition StatusPill_tree :: "ws_status \<Rightarrow> string \<Rightarrow> bool \<Rightarrow> handler markup list" where
  "StatusPill_tree status l isCompact =
     (case StatusPill (ws_str status) l isCompact of (pill, dot, t) \<Rightarrow> [Div pill [Div dot [], Txt t]])"

definition header_stat_tree :: "header_stat \<Rightarrow> handler markup" where
  "header_stat_tree st = Div ''headerStat'' [Span ''headerStatLabel'' [Txt (hs_label st)], Span ''headerStatValue'' [Txt (hs_value st)]]"

text \<open>\<open>(command) => sendClientCommand?.(command)\<close>\<close>

definition send_command :: "string \<Rightarrow> page \<Rightarrow> page" where
  "send_command command g =
     (if sendClientCommand_set (pg_store g) then with_hook (sendClientCommand (Some command) (pg_hook g)) g else g)"

definition node_selected :: "page \<Rightarrow> page" where
  "node_selected g = g\<lparr>pg_app := app_step Node_selected (pg_app g)\<rparr>"

definition pane_tapped :: "page \<Rightarrow> page" where
  "pane_tapped g = g\<lparr>pg_app := app_step Pane_tapped (pg_app g)\<rparr>"

text \<open>Styles: the height of the mobile canvas, \<open>calc(100vh - 40px - ...)\<close>.\<close>

definition canvas_height_text :: "drawer_mode \<Rightarrow> string" where
  "canvas_height_text mode =
     (case mode of Full \<Rightarrow> ''calc(100vh - 40px - 85vh)'' | Half \<Rightarrow> ''calc(100vh - 40px - 50vh)''
      | Collapsed \<Rightarrow> ''calc(100vh - 40px - 40px)'')"

definition LiveDemoApp :: "(flow_edge \<Rightarrow> label) \<Rightarrow> (rat \<Rightarrow> label) \<Rightarrow> (page \<Rightarrow> page) \<Rightarrow> page \<Rightarrow> handler markup list" where
  "LiveDemoApp edgePath px back g =
     (let a = pg_app g; s = pg_store g; l = pg_lang g; t = appCopy l in
      if onMobile a then
        [Div ''app mobileApp''
          [El ''header'' ''header mobileHeader'' [] []
            [Div ''mobileHeaderLeft''
              [El ''button'' ''mobileHeaderBtn'' [] [(''onPointerDown'', handleFastTap back)]
                 [Txt (if l = ''zh'' then [36820, 22238] else cp ''Back'')],
               Span ''mobileHeaderTitle'' [Txt (cp ''Raft Consensus '' @ [183] @ cp '' By Odie Yang'')]],
             Div ''mobileHeaderRight''
              (El ''button'' ''mobileHeaderBtn'' [] [(''onPointerDown'', handleFastTap (on_store toggleLang No_arg))]
                 [Txt (ac_langToggle t)] #
               StatusPill_tree (wsStatus s) l True)],
           Div ''main mobileMain''
            (El ''div'' ''canvasArea mobileCanvasArea'' [(''style.--canvas-height'', cp (canvas_height_text (drawerMode a)))] []
               (ClusterView edgePath (Some node_selected) (Some pane_tapped) (mobileFitSignal a) g) #
             MobileFab g @ MobileDrawer px send_command g)]]
      else
        [Div ''app''
          [El ''header'' ''header'' [] []
            [Div ''headerLeft''
              [El ''button'' ''headerActionBtn headerBackBtn'' [] [(''onClick'', \<lambda>_. back)] [Txt (ac_back t)],
               Div ''headerBrand'' [Span ''headerTitle'' [Txt (ac_title t)], Span ''headerSub'' [Txt (ac_sub t)]]],
             Div ''headerRight''
              (map header_stat_tree (header_stats s) @
               [El ''button'' ''headerActionBtn'' [] [(''onClick'', on_store toggleEventLog)] [Txt (ac_eventLogToggle t)],
                El ''button'' ''headerActionBtn'' [] [(''onClick'', on_store toggleLang)] [Txt (ac_langToggle t)]] @
               StatusPill_tree (wsStatus s) l False)],
           Div ''main''
            [Div ''canvasArea'' (ClusterView edgePath None None 0 g @ ControlPanel g),
             El ''aside'' ''rightPanel'' [] []
               (LogPanel None [] g @ shown_if (eventLogOpen s) (EventStream False s))]]])"

section \<open>IntroLanding.jsx\<close>

definition char_span :: "label \<Rightarrow> nat \<Rightarrow> bool \<Rightarrow> nat \<Rightarrow> nat \<times> nat \<Rightarrow> handler markup" where
  "char_span t tokenIdx isShown i c =
     (case c of (ch, delay) \<Rightarrow>
        El ''span'' (cls2 ''char'' (if isShown then ''charShown'' else []))
          [(''key'', t @ cp (''-'' @ nat_str tokenIdx @ ''-'' @ nat_str i)), (''style.animationDelay'', cp (nat_str delay @ ''ms''))] []
          [Txt [ch]])"

definition title_span :: "label \<Rightarrow> bool \<Rightarrow> nat \<Rightarrow> title_node \<Rightarrow> handler markup" where
  "title_span t isShown tokenIdx n =
     (case n of
        Space_span sp \<Rightarrow> El ''span'' [] [(''key'', t @ cp (''-space-'' @ nat_str tokenIdx))] [] [Txt sp]
      | Word_span latin cs \<Rightarrow>
          El ''span'' (if latin then ''wordChunkLatin'' else ''wordChunk'') [(''key'', t @ cp (''-word-'' @ nat_str tokenIdx))] []
            (map2 (char_span t tokenIdx isShown) [0..<length cs] cs))"

definition title_line :: "label \<Rightarrow> nat \<Rightarrow> bool \<Rightarrow> string \<Rightarrow> handler markup" where
  "title_line t baseDelay isShown lineClassName =
     (let ns = renderAnimatedLine t baseDelay
      in Span (cls2 ''titleLine'' lineClassName) (map2 (title_span t isShown) [0..<length ns] ns))"

definition body_tree :: "body_span \<Rightarrow> handler markup" where
  "body_tree b = (case b of Plain t \<Rightarrow> Txt t | Code_span t \<Rightarrow> El ''code'' [] [] [] [Txt t])"

definition chapter_section :: "landing \<Rightarrow> string \<Rightarrow> page_chapter \<Rightarrow> handler markup" where
  "chapter_section p l ch =
     (let sv = section_of p l ch
      in El ''section'' (cls2 ''chapter'' (join_with '' '' (tl (sv_classes sv))))
           [(''key'', cp (ch_id ch)), (''data-chapter-id'', cp (ch_id ch))] []
           [Div ''chapterInner''
             [Div (cls2 ''chapterIndex'' (if sv_shown sv then ''indexShown'' else [])) [Txt (cp (ch_id ch))],
              El ''h2'' ''chapterTitle'' [] []
                [title_line (if l = ''zh'' then ch_titleZh ch else ch_titleEn ch) 0 (sv_shown sv) ''primaryLine'',
                 title_line (if l = ''zh'' then ch_subtitleZh ch else ch_subtitleEn ch) 120 (sv_shown sv) ''secondaryLine''],
              El ''p'' (cls2 ''chapterBody'' (if sv_shown sv then ''bodyShown'' else [])) [] [] (map body_tree (sv_body sv))]])"

definition scroll_to :: "string \<Rightarrow> page \<Rightarrow> page" where
  "scroll_to i g =
     (case scrollToChapter i (pg_scroller g) of None \<Rightarrow> g | Some el \<Rightarrow> g\<lparr>pg_scrolled := pg_scrolled g @ [el]\<rparr>)"

definition nav_button :: "string \<times> bool \<times> label \<times> label \<Rightarrow> handler markup" where
  "nav_button item =
     (case item of (i, isActive, lab, summary) \<Rightarrow>
        El ''button'' (cls2 ''navItem'' (if isActive then ''navItemActive'' else [])) [(''key'', cp i)]
          [(''onClick'', \<lambda>_. scroll_to i)]
          [Span (cls2 ''navTag'' (if isActive then ''navTagActive'' else [])) [Txt (cp i)],
           Span ''navLabel'' [Txt lab], Span ''navSummary'' [Txt summary]])"

definition IntroLanding :: "(page \<Rightarrow> page) \<Rightarrow> page \<Rightarrow> handler markup list" where
  "IntroLanding start g =
     (let l = pg_lang g; p = pg_landing g
      in [Div ''page''
           [El ''header'' ''topHeader'' [] []
             [Div ''topHeaderLeft''
               [El ''h1'' ''pageTitle'' [] [] [Txt (headerTitle (isMobile p) l)], Span ''badge'' [Txt (cp ''By Odie Yang'')]],
              Div ''topHeaderRight''
               [El ''button'' ''langBtn'' [] [(''onPointerDown'', handleFastTap (on_store toggleLang No_arg))]
                  [Txt (if l = ''zh'' then cp ''EN'' else cp ''ZH'')],
                El ''button'' ''demoBtn'' [] [(''onPointerDown'', handleFastTap start)] [Txt (cp ''Demo '' @ [8594])]]],
            Div ''layout''
              (shown_if (\<not> isMobile p)
                 [El ''aside'' ''sidebar'' [] []
                   [El ''nav'' ''navList'' [] [] (map nav_button (navItems (isMobile p) l (activeId (pg_scroller g))))]] @
               [El ''main'' ''content'' [] []
                 (map (chapter_section p l) CHAPTERS @
                  [El ''section'' ''ctaSection'' [] []
                    [Div ''ctaInner''
                      [El ''p'' ''ctaHint'' [] []
                         [Txt (if l = ''zh'' then [20197, 19978, 25152, 26377, 34892, 20026, 22343, 21487, 22312, 28436, 31034, 20013, 23454, 26102, 35302, 21457]
                               else cp ''All behaviors above can be triggered in real time in the demo'')],
                       El ''button'' ''startBtn'' [] [(''onPointerDown'', handleFastTap start)]
                         [Txt (if l = ''zh'' then [24320, 22987, 28436, 31034] @ cp '' START DEMO'' else cp ''START DEMO'')]]]])])]])"

end
