(* ===== verification/Page_System.thy ===== *)
theory Page_System
  imports Markup_App Fault_UI_Properties Raft_WS_Properties
begin

text \<open>
  The whole frontend as one machine: \<open>App\<close> shows the landing page or the demo, the user fires
  handlers of the elements that are rendered, the browser delivers keys, timers, changes of the
  media query and the events of the socket. The components share one store, the hook is mounted with
  the demo, and what the controls send goes out through the hook's socket.
\<close>

section \<open>Starting and leaving the demo\<close>

definition fresh_drawer :: "int \<Rightarrow> drawer" where
  "fresh_drawer vh =
     \<lparr>dmode = Collapsed, viewportHeight = vh, dragHeight = None, t_active = False, t_startY = 0,
      t_startHeight = of_int COLLAPSED_PX, t_moved = False, suppressClick = False, suppressTimers = 0\<rparr>"

text \<open>\<open>setStarted(true)\<close>: the landing page goes, the demo mounts, and \<open>useRaftWS\<close> connects.\<close>

definition start_demo :: "page \<Rightarrow> page" where
  "start_demo g =
     (if started (pg_app g) then g
      else with_hook (hook_step (Mount (pg_narrow g)) (pg_hook g))
        (g\<lparr>pg_app := app_step (Start_clicked (pg_narrow g)) (pg_app g),
           pg_hint := hint_mount (hint_key (pg_hint g)) (selectedNodeId (pg_store g)),
           pg_landing := leave_page (pg_landing g), pg_scroller := landing_unmount (pg_scroller g)\<rparr>))"

text \<open>\<open>onBack\<close>: the demo goes with its hook; the landing page comes with fresh state.\<close>

definition leave_demo :: "page \<Rightarrow> page" where
  "leave_demo g =
     (if started (pg_app g)
      then with_hook (hook_step Unmount (pg_hook g))
        (g\<lparr>pg_app := app_step Back_clicked (pg_app g), pg_landing := landing_init (pg_narrow g)\<rparr>)
      else g)"

definition App :: "(flow_edge \<Rightarrow> label) \<Rightarrow> (rat \<Rightarrow> label) \<Rightarrow> page \<Rightarrow> handler markup list" where
  "App edgePath px g =
     (if \<not> started (pg_app g) then IntroLanding start_demo g else LiveDemoApp edgePath px leave_demo g)"

section \<open>After a render\<close>

definition in_mobile :: "page \<Rightarrow> bool" where
  "in_mobile g \<longleftrightarrow> started (pg_app g) \<and> onMobile (pg_app g)"

definition in_desktop :: "page \<Rightarrow> bool" where
  "in_desktop g \<longleftrightarrow> started (pg_app g) \<and> \<not> onMobile (pg_app g)"

text \<open>
  A component that is not rendered has no state: it will mount with the initial values of its
  hooks. The effect of \<open>HintCard\<close> sees the present selection.
\<close>

definition settle :: "page \<Rightarrow> page" where
  "settle g =
     (let a = pg_app g; p = pg_panel g
      in g\<lparr>pg_panel := p\<lparr>cmdText := (if in_desktop g then cmdText p else []),
                          tutorialOpen := (in_desktop g \<and> tutorialOpen p), fabOpen := (in_mobile g \<and> fabOpen p)\<rparr>,
           pg_drawer := (if in_mobile g then (pg_drawer g)\<lparr>dmode := drawerMode a\<rparr> else fresh_drawer (viewportHeight (pg_drawer g))),
           pg_cmd := (if in_mobile g \<and> drawerMode a \<noteq> Collapsed \<and> mobileDrawerTab a = Node_tab then pg_cmd g else []),
           pg_hint := (if started a then hint_effect ((pg_hint g)\<lparr>h_selected := selectedNodeId (pn_store p)\<rparr>) else pg_hint g),
           pg_hovered := filter (\<lambda>i. i \<in> ed_id ` set (flowEdges (nodes (pn_store p)))) (pg_hovered g)\<rparr>)"

section \<open>Events\<close>

datatype page_event =
    Fire nat string event_arg
  | Key_down string
  | Mouse_down bool
  | Query bool
  | Browser hook_event
  | Refit_timer nat
  | Suppress_timer
  | Resized int
  | Landing_event landing_event
  | Scroller_event scroll_event

text \<open>What the browser reports to the hook; mounting and sending are the page's.\<close>

definition browser_event :: "hook_event \<Rightarrow> bool" where
  "browser_event e =
     (case e of Opened _ \<Rightarrow> True | Message_received _ _ _ _ \<Rightarrow> True | Closed _ \<Rightarrow> True | Errored _ \<Rightarrow> True
      | ConnectTimer _ \<Rightarrow> True | FlushTimer _ _ \<Rightarrow> True | _ \<Rightarrow> False)"

text \<open>An event on the n-th node of the page: its handler of that name runs unless the element is disabled.\<close>

definition fire :: "handler markup list \<Rightarrow> nat \<Rightarrow> string \<Rightarrow> event_arg \<Rightarrow> page \<Rightarrow> page" where
  "fire ms n name a g =
     (let ns = all_nodes ms
      in if n < length ns \<and> \<not> disabled (ns ! n)
         then (case map_of (handlers (ns ! n)) name of None \<Rightarrow> g | Some h \<Rightarrow> h a g) else g)"

fun page_event_step :: "(flow_edge \<Rightarrow> label) \<Rightarrow> (rat \<Rightarrow> label) \<Rightarrow> page_event \<Rightarrow> page \<Rightarrow> page" where
  "page_event_step ep px (Fire n name a) g = fire (App ep px g) n name a g"
| "page_event_step ep px (Key_down k) g =
     (if in_desktop g then on_panel (onKeyDown k) No_arg g else if in_mobile g then on_panel (fab_onKeyDown k) No_arg g else g)"
| "page_event_step ep px (Mouse_down outside) g = (if in_desktop g then on_panel (onDown outside) No_arg g else g)"
| "page_event_step ep px (Query m) g =
     (let g1 = g\<lparr>pg_narrow := m, pg_app := app_step (Media_changed m) (pg_app g)\<rparr>
      in if started (pg_app g) then with_hook (hook_step (MediaChange m) (pg_hook g)) g1
         else g1\<lparr>pg_landing := landing_step (Media m) (pg_landing g), pg_scroller := scroll_step (Query_changes m) (pg_scroller g)\<rparr>)"
| "page_event_step ep px (Browser e) g = (if browser_event e then with_hook (hook_step e (pg_hook g)) g else g)"
| "page_event_step ep px (Refit_timer t) g = g\<lparr>pg_app := app_step (Fit_timer t) (pg_app g)\<rparr>"
| "page_event_step ep px Suppress_timer g = g\<lparr>pg_drawer := suppress_over (pg_drawer g)\<rparr>"
| "page_event_step ep px (Resized vh) g = g\<lparr>pg_drawer := onResize vh (pg_drawer g)\<rparr>"
| "page_event_step ep px (Landing_event e) g =
     (if started (pg_app g) then g else g\<lparr>pg_landing := landing_step e (pg_landing g)\<rparr>)"
| "page_event_step ep px (Scroller_event e) g =
     (if started (pg_app g) then g else g\<lparr>pg_scroller := scroll_step e (pg_scroller g)\<rparr>)"

definition page_step :: "(flow_edge \<Rightarrow> label) \<Rightarrow> (rat \<Rightarrow> label) \<Rightarrow> page_event \<Rightarrow> page \<Rightarrow> page" where
  "page_step ep px e g = settle (page_event_step ep px e g)"

definition page_run :: "(flow_edge \<Rightarrow> label) \<Rightarrow> (rat \<Rightarrow> label) \<Rightarrow> page_event list \<Rightarrow> page \<Rightarrow> page" where
  "page_run ep px es g = fold (page_step ep px) es g"

definition page_init :: "bool \<Rightarrow> int \<Rightarrow> string option \<Rightarrow> (string \<rightharpoonup> string) \<Rightarrow> page" where
  "page_init narrow vh key ls =
     \<lparr>pg_app = app_init, pg_panel = init_panel ls,
      pg_hook = \<lparr>h_store = init_store ls, wsRef = None, sockets = [], detached = [], timerRef = None, connectTimers = [],
                 nextTimer = 0, disposedRef = True, isMobileRef = narrow, stateFlushTimer = False, pendingPayload = None,
                 sent_out = []\<rparr>,
      pg_drawer = fresh_drawer vh, pg_hint = hint_mount key None, pg_landing = landing_init narrow,
      pg_scroller = scroller_init, pg_cmd = [], pg_hovered = [], pg_narrow = narrow, pg_scrolled = []\<rparr>"

section \<open>The handlers on a page\<close>

definition handled :: "('h \<Rightarrow> bool) \<Rightarrow> 'h markup list \<Rightarrow> bool" where
  "handled P ms \<longleftrightarrow> (\<forall>m \<in> set (all_nodes ms). \<forall>h \<in> set (handlers m). P (snd h))"

lemma handled_simps [simp]:
  "handled P []" "handled P (ms @ ns) = (handled P ms \<and> handled P ns)"
  "handled P (Txt t # ms) = handled P ms"
  "handled P (El tag cls attrs ons kids # ms) = ((\<forall>h \<in> set ons. P (snd h)) \<and> handled P kids \<and> handled P ms)"
  by (simp_all add: handled_def ball_Un all_nodes_def conj_ac)

lemma handled_map: "handled P (map f xs) = (\<forall>x \<in> set xs. handled P [f x])"
  by (simp add: handled_def all_nodes_def)

lemma handled_concat: "handled P (concat mss) = (\<forall>ms \<in> set mss. handled P ms)"
  by (induction mss) simp_all

lemma handled_map2: "handled P (map2 f xs ys) = (\<forall>z \<in> set (zip xs ys). handled P [f (fst z) (snd z)])"
  by (simp add: handled_map split_def)

lemma handled_shown_if [simp]: "handled P (shown_if b ms) = (b \<longrightarrow> handled P ms)"
  by (simp add: shown_if_def)

lemma fire_cases:
  assumes "handled P ms"
  obtains "fire ms n name a g = g" | h where "P h" "fire ms n name a g = h a g"
proof (cases "fire ms n name a g = g")
  case False
  then obtain h where n: "n < length (all_nodes ms)" and h: "map_of (handlers (all_nodes ms ! n)) name = Some h"
    and f: "fire ms n name a g = h a g"
    by (auto simp: fire_def Let_def split: if_splits option.splits)
  from h have "(name, h) \<in> set (handlers (all_nodes ms ! n))" by (rule map_of_SomeD)
  with assms n have "P h" by (fastforce simp: handled_def)
  with f show ?thesis by (intro that(2))
qed (rule that(1))

end
