(* ===== verification/Page_Invariant.thy ===== *)
theory Page_Invariant
  imports Page_System
begin

text \<open>
  What holds of the page in every state that a run reaches: the invariants of its components, on
  the one store they share, and what went out through the socket.
\<close>

section \<open>The invariant\<close>

text \<open>What a message may be that is sent to a cluster of \<open>N\<close> nodes.\<close>

definition message_ok :: "nat \<Rightarrow> wire_message \<Rightarrow> bool" where
  "message_ok N m =
     (case m of FAULT_INJECT f \<Rightarrow> fault_ok f \<and> fault_ids N f | CLIENT_COMMAND c \<Rightarrow> c \<noteq> [] \<and> js_trim c = c)"

definition payload_ids :: "nat \<Rightarrow> payload option \<Rightarrow> bool" where
  "payload_ids N pl \<longleftrightarrow> ids_below N (map n_id (raw_nodes pl))"

definition hook_ok :: "nat \<Rightarrow> hook \<Rightarrow> bool" where
  "hook_ok N h \<longleftrightarrow> conn_ok h \<and>
     (\<not> disposedRef h \<longrightarrow> sendFault_set (h_store h) \<and> sendClientCommand_set (h_store h)) \<and>
     (case pendingPayload h of None \<Rightarrow> True | Some p \<Rightarrow> payload_ids N (Some p)) \<and>
     list_all (\<lambda>(k, m). message_ok N m) (sent_out h)"

definition page_ok :: "nat \<Rightarrow> page \<Rightarrow> bool" where
  "page_ok N g \<longleftrightarrow> ui_ok N (pg_panel g) \<and> hook_ok N (pg_hook g) \<and> h_store (pg_hook g) = pg_store g \<and>
     disposedRef (pg_hook g) = (\<not> started (pg_app g)) \<and> refit_ok (pg_app g)"

text \<open>The snapshots an event brings name nodes of the cluster only.\<close>

definition hook_event_ids :: "nat \<Rightarrow> hook_event \<Rightarrow> bool" where
  "hook_event_ids N e = (case e of Message_received _ _ _ (STATE_UPDATE pl) \<Rightarrow> payload_ids N pl | _ \<Rightarrow> True)"

definition page_event_ids :: "nat \<Rightarrow> page_event \<Rightarrow> bool" where
  "page_event_ids N e = (case e of Browser he \<Rightarrow> hook_event_ids N he | _ \<Rightarrow> True)"

section \<open>The hook\<close>

text \<open>What a change of the panel keeps of the store: the connection is the hook's.\<close>

definition connection_fields :: "store \<Rightarrow> ws_status \<times> bool \<times> bool" where
  "connection_fields s = (wsStatus s, sendFault_set s, sendClientCommand_set s)"

lemma send_new_sel [simp]:
  "h_store (send_new fs h) = h_store h" "disposedRef (send_new fs h) = disposedRef h"
  "sockets (send_new fs h) = sockets h" "wsRef (send_new fs h) = wsRef h" "detached (send_new fs h) = detached h"
  "timerRef (send_new fs h) = timerRef h" "connectTimers (send_new fs h) = connectTimers h"
  "stateFlushTimer (send_new fs h) = stateFlushTimer h" "pendingPayload (send_new fs h) = pendingPayload h"
  by (induction fs arbitrary: h) (simp_all add: send_new_def sendFault_def split: option.split)

lemma send_new_out:
  "list_all (\<lambda>(k, m). message_ok N m) (sent_out h) \<Longrightarrow> list_all (\<lambda>f. fault_ok f \<and> fault_ids N f) fs \<Longrightarrow>
   list_all (\<lambda>(k, m). message_ok N m) (sent_out (send_new fs h))"
proof (induction fs arbitrary: h)
  case (Cons f fs)
  have same: "\<lparr>f_action = f_action f, f_targets = f_targets f, f_groups = f_groups f, f_command = f_command f\<rparr> = f"
    by (cases f) simp
  have "list_all (\<lambda>(k, m). message_ok N m)
      (sent_out (sendFault (f_action f) (Some (f_targets f)) (Some (f_groups f)) (Some (f_command f)) h))"
    using Cons.prems by (auto simp: sendFault_def nullish_def message_ok_def same split: option.split)
  with Cons show ?case by (simp add: send_new_def)
qed (simp add: send_new_def)

lemma hook_ok_new:
  assumes "hook_ok N h" "connection_fields s = connection_fields (h_store h)" "list_all (\<lambda>f. fault_ok f \<and> fault_ids N f) fs"
  shows "hook_ok N ((send_new fs h)\<lparr>h_store := s\<rparr>)"
proof -
  have "conn_ok ((send_new fs h)\<lparr>h_store := s\<rparr>) = conn_ok h"
    using assms(2) by (simp add: conn_ok_def connection_fields_def)
  then show ?thesis using assms send_new_out [of N h fs] by (simp add: hook_ok_def connection_fields_def)
qed

lemma page_ok_panel:
  assumes "page_ok N g" "ui_ok N p" "connection_fields (pn_store p) = connection_fields (pg_store g)"
  shows "page_ok N (with_panel p g)"
proof -
  have "list_all (\<lambda>f. fault_ok f \<and> fault_ids N f) (drop n (outbox p))" for n
    using assms(2) by (auto simp: ui_ok_def list_all_iff dest: in_set_dropD)
  with assms show ?thesis by (simp add: page_ok_def with_panel_def hook_ok_new)
qed

lemma page_ok_hook:
  assumes "page_ok N g" "hook_ok N h" "ui_ok N ((pg_panel g)\<lparr>pn_store := h_store h\<rparr>)" "disposedRef h = (\<not> started a)" "refit_ok a"
  shows "page_ok N (with_hook h (g\<lparr>pg_app := a\<rparr>))"
  using assms by (simp add: page_ok_def with_hook_def)

lemma page_ok_app:
  "page_ok N g \<Longrightarrow> started (app_step e (pg_app g)) = started (pg_app g) \<Longrightarrow> page_ok N (g\<lparr>pg_app := app_step e (pg_app g)\<rparr>)"
  by (simp add: page_ok_def refit_ok_step)

lemma page_ok_cong:
  "page_ok N g \<Longrightarrow> pg_panel g' = pg_panel g \<Longrightarrow> pg_hook g' = pg_hook g \<Longrightarrow> pg_app g' = pg_app g \<Longrightarrow> page_ok N g'"
  by (simp add: page_ok_def)

section \<open>Operations of the panel\<close>

lemma cf_defs:
  "connection_fields (pn_store (closeAction p)) = connection_fields (pn_store p)"
  "connection_fields (pn_store (send_fault a ts gs c p)) = connection_fields (pn_store p)"
  "connection_fields (cancelAction s) = connection_fields s"
  by (simp_all add: ui_defs connection_fields_def)

text \<open>An operation of the controls: it keeps what is known of the panel and the connection's fields.\<close>

definition panel_op :: "nat \<Rightarrow> (panel \<Rightarrow> panel) \<Rightarrow> bool" where
  "panel_op N f \<longleftrightarrow>
     (\<forall>p. ui_ok N p \<longrightarrow> ui_ok N (f p) \<and> connection_fields (pn_store (f p)) = connection_fields (pn_store p))"

lemma panel_op_step:
  assumes "event_ids N e" "case e of Snapshot_received _ _ _ \<Rightarrow> False | SendFault_installed _ \<Rightarrow> False | NodeClick _ \<Rightarrow> False | _ \<Rightarrow> True"
  shows "panel_op N (panel_step e)"
proof -
  have "connection_fields (pn_store (panel_step e p)) = connection_fields (pn_store p)" for p
    using assms(2) by (cases e) (auto simp: ui_defs connection_fields_def Let_def)
  with ui_ok_step [OF _ assms(1)] show ?thesis by (simp add: panel_op_def)
qed

lemma bar_ops:
  "panel_op N submitCmd" "panel_op N confirmPartitionA" "panel_op N sendPartition" "panel_op N (startAction m)"
  "panel_op N toggleTutorial" "panel_op N closeAction" "panel_op N onPaneClick" "panel_op N (onKeyDown k)" "panel_op N (onDown b)"
  "panel_op N (setTutorialOpen False)"
proof -
  have step: "panel_step SubmitForm = submitCmd" "panel_step ConfirmA = confirmPartitionA" "panel_step ConfirmPartition = sendPartition"
    "panel_step (Start m) = startAction m" "panel_step Tutorial = toggleTutorial" "panel_step CancelButton = closeAction"
    "panel_step PaneClick = onPaneClick" "panel_step (Key k) = onKeyDown k" "panel_step (Down b) = onDown b"
    "panel_step CloseTutorial = setTutorialOpen False" for m k b
    by (simp_all add: fun_eq_iff setTutorialOpen_def)
  note ops = panel_op_step [where N = N and e = SubmitForm] panel_op_step [where N = N and e = ConfirmA]
    panel_op_step [where N = N and e = ConfirmPartition] panel_op_step [where N = N and e = "Start m"]
    panel_op_step [where N = N and e = Tutorial] panel_op_step [where N = N and e = CancelButton]
    panel_op_step [where N = N and e = PaneClick] panel_op_step [where N = N and e = "Key k"]
    panel_op_step [where N = N and e = "Down b"] panel_op_step [where N = N and e = CloseTutorial]
  show "panel_op N submitCmd" "panel_op N confirmPartitionA" "panel_op N sendPartition" "panel_op N (startAction m)"
    "panel_op N toggleTutorial" "panel_op N closeAction" "panel_op N onPaneClick" "panel_op N (onKeyDown k)" "panel_op N (onDown b)"
    "panel_op N (setTutorialOpen False)"
    using ops unfolding step by (simp_all add: event_ids_def)
qed

lemma heal_op: "panel_op N handleHealClick"
proof -
  have heal: "handleHealClick = startAction MHeal" by (simp add: fun_eq_iff handleHealClick_def)
  show ?thesis unfolding heal by (rule bar_ops(4))
qed

lemma lang_op: "panel_op N (upd_store toggleLang)"
proof -
  have "ui_ok N (upd_store toggleLang p)" if "ui_ok N p" for p
    by (rule ui_ok_act [OF that, where a = ToggleLang]) (simp_all add: store_defs Let_def)
  then show ?thesis by (simp add: panel_op_def) (simp add: upd_store_def store_defs Let_def connection_fields_def)
qed

lemma event_log_op: "panel_op N (upd_store toggleEventLog)"
proof -
  have "ui_ok N (upd_store toggleEventLog p)" if "ui_ok N p" for p
    by (rule ui_ok_act [OF that, where a = ToggleEventLog]) (simp_all add: store_defs)
  then show ?thesis by (simp add: panel_op_def) (simp add: upd_store_def store_defs connection_fields_def)
qed

lemma cancel_op: "panel_op N (upd_store cancelAction)"
  by (auto simp: panel_op_def ui_ok_store) (simp add: ui_defs connection_fields_def)

text \<open>The mobile button's operations, which the bar's have shown to be harmless.\<close>

lemma ui_ok_cong: "ui_ok N p \<Longrightarrow> pn_store q = pn_store p \<Longrightarrow> outbox q = outbox p \<Longrightarrow> ui_ok N q"
  by (simp add: ui_ok_def)

lemma panel_op_cong:
  assumes "panel_op N f" "\<And>p. pn_store (g p) = pn_store (f p)" "\<And>p. outbox (g p) = outbox (f p)"
  shows "panel_op N g"
  using assms by (simp add: panel_op_def ui_ok_def)

lemma panel_op_id: "panel_op N (\<lambda>p. p)"
  by (simp add: panel_op_def)

lemma toggle_fab_op: "panel_op N toggleFab"
  by (rule panel_op_cong [OF panel_op_id]) (simp_all add: toggleFab_def)

lemma text_op: "panel_op N (\<lambda>p. p\<lparr>cmdText := v\<rparr>)"
  by (rule panel_op_cong [OF panel_op_id]) simp_all

lemma fab_ops:
  "panel_op N confirmGroupA" "panel_op N commitPartition" "panel_op N (triggerAction m)" "panel_op N (fab_onKeyDown k)"
proof -
  show "panel_op N commitPartition"
    by (rule panel_op_cong [OF bar_ops(3)]) (simp_all add: commitPartition_def sendPartition_def closeAction_def Let_def upd_store_def)
  have "panel_op N (upd_store goPartitionConfirm)"
    by (auto simp: panel_op_def ui_ok_store) (simp add: ui_defs connection_fields_def)
  then show "panel_op N confirmGroupA" by (simp add: panel_op_def confirmGroupA_def)
  have "panel_op N (upd_store (beginAction (Some m)))"
    by (auto simp: panel_op_def ui_ok_store) (simp add: ui_defs connection_fields_def)
  then have "panel_op N (\<lambda>p. if c p then upd_store cancelAction p else upd_store (beginAction (Some m)) p)" for c
    using cancel_op [of N] by (simp add: panel_op_def)
  then show "panel_op N (triggerAction m)"
    by (rule panel_op_cong [where f = "\<lambda>p. if m = MPartitionSelect \<and>
          (actionMode (pn_store p) = Some MPartitionSelect \<or> actionMode (pn_store p) = Some MPartitionConfirm) \<or>
          actionMode (pn_store p) = Some m then upd_store cancelAction p else upd_store (beginAction (Some m)) p"])
      (auto simp: triggerAction_def Let_def upd_store_def)
  have "panel_op N (\<lambda>p. if k \<noteq> ''Escape'' then p else upd_store cancelAction p)"
    using cancel_op [of N] by (simp add: panel_op_def)
  then show "panel_op N (fab_onKeyDown k)"
    by (rule panel_op_cong) (simp_all add: fab_onKeyDown_def upd_store_def)
qed

lemma press_op: "panel_op N (fab_press i)"
  using fab_ops(3) panel_op_id by (auto simp: panel_op_def fab_press_def split: prod.split)

section \<open>Operations of the hook\<close>

definition store_ok :: "nat \<Rightarrow> store \<Rightarrow> bool" where
  "store_ok N s \<longleftrightarrow> store_inv s \<and> known_ids N s"

lemma ui_ok_store_ok: "ui_ok N p \<longleftrightarrow> store_ok N (pn_store p) \<and> list_all (\<lambda>f. fault_ok f \<and> fault_ids N f) (outbox p)"
  by (auto simp: ui_ok_def store_ok_def)

lemma store_ok_hook:
  assumes "store_ok N s"
  shows "store_ok N (setWsStatus st s)" "store_ok N (setSendFault b s)" "store_ok N (setSendClientCommand b s)"
    "payload_ids N pl \<Longrightarrow> store_ok N (applyStateUpdate t1 t2 pl s)"
proof -
  note steps = store_inv_step [of s "SetWsStatus st"] store_inv_step [of s "SetSendFault b"]
    store_inv_step [of s "SetSendClientCommand b"] store_inv_step [of s "ApplyStateUpdate t1 t2 pl"]
  show "store_ok N (setWsStatus st s)" "store_ok N (setSendFault b s)" "store_ok N (setSendClientCommand b s)"
    using assms steps by (simp_all add: store_ok_def known_ids_def) (simp_all add: store_defs)
  show "payload_ids N pl \<Longrightarrow> store_ok N (applyStateUpdate t1 t2 pl s)"
    using assms steps(4) by (simp add: store_ok_def known_ids_def payload_ids_def applyStateUpdate_ids)
qed

lemma hook_step_store:
  assumes "store_ok N (h_store h)" "hook_event_ids N e"
    and "case pendingPayload h of None \<Rightarrow> True | Some p \<Rightarrow> payload_ids N (Some p)"
  shows "store_ok N (h_store (hook_step e h))"
  using assms
  by (cases e)
    (auto simp: hook_defs Let_def hook_event_ids_def split: option.splits ws_data.splits intro!: store_ok_hook
      simp del: setWsStatus_def setSendFault_def setSendClientCommand_def)

lemma hook_ok_step:
  assumes "hook_ok N h" "hook_event_ids N e"
    and "case e of SendFault _ _ _ _ \<Rightarrow> False | SendClientCommand _ \<Rightarrow> False | _ \<Rightarrow> True"
  shows "hook_ok N (hook_step e h)"
proof -
  have "conn_ok (hook_step e h)" using assms(1) by (simp add: hook_ok_def conn_ok_step)
  moreover have "sent_out (hook_step e h) = sent_out h"
    using assms(3) by (cases e) (auto simp: hook_defs Let_def split: option.splits ws_data.splits)
  moreover have "case pendingPayload (hook_step e h) of None \<Rightarrow> True | Some p \<Rightarrow> payload_ids N (Some p)"
    using assms by (cases e) (auto simp: hook_ok_def hook_defs Let_def hook_event_ids_def split: option.splits ws_data.splits)
  moreover have "\<not> disposedRef (hook_step e h) \<longrightarrow> sendFault_set (h_store (hook_step e h)) \<and> sendClientCommand_set (h_store (hook_step e h))"
    using assms(1) by (cases e) (auto simp: hook_ok_def hook_defs Let_def split: option.splits ws_data.splits)
  ultimately show ?thesis using assms(1) by (simp add: hook_ok_def)
qed

section \<open>Handlers\<close>

definition keeps :: "nat \<Rightarrow> (page \<Rightarrow> page) \<Rightarrow> bool" where
  "keeps N f \<longleftrightarrow> (\<forall>g. page_ok N g \<longrightarrow> page_ok N (f g))"

definition keeping :: "nat \<Rightarrow> handler \<Rightarrow> bool" where
  "keeping N h \<longleftrightarrow> (\<forall>a. keeps N (h a))"

named_theorems keeping_rules \<open>handlers that keep the invariant of the page\<close>

lemma page_ok_ui: "page_ok N g \<Longrightarrow> ui_ok N (pg_panel g)"
  by (simp add: page_ok_def)

lemma keeps_panel: "panel_op N f \<Longrightarrow> keeps N (on_panel f a)"
  by (auto simp: keeps_def on_panel_def panel_op_def intro!: page_ok_panel dest: page_ok_ui)

lemma keeping_panel: "panel_op N f \<Longrightarrow> keeping N (on_panel f)"
  by (simp add: keeping_def keeps_panel)

lemma keeping_tap: "keeps N f \<Longrightarrow> keeping N (handleFastTap f)"
  by (simp add: keeping_def keeps_def handleFastTap_def)

lemma keeping_click: "keeps N f \<Longrightarrow> keeping N (\<lambda>_. f)"
  by (simp add: keeping_def)

lemma keeping_tap_panel: "panel_op N f \<Longrightarrow> keeping N (handleFastTap_panel f)"
  by (simp add: handleFastTap_panel_def keeping_tap keeps_panel)

lemma keeping_bar [keeping_rules]:
  "keeping N (on_panel submitCmd)" "keeping N (on_panel confirmPartitionA)" "keeping N (on_panel sendPartition)"
  "keeping N (on_panel (startAction m))" "keeping N (on_panel toggleTutorial)" "keeping N (on_panel closeAction)"
  "keeping N (on_panel handleHealClick)" "keeping N (on_panel (setTutorialOpen False))"
  "keeping N (on_store toggleLang)" "keeping N (on_store toggleEventLog)"
  by (simp_all add: keeping_panel bar_ops heal_op on_store_def lang_op event_log_op)

lemma keeping_fab [keeping_rules]:
  "keeping N (handleFastTap_panel (upd_store cancelAction))" "keeping N (handleFastTap_panel confirmGroupA)"
  "keeping N (handleFastTap_panel commitPartition)" "keeping N (handleFastTap_panel (fab_press i))"
  "keeping N (handleFastTap_panel toggleFab)" "keeping N (handleFastTap (on_store toggleLang No_arg))"
  by (simp_all add: keeping_tap_panel cancel_op fab_ops press_op toggle_fab_op on_store_def keeping_tap keeps_panel lang_op)

lemma keeping_text [keeping_rules]: "keeping N setBarText" "keeping N setCmdText"
proof -
  have "keeps N (on_panel (\<lambda>p. p\<lparr>cmdText := v\<rparr>) a)" "keeps N (on_panel (\<lambda>p. p) a)" for v a
    by (simp_all add: keeps_panel text_op panel_op_id)
  then show "keeping N setBarText" by (simp add: keeping_def setBarText_def split: event_arg.split)
  show "keeping N setCmdText"
    by (auto simp: keeping_def keeps_def setCmdText_def page_ok_def split: event_arg.split)
qed

lemma keeping_other [keeping_rules]:
  "keeping N (on_hint f)" "keeping N (hover b i)" "keeping N (\<lambda>_. scroll_to i)"
  by (auto simp: keeping_def keeps_def on_hint_def hover_def scroll_to_def page_ok_def split: option.split)

text \<open>The shell: the drawer, its tabs, a node selected, a tap on the canvas.\<close>

lemma app_started [simp]:
  "started (app_step (Drawer_moved m) a) = started a" "started (app_step (Tab_chosen t) a) = started a"
  "started (app_step Node_selected a) = started a" "started (app_step Pane_tapped a) = started a"
  "started (app_step (Media_changed b) a) = started a" "started (app_step (Fit_timer k) a) = started a"
  by (simp_all add: rendered_def refit_effect_def onNodeSelected_def onPaneTap_def sync_mobile_def fit_timeout_def)

lemma keeps_shell: "keeps N node_selected" "keeps N pane_tapped" "keeps N (choose_tab t)"
  by (simp_all add: keeps_def node_selected_def pane_tapped_def choose_tab_def page_ok_app del: app_step.simps)

lemma keeping_drawer [keeping_rules]: "keeping N (on_drawer f)"
proof -
  have "page_ok N (on_drawer f a g)" if "page_ok N g" for a g
  proof -
    let ?d = "f a ((pg_drawer g)\<lparr>dmode := drawerMode (pg_app g)\<rparr>)"
    have "page_ok N (g\<lparr>pg_app := app_step (Drawer_moved (dmode ?d)) (pg_app g)\<rparr>)"
      by (rule page_ok_app [OF that]) (rule app_started)
    then show ?thesis by (rule page_ok_cong) (simp_all add: on_drawer_def Let_def)
  qed
  then show ?thesis by (simp add: keeping_def keeps_def)
qed

lemma keeping_tab [keeping_rules]: "keeping N (handleFastTap (choose_tab t))"
  by (simp add: keeping_tap keeps_shell)

text \<open>The canvas.\<close>

lemma click_connection: "connection_fields (pn_store (snd (handleActionClick node p))) = connection_fields (pn_store p)"
  by (cases rule: handleActionClick_cases [of node p])
    (simp_all add: upd_store_def send_fault_def store_defs connection_fields_def)

lemma keeping_node_click [keeping_rules]:
  assumes "case selected of None \<Rightarrow> True | Some f \<Rightarrow> keeps N f"
  shows "keeping N (canvas_node_click selected)"
proof -
  have "page_ok N (canvas_node_click selected (Value i) g)" if ok: "page_ok N g" for i g
  proof (cases "find (\<lambda>n. n_id n = js_number i) (nodes (pg_store g))")
    case (Some node)
    then have node: "node \<in> set (nodes (pg_store g))" by (auto simp: find_Some_iff)
    have ui: "ui_ok N (pg_panel g)" using ok by (simp add: page_ok_def)
    obtain b p where click: "handleActionClick node (pg_panel g) = (b, p)" by force
    have "ui_ok N p" using ui_ok_click [OF ui node] click by simp
    moreover have "connection_fields (pn_store p) = connection_fields (pg_store g)"
      using click_connection [of node "pg_panel g"] click by simp
    ultimately have p: "ui_ok N p" "connection_fields (pn_store p) = connection_fields (pg_store g)" .
    have sel: "ui_ok N (upd_store (selectNode (Some (js_number i))) p)"
      "connection_fields (pn_store (upd_store (selectNode (Some (js_number i))) p)) = connection_fields (pg_store g)"
      using ui_ok_store(6) [OF p(1)] p(2) by (simp_all add: upd_store_def selectNode_def connection_fields_def)
    have "page_ok N (with_panel p g)" "page_ok N (with_panel (upd_store (selectNode (Some (js_number i))) p) g)"
      by (rule page_ok_panel [OF ok p], rule page_ok_panel [OF ok sel])
    with assms Some click show ?thesis
      by (cases b) (auto simp: canvas_node_click_def keeps_def Let_def split: option.splits)
  qed (use ok in \<open>simp add: canvas_node_click_def\<close>)
  then show ?thesis
    by (auto simp: keeping_def keeps_def canvas_node_click_def split: event_arg.split)
qed

lemma keeping_pane_click [keeping_rules]:
  assumes "case tapped of None \<Rightarrow> True | Some f \<Rightarrow> keeps N f"
  shows "keeping N (canvas_pane_click tapped)"
proof -
  have "page_ok N (with_panel (onPaneClick (pg_panel g)) g)" if "page_ok N g" for g
    using keeps_panel [OF bar_ops(7), of N No_arg] that by (simp add: keeps_def on_panel_def)
  with assms show ?thesis
    by (auto simp: keeping_def keeps_def canvas_pane_click_def Let_def split: option.split)
qed

section \<open>The handlers of every component\<close>

lemma handled_text [simp]:
  "handled P (NodeStats_tree node l)" "handled P (StatusPill_tree w l b)" "handled P (EventStream b s)"
  "handled P [tutorial_section sec]" "handled P (MobileTutorial t)" "handled P [header_stat_tree h]" "handled P [log_row r]"
  "handled P [body_tree b']" "handled P [title_line tx d b lc]" "handled P (NodeCard data s)"
proof -
  show sec: "handled P [tutorial_section sec]" for sec
    by (simp add: tutorial_section_def handled_map2 tutorial_item_tree_def split: tutorial_item.split)
  then show "handled P (MobileTutorial t)" by (simp add: MobileTutorial_def Let_def handled_map)
  show "handled P (NodeStats_tree node l)"
    by (simp add: NodeStats_tree_def Let_def stat_cell_def split: option.split)
  show "handled P (StatusPill_tree w l b)" by (simp add: StatusPill_tree_def split: prod.split)
  show "handled P (EventStream b s)"
    by (simp add: EventStream_def Let_def handled_map stream_row_def)
  show "handled P [header_stat_tree h]" by (simp add: header_stat_tree_def)
  show "handled P [log_row r]" by (simp add: log_row_def split: prod.split)
  show "handled P [body_tree b']" by (simp add: body_tree_def split: body_span.split)
  show "handled P [title_line tx d b lc]"
    by (simp add: title_line_def Let_def handled_map2 title_span_def char_span_def split: title_node.split prod.split)
  show "handled P (NodeCard data s)" by (simp add: NodeCard_def Handle_def split: option.split)
qed

lemma handled_title [simp]: "handled P (title_line tx d b lc # ms) = handled P ms"
  using handled_simps(2) [of P "[title_line tx d b lc]" ms] by simp

lemma handled_log [keeping_rules]: "handled (keeping N) (LogPanel None c g)"
  by (simp add: LogPanel_def LogEntries_def Let_def command_bar_def handled_map split: log_body.split)

lemma keeping_submit:
  assumes "\<And>c. c \<noteq> [] \<Longrightarrow> js_trim c = c \<Longrightarrow> keeps N (f c)"
  shows "keeping N (log_submit (Some \<lparr>ci_placeholder = pl, ci_sendLabel = sl, ci_onSubmit = Some f\<rparr>))"
proof -
  have "page_ok N ((f (js_trim (pg_cmd g)) g)\<lparr>pg_cmd := []\<rparr>)" if "page_ok N g" "js_trim (pg_cmd g) \<noteq> []" for g
    using assms [of "js_trim (pg_cmd g)"] that by (auto simp: keeps_def intro: page_ok_cong)
  then show ?thesis
    by (auto simp: keeping_def keeps_def log_submit_def submitCommand_def hasCommandInput_def Let_def intro: page_ok_cong)
qed

lemma handled_log_bar:
  assumes "\<And>c. c \<noteq> [] \<Longrightarrow> js_trim c = c \<Longrightarrow> keeps N (f c)"
  shows "handled (keeping N) (LogPanel (Some \<lparr>ci_placeholder = pl, ci_sendLabel = sl, ci_onSubmit = Some f\<rparr>) c g)"
  using keeping_submit [of N f, OF assms]
  by (simp add: LogPanel_def LogEntries_def Let_def command_bar_def handled_map keeping_rules split: log_body.split)

lemma handled_hint [keeping_rules]: "handled (keeping N) (HintCard_tree g)"
  by (simp add: HintCard_tree_def Let_def handled_map keeping_rules split_def)

lemma handled_edge [keeping_rules]: "handled (keeping N) (AnimatedEdge ep e g)"
  by (simp add: AnimatedEdge_def Let_def handled_map keeping_rules)

lemma handled_canvas:
  assumes "case selected of None \<Rightarrow> True | Some f \<Rightarrow> keeps N f" "case tapped of None \<Rightarrow> True | Some f \<Rightarrow> keeps N f"
  shows "handled (keeping N) (ClusterView ep selected tapped k g)"
  using assms by (simp add: ClusterView_def Let_def handled_map keeping_rules)

lemma handled_bar_panel [keeping_rules]: "handled (keeping N) [bar_panel_tree p b]"
  by (cases b) (simp_all add: bar_panel_tree_def Let_def handled_map keeping_rules)

lemma handled_bar [keeping_rules]: "handled (keeping N) (ControlPanel g)"
  by (simp add: ControlPanel_def Let_def handled_map keeping_rules bar_btn_def)

lemma handled_fab [keeping_rules]: "handled (keeping N) (MobileFab g)"
proof -
  have "handled (keeping N) (fab_panel_tree f)" for f
    by (cases f) (simp_all add: fab_panel_tree_def Let_def keeping_rules)
  then show ?thesis
    by (simp add: MobileFab_def Let_def handled_map handled_concat keeping_rules fab_button_def split: prod.split)
qed

lemma handled_drawer:
  assumes "\<And>c. c \<noteq> [] \<Longrightarrow> js_trim c = c \<Longrightarrow> keeps N (f c)"
  shows "handled (keeping N) (MobileDrawer px f g)"
  using handled_log_bar [OF assms]
  by (simp add: MobileDrawer_def Let_def handled_map keeping_rules tab_btn_def split: prod.split)

lemma keeps_command:
  assumes "c \<noteq> []" "js_trim c = c"
  shows "keeps N (send_command c)"
proof -
  have "page_ok N (with_hook (sendClientCommand (Some c) (pg_hook g)) g)" if ok: "page_ok N g" for g
  proof -
    have "hook_ok N (sendClientCommand (Some c) (pg_hook g))"
      using ok assms conn_ok_step [of "pg_hook g" "SendClientCommand (Some c)"]
      by (auto simp: page_ok_def hook_ok_def sendClientCommand_def nullish_def message_ok_def split: option.split)
    moreover have "h_store (sendClientCommand (Some c) (pg_hook g)) = pg_store g"
      "disposedRef (sendClientCommand (Some c) (pg_hook g)) = disposedRef (pg_hook g)"
      using ok by (simp_all add: page_ok_def sendClientCommand_def split: option.split)
    ultimately show ?thesis using ok by (simp add: page_ok_def with_hook_def)
  qed
  then show ?thesis by (simp add: keeps_def send_command_def)
qed

lemma handled_demo:
  assumes "keeps N back"
  shows "handled (keeping N) (LiveDemoApp ep px back g)"
  using assms
  by (simp add: LiveDemoApp_def Let_def handled_map keeping_rules handled_canvas keeps_shell handled_drawer keeps_command
      keeping_tap keeping_click)

lemma handled_landing:
  assumes "keeps N start"
  shows "handled (keeping N) (IntroLanding start g)"
  using assms
  by (simp add: IntroLanding_def Let_def handled_map keeping_rules keeping_tap nav_button_def chapter_section_def split_def)

section \<open>The page\<close>

lemma page_ok_hook_step:
  assumes "page_ok N g" "hook_event_ids N e" "disposedRef (hook_step e (pg_hook g)) = (\<not> started (pg_app g'))"
    and "case e of SendFault _ _ _ _ \<Rightarrow> False | SendClientCommand _ \<Rightarrow> False | _ \<Rightarrow> True"
    and "pg_panel g' = pg_panel g" "refit_ok (pg_app g')"
  shows "page_ok N (with_hook (hook_step e (pg_hook g)) g')"
proof -
  have h: "hook_ok N (hook_step e (pg_hook g))"
    using assms(1) by (intro hook_ok_step [OF _ assms(2,4)]) (simp add: page_ok_def)
  have "store_ok N (h_store (hook_step e (pg_hook g)))"
    using assms(1,2) by (intro hook_step_store) (auto simp: page_ok_def ui_ok_store_ok hook_ok_def split: option.split)
  moreover have "list_all (\<lambda>f. fault_ok f \<and> fault_ids N f) (outbox (pg_panel g))"
    using assms(1) by (simp add: page_ok_def ui_ok_def)
  ultimately show ?thesis using assms(3,5,6) h by (simp add: page_ok_def with_hook_def ui_ok_store_ok)
qed

lemma keeps_start: "keeps N start_demo"
proof -
  have "page_ok N (start_demo g)" if ok: "page_ok N g" for g
  proof (cases "started (pg_app g)")
    case False
    with ok have d: "disposedRef (pg_hook g)" by (simp add: page_ok_def)
    have a: "refit_ok (app_step (Start_clicked (pg_narrow g)) (pg_app g))"
      using ok by (intro refit_ok_step) (simp add: page_ok_def)
    have "started (app_step (Start_clicked (pg_narrow g)) (pg_app g))"
      using False by (simp add: onStart_def refit_effect_def mount_demo_def)
    with d a False show ?thesis
      unfolding start_demo_def
      by (simp del: hook_step.simps app_step.simps)
        (rule page_ok_hook_step [OF ok]; simp add: hook_event_ids_def mount_def connect_def upd_h_def)
  qed (use ok in \<open>simp add: start_demo_def\<close>)
  then show ?thesis by (simp add: keeps_def)
qed

lemma keeps_leave: "keeps N leave_demo"
proof -
  have "page_ok N (leave_demo g)" if ok: "page_ok N g" for g
  proof (cases "started (pg_app g)")
    case True
    with ok have d: "\<not> disposedRef (pg_hook g)" by (simp add: page_ok_def)
    have a: "refit_ok (app_step Back_clicked (pg_app g))"
      using ok by (intro refit_ok_step) (simp add: page_ok_def)
    have "\<not> started (app_step Back_clicked (pg_app g))" by (simp add: onBack_def)
    with d a True show ?thesis
      unfolding leave_demo_def
      by (simp del: hook_step.simps app_step.simps)
        (rule page_ok_hook_step [OF ok]; simp add: hook_event_ids_def unmount_def ws_close_def upd_h_def set_socket_def Let_def split: option.split)
  qed (use ok in \<open>simp add: leave_demo_def\<close>)
  then show ?thesis by (simp add: keeps_def)
qed

lemma handled_app: "handled (keeping N) (App ep px g)"
  by (simp add: App_def handled_landing handled_demo keeps_start keeps_leave)

lemma page_ok_settle: "page_ok N g \<Longrightarrow> page_ok N (settle g)"
  by (simp add: page_ok_def settle_def Let_def ui_ok_def)

lemma browser_event_disposed: "browser_event e \<Longrightarrow> disposedRef (hook_step e h) = disposedRef h"
  by (cases e) (auto simp: browser_event_def hook_defs Let_def split: option.splits ws_data.splits)

lemma page_ok_event:
  assumes ok: "page_ok N g" and ids: "page_event_ids N e"
  shows "page_ok N (page_event_step ep px e g)"
proof (cases e)
  case (Fire n name a)
  show ?thesis
  proof (rule fire_cases [OF handled_app [of N ep px g], of n name a g])
    show "fire (App ep px g) n name a g = g \<Longrightarrow> ?thesis" using ok by (simp add: Fire)
  next
    fix h assume "keeping N h" "fire (App ep px g) n name a g = h a g"
    then show ?thesis using ok by (simp add: Fire keeping_def keeps_def)
  qed
next
  case (Key_down k)
  have "page_ok N (on_panel (onKeyDown k) No_arg g)" "page_ok N (on_panel (fab_onKeyDown k) No_arg g)"
    using ok keeps_panel [OF bar_ops(8)] keeps_panel [OF fab_ops(4)] by (auto simp: keeps_def)
  with ok show ?thesis by (simp add: Key_down)
next
  case (Mouse_down b)
  have "page_ok N (on_panel (onDown b) No_arg g)"
    using ok keeps_panel [OF bar_ops(9)] by (auto simp: keeps_def)
  with ok show ?thesis by (simp add: Mouse_down)
next
  case (Query m)
  let ?a = "app_step (Media_changed m) (pg_app g)"
  have a: "refit_ok ?a" using ok by (intro refit_ok_step) (simp add: page_ok_def)
  show ?thesis
  proof (cases "started (pg_app g)")
    case True
    have "disposedRef (hook_step (MediaChange m) (pg_hook g)) = (\<not> started ?a)"
      using ok by (simp add: page_ok_def syncMobile_def rendered_def refit_effect_def sync_mobile_def)
    then have "page_ok N (with_hook (hook_step (MediaChange m) (pg_hook g)) (g\<lparr>pg_narrow := m, pg_app := ?a\<rparr>))"
      by (intro page_ok_hook_step [OF ok]) (simp_all add: hook_event_ids_def a del: hook_step.simps app_step.simps)
    with True show ?thesis by (simp add: Query)
  next
    case False
    with a ok show ?thesis by (simp add: Query page_ok_def)
  qed
next
  case (Browser he)
  show ?thesis
  proof (cases "browser_event he")
    case True
    have "page_ok N (with_hook (hook_step he (pg_hook g)) g)"
      using ids ok True browser_event_disposed [OF True, of "pg_hook g"]
      by (intro page_ok_hook_step [OF ok])
        (auto simp: Browser page_event_ids_def page_ok_def browser_event_def split: hook_event.splits)
    with True show ?thesis by (simp add: Browser)
  qed (use ok in \<open>simp add: Browser\<close>)
next
  case (Refit_timer t)
  show ?thesis unfolding Refit_timer page_event_step.simps by (rule page_ok_app [OF ok]) (rule app_started)
qed (use ok in \<open>simp_all add: page_ok_def\<close>)

lemma page_ok_run:
  "page_ok N g \<Longrightarrow> list_all (page_event_ids N) es \<Longrightarrow> page_ok N (page_run ep px es g)"
  unfolding page_run_def page_step_def
  by (induction es arbitrary: g) (simp_all add: page_ok_settle page_ok_event)

lemma page_ok_init: "page_ok N (page_init narrow vh key ls)"
proof -
  have "refit_ok app_init" by (simp add: refit_ok_def app_init_def)
  moreover have "\<not> started app_init" by (simp add: app_init_def)
  moreover have "pn_store (init_panel ls) = init_store ls" by (simp add: init_panel_def)
  ultimately show ?thesis
    by (simp add: page_ok_def page_init_def ui_ok_init hook_ok_def conn_ok_def left_behind_def)
      (simp add: init_store_def)
qed

end
