(* ===== verification/Page_Claims.thy ===== *)
theory Page_Claims
  imports Page_Invariant
begin

text \<open>
  What the composition of the components guarantees: every message that a page ever sends is well
  formed, the store, the hook and the shell agree, and a click on a rendered control arrives at the
  socket.
\<close>

section \<open>Firing a rendered element\<close>

lemma nodes_of_self: "El tag cls attrs ons kids \<in> set (nodes_of (El tag cls attrs ons kids))"
  by simp

lemma fire_rendered:
  assumes "El tag cls attrs ons kids \<in> set (all_nodes ms)" "map_of ons name = Some h" "map_of attrs ''disabled'' = None"
  obtains n where "\<And>a g. fire ms n name a g = h a g"
proof -
  obtain n where n: "n < length (all_nodes ms)" "all_nodes ms ! n = El tag cls attrs ons kids"
    using assms(1) by (metis in_set_conv_nth)
  have "fire ms n name a g = h a g" for a g
    using n assms(2,3) by (simp add: fire_def Let_def disabled_def)
  then show ?thesis by (rule that)
qed

lemma start_button:
  "El ''button'' ''demoBtn'' [] [(''onPointerDown'', handleFastTap s)] [Txt (cp ''Demo '' @ [8594])] \<in> set (all_nodes (IntroLanding s g))"
  by (simp add: IntroLanding_def Let_def)

lemma kill_button:
  "\<exists>cls lab. El ''button'' cls [] [(''onClick'', on_panel (startAction MKill))] [Txt lab] \<in> set (all_nodes (ControlPanel g))"
proof -
  let ?am = "actionMode (pg_store g)" and ?t = "controlCopy (pg_lang g)"
  have "El ''button'' (cls2 (cls2 ''btn'' ''btnKill'') (if ?am = Some MKill then ''btnActiveDanger'' else [])) []
      [(''onClick'', on_panel (startAction MKill))] [Txt (if ?am = Some MKill then cc_killSelecting ?t else cc_killNode ?t)]
      \<in> set (all_nodes (ControlPanel g))"
    by (simp add: ControlPanel_def Let_def bar_btn_def)
  then show ?thesis by blast
qed

lemma all_nodes_kids: "m \<in> set (all_nodes kids) \<Longrightarrow> m \<in> set (nodes_of (El tag cls attrs ons kids))"
  by (simp add: all_nodes_def)

lemma desktop_parts:
  assumes "in_desktop g"
  shows "set (all_nodes (ControlPanel g)) \<subseteq> set (all_nodes (App ep px g))"
    "set (all_nodes (ClusterView ep None None 0 g)) \<subseteq> set (all_nodes (App ep px g))"
  using assms by (auto simp: App_def LiveDemoApp_def Let_def in_desktop_def all_nodes_def)

lemma canvas_element:
  "\<exists>kids. El ''ReactFlow'' [] flow_props [(''onNodeClick'', canvas_node_click sel), (''onPaneClick'', canvas_pane_click tap)] kids
     \<in> set (all_nodes (ClusterView ep sel tap k g))"
  by (simp add: ClusterView_def Let_def ex_disj_distrib)

lemma flow_enabled: "map_of flow_props ''disabled'' = None"
  by (simp add: flow_props_def)

text \<open>The page fires both, in the desktop layout.\<close>

lemma fire_kill_button:
  assumes "in_desktop g"
  obtains n where "\<And>a. fire (App ep px g) n ''onClick'' a g = on_panel (startAction MKill) a g"
proof -
  obtain cls lab where "El ''button'' cls [] [(''onClick'', on_panel (startAction MKill))] [Txt lab] \<in> set (all_nodes (App ep px g))"
    using kill_button [of g] desktop_parts(1) [OF assms] by blast
  then show ?thesis by (rule fire_rendered [where name = "''onClick''"]) (simp, simp, blast intro: that)
qed

lemma fire_canvas_click:
  assumes "in_desktop g"
  obtains n where "\<And>a. fire (App ep px g) n ''onNodeClick'' a g = canvas_node_click None a g"
proof -
  obtain kids where "El ''ReactFlow'' [] flow_props [(''onNodeClick'', canvas_node_click None), (''onPaneClick'', canvas_pane_click None)] kids
     \<in> set (all_nodes (App ep px g))"
    using canvas_element [of None None ep 0 g] desktop_parts(2) [OF assms] by blast
  then show ?thesis by (rule fire_rendered [where name = "''onNodeClick''"]) (simp, simp add: flow_enabled, blast intro: that)
qed

text \<open>Settling after an event of the control panel leaves what the panel and the hook hold.\<close>

lemma settle_sel [simp]:
  "pg_app (settle g) = pg_app g" "pg_hook (settle g) = pg_hook g" "pg_store (settle g) = pg_store g"
  "outbox (pg_panel (settle g)) = outbox (pg_panel g)" "in_desktop (settle g) = in_desktop g"
  by (simp_all add: settle_def Let_def in_desktop_def)

lemma with_panel_sel [simp]:
  "pg_app (with_panel p g) = pg_app g" "pg_panel (with_panel p g) = p" "in_desktop (with_panel p g) = in_desktop g"
  by (simp_all add: with_panel_def in_desktop_def)

lemma ws_open_store [simp]: "ws_open (h\<lparr>h_store := s\<rparr>) = ws_open h"
  by (cases "wsRef h") (simp_all add: ws_open_def)

lemma start_kill:
  assumes "actionMode (pg_store g) \<noteq> Some MKill"
  shows "let g1 = settle (on_panel (startAction MKill) a g)
    in actionMode (pg_store g1) = Some MKill \<and> nodes (pg_store g1) = nodes (pg_store g) \<and>
       sent_out (pg_hook g1) = sent_out (pg_hook g) \<and> ws_open (pg_hook g1) = ws_open (pg_hook g) \<and>
       sendFault_set (pg_store g1) = sendFault_set (pg_store g) \<and> in_desktop g1 = in_desktop g"
proof -
  have new: "drop (length (outbox (pg_panel g))) (outbox (startAction MKill (pg_panel g))) = []"
    using assms by (simp add: startAction_def upd_store_def)
  have "on_panel (startAction MKill) a g =
      g\<lparr>pg_panel := startAction MKill (pg_panel g), pg_hook := (pg_hook g)\<lparr>h_store := pn_store (startAction MKill (pg_panel g))\<rparr>\<rparr>"
    by (simp only: on_panel_def with_panel_def new) (simp add: send_new_def)
  with assms show ?thesis
    by (simp add: startAction_def Let_def upd_store_def beginAction_def in_desktop_def)
qed

lemma find_by_id: "distinct (map n_id ns) \<Longrightarrow> node \<in> set ns \<Longrightarrow> find (\<lambda>n. n_id n = n_id node) ns = Some node"
  by (induction ns) (auto simp: image_iff)

lemma click_kills:
  assumes "actionMode (pg_store g) = Some MKill" "sendFault_set (pg_store g)" "ws_open (pg_hook g) = Some k"
    and "node \<in> set (nodes (pg_store g))" "n_alive node" "distinct (map n_id (nodes (pg_store g)))"
    and "js_number s = n_id node"
  shows "sent_out (pg_hook (settle (canvas_node_click None (Value s) g))) =
     sent_out (pg_hook g) @ [(k, FAULT_INJECT \<lparr>f_action = ''kill'', f_targets = [n_id node], f_groups = [], f_command = []\<rparr>)]"
proof -
  let ?f = "\<lparr>f_action = ''kill'', f_targets = [n_id node], f_groups = [], f_command = []\<rparr>"
  have "find (\<lambda>n. n_id n = n_id node) (nodes (pg_store g)) = Some node"
    by (rule find_by_id [OF assms(6,4)])
  moreover have "handleActionClick node (pg_panel g) = (True, upd_store cancelAction (send_fault ''kill'' [n_id node] [] [] (pg_panel g)))"
    using assms(1,5) by (simp add: handleActionClick_def Let_def)
  ultimately have click: "canvas_node_click None (Value s) g = with_panel (upd_store cancelAction (send_fault ''kill'' [n_id node] [] [] (pg_panel g))) g"
    using assms(7) by (simp add: canvas_node_click_def)
  have new: "drop (length (outbox (pg_panel g))) (outbox (upd_store cancelAction (send_fault ''kill'' [n_id node] [] [] (pg_panel g)))) = [?f]"
    using assms(2) by (simp add: upd_store_def send_fault_def)
  show ?thesis
    unfolding click settle_sel with_panel_def new using assms(3) by (simp add: send_new_def sendFault_def nullish_def)
qed

section \<open>Properties\<close>

text \<open>
  C25: The composed page: whatever the user does with the elements that are rendered, whatever keys,
  timers, layout changes and socket events come, and for snapshots that name the nodes 0 to N-1: every
  message that went out through a socket is a well-formed fault that names only these nodes or a
  trimmed non-empty command; all components see one store; the hook is mounted and the store's two
  send functions are set exactly while the demo is shown, and without it there is no socket in use, no
  reconnect timer, no flush timer and no refit timer, and there is never more than one refit timer.
\<close>

theorem page_composition:
  assumes "list_all (page_event_ids N) es"
  shows "let g = page_run ep px es (page_init narrow vh key ls); h = pg_hook g; demo = started (pg_app g)
    in list_all (\<lambda>(k, m). message_ok N m) (sent_out h) \<and> h_store h = pg_store g \<and> disposedRef h = (\<not> demo) \<and>
       sendFault_set (pg_store g) = demo \<and> sendClientCommand_set (pg_store g) = demo \<and>
       (if demo then True else wsRef h = None \<and> connectTimers h = [] \<and> \<not> stateFlushTimer h \<and> fitTimers (pg_app g) = []) \<and>
       length (fitTimers (pg_app g)) \<le> 1"
proof -
  define g where "g = page_run ep px es (page_init narrow vh key ls)"
  have ok: "page_ok N g" unfolding g_def by (rule page_ok_run [OF page_ok_init assms])
  then have fit: "length (fitTimers (pg_app g)) \<le> 1" "\<not> started (pg_app g) \<Longrightarrow> fitTimers (pg_app g) = []"
    by (auto simp: page_ok_def refit_ok_def split: option.splits)
  have off: "\<not> started (pg_app g) \<Longrightarrow> wsRef (pg_hook g) = None \<and> connectTimers (pg_hook g) = [] \<and> \<not> stateFlushTimer (pg_hook g)"
    using ok by (simp add: page_ok_def hook_ok_def conn_ok_def)
  have set: "sendFault_set (pg_store g) = started (pg_app g)" "sendClientCommand_set (pg_store g) = started (pg_app g)"
    using ok by (auto simp: page_ok_def hook_ok_def conn_ok_def)
  have "list_all (\<lambda>(k, m). message_ok N m) (sent_out (pg_hook g)) \<and> h_store (pg_hook g) = pg_store g \<and>
      disposedRef (pg_hook g) = (\<not> started (pg_app g))"
    using ok by (simp add: page_ok_def hook_ok_def)
  with fit off set show ?thesis unfolding g_def [symmetric] Let_def by auto
qed


section \<open>Witnesses\<close>

text \<open>A demo that has been started, connected and sent a snapshot of two nodes.\<close>

definition witness_snapshot :: payload where
  "witness_snapshot = \<lparr>p_nodes = Some [demo_node 0, demo_node 1], p_inFlight = None\<rparr>"

definition witness_events :: "page_event list" where
  "witness_events = [Browser (Opened 0), Browser (Message_received 0 [] [] (STATE_UPDATE (Some witness_snapshot)))]"

definition witness_page :: page where
  "witness_page = page_run (\<lambda>_. []) (\<lambda>_. []) witness_events (settle (start_demo (page_init False 800 None (\<lambda>_. None))))"

lemma witness_page_facts:
  "in_desktop witness_page" "sendFault_set (pg_store witness_page)" "ws_open (pg_hook witness_page) = Some 0"
  "actionMode (pg_store witness_page) = None" "sent_out (pg_hook witness_page) = []"
  "map n_id (nodes (pg_store witness_page)) = [0, 1]" "map n_alive (nodes (pg_store witness_page)) = [True, True]"
  by code_simp+


text \<open>The first click starts the demo.\<close>

lemma witness_start: "fire (App ep px (page_init n vh k ls)) 10 ''onPointerDown'' a (page_init n vh k ls) = start_demo (page_init n vh k ls)"
  by (simp add: App_def page_init_def app_init_def IntroLanding_def Let_def fire_def disabled_def handleFastTap_def)

lemma page_composition_witness:
  "let g = page_run (\<lambda>_. []) (\<lambda>_. []) (Fire 10 ''onPointerDown'' No_arg # witness_events) (page_init False 800 None (\<lambda>_. None))
   in started (pg_app g) \<and> ws_open (pg_hook g) = Some 0 \<and> sendFault_set (pg_store g) \<and>
      list_all (\<lambda>(k, m). message_ok 2 m) (sent_out (pg_hook g)) \<and> length (fitTimers (pg_app g)) \<le> 1"
proof -
  have ids: "list_all (page_event_ids 2) (Fire 10 ''onPointerDown'' No_arg # witness_events)" by code_simp
  have run: "page_run (\<lambda>_. []) (\<lambda>_. []) (Fire 10 ''onPointerDown'' No_arg # witness_events) (page_init False 800 None (\<lambda>_. None)) = witness_page"
    by (simp add: witness_page_def page_run_def page_step_def witness_start)
  have "started (pg_app witness_page)" using witness_page_facts(1) by (simp add: in_desktop_def)
  with page_composition [OF ids, of "\<lambda>_. []" "\<lambda>_. []" False 800 None "\<lambda>_. None"] witness_page_facts(2,3)
  show ?thesis unfolding run by (simp add: Let_def)
qed

end
