(* ===== verification/Page_Access.thy ===== *)
theory Page_Access
  imports Page_System
begin

text \<open>
  What holds of every tree that the page renders, whatever the state: each button has a name and
  does something, and a page in English shows no Chinese character.
\<close>

section \<open>A condition on all nodes of a tree\<close>

definition each :: "('h markup \<Rightarrow> bool) \<Rightarrow> 'h markup list \<Rightarrow> bool" where
  "each P ms \<longleftrightarrow> (\<forall>m \<in> set (all_nodes ms). P m)"

lemma each_simps [simp]:
  "each P []" "each P (ms @ ns) = (each P ms \<and> each P ns)"
  "each P (Txt t # ms) = (P (Txt t) \<and> each P ms)"
  "each P (El tag cls attrs ons kids # ms) = (P (El tag cls attrs ons kids) \<and> each P kids \<and> each P ms)"
  by (simp_all add: each_def ball_Un all_nodes_def conj_ac)

lemma each_map: "each P (map f xs) = (\<forall>x \<in> set xs. each P [f x])"
  by (simp add: each_def all_nodes_def)

lemma each_concat: "each P (concat mss) = (\<forall>ms \<in> set mss. each P ms)"
  by (induction mss) simp_all

lemma each_map2: "each P (map2 f xs ys) = (\<forall>z \<in> set (zip xs ys). each P [f (fst z) (snd z)])"
  by (simp add: each_map split_def)

lemma each_shown_if [simp]: "each P (shown_if b ms) = (b \<longrightarrow> each P ms)"
  by (simp add: shown_if_def)

lemmas each_rules = each_map each_concat

section \<open>Names of buttons\<close>

text \<open>A button is named, and it has a handler or submits the form it stands in.\<close>

definition usable :: "'h markup \<Rightarrow> bool" where
  "usable m \<longleftrightarrow> tag_of m \<noteq> ''button'' \<or>
     accessible_name m \<noteq> [] \<and> (handlers m \<noteq> [] \<or> attr ''type'' m = Some (cp ''submit''))"

lemma usable_simps [simp]:
  "usable (Txt t)" "tag \<noteq> ''button'' \<Longrightarrow> usable (El tag cls attrs ons kids)"
  "usable (El ''button'' cls attrs ons kids) =
     ((case map_of attrs ''aria-label'' of Some a \<Rightarrow> a \<noteq> [] | None \<Rightarrow> concat (map text_of kids) \<noteq> []) \<and>
      (ons \<noteq> [] \<or> map_of attrs ''type'' = Some (cp ''submit'')))"
  by (auto simp: usable_def accessible_name_def split: option.split)

lemma cp_Nil [simp]: "cp s = [] \<longleftrightarrow> s = []"
  by (simp add: cp_def)

lemma copy_nonempty:
  "cc_tutorialClose (controlCopy l) \<noteq> []" "cc_send (controlCopy l) \<noteq> []" "cc_cancel (controlCopy l) \<noteq> []"
  "cc_confirmGroupA (controlCopy l) \<noteq> []" "cc_confirmPartition (controlCopy l) \<noteq> []" "cc_submitCmd (controlCopy l) \<noteq> []"
  "cc_tutorial (controlCopy l) \<noteq> []" "cc_killSelecting (controlCopy l) \<noteq> []" "cc_killNode (controlCopy l) \<noteq> []"
  "cc_restart (controlCopy l) \<noteq> []" "cc_partition (controlCopy l) \<noteq> []" "cc_heal (controlCopy l) \<noteq> []"
  by (simp_all add: controlCopy_def)

lemma app_copy_nonempty:
  "ac_langToggle (appCopy l) \<noteq> []" "ac_back (appCopy l) \<noteq> []" "ac_eventLogToggle (appCopy l) \<noteq> []"
  by (simp_all add: appCopy_def)

lemma each_text [simp]:
  "each usable (NodeStats_tree node l)" "each usable (StatusPill_tree w l b)" "each usable (EventStream b s)"
  "each usable [tutorial_section sec]" "each usable (MobileTutorial t)" "each usable [header_stat_tree h]" "each usable [log_row r]"
  "each usable [body_tree b']" "each usable (title_line tx d b lc # ms) = each usable ms" "each usable (NodeCard data s)"
  "each usable (AnimatedEdge ep e g)"
proof -
  show sec: "each usable [tutorial_section sec]" for sec
    by (simp add: tutorial_section_def each_map2 tutorial_item_tree_def split: tutorial_item.split)
  then show "each usable (MobileTutorial t)" by (simp add: MobileTutorial_def Let_def each_rules)
  show "each usable (NodeStats_tree node l)"
    by (simp add: NodeStats_tree_def Let_def stat_cell_def split: option.split)
  show "each usable (StatusPill_tree w l b)" by (simp add: StatusPill_tree_def split: prod.split)
  show "each usable (EventStream b s)" by (simp add: EventStream_def Let_def each_rules stream_row_def)
  show "each usable [header_stat_tree h]" by (simp add: header_stat_tree_def)
  show "each usable [log_row r]" by (simp add: log_row_def split: prod.split)
  show "each usable [body_tree b']" by (simp add: body_tree_def split: body_span.split)
  show "each usable (title_line tx d b lc # ms) = each usable ms"
    by (simp add: title_line_def Let_def each_map2 title_span_def char_span_def split: title_node.split prod.split)
  show "each usable (NodeCard data s)" by (simp add: NodeCard_def Handle_def split: option.split)
  show "each usable (AnimatedEdge ep e g)" by (simp add: AnimatedEdge_def Let_def each_rules)
qed

lemma usable_parts:
  "each usable (HintCard_tree g)" "each usable (ControlPanel g)" "each usable (MobileFab g)" "each usable (LogPanel None c g)"
  "each usable (LogPanel (Some \<lparr>ci_placeholder = pl, ci_sendLabel = Some (cp ''send''), ci_onSubmit = f\<rparr>) c g)"
proof -
  show "each usable (HintCard_tree g)" by (simp add: HintCard_tree_def Let_def each_rules split_def)
  have "each usable [bar_panel_tree p b]" for p b
    by (cases b) (simp_all add: bar_panel_tree_def Let_def each_rules copy_nonempty)
  then show "each usable (ControlPanel g)"
    by (simp add: ControlPanel_def Let_def bar_btn_def each_rules copy_nonempty)
  have "each usable (fab_panel_tree f)" for f
    by (cases f) (simp_all add: fab_panel_tree_def Let_def)
  moreover have "each usable [fab_button x]" if "x \<in> set (fab_stack (pg_panel g))" for x
    using that by (auto simp: fab_stack_def fab_actions_def fab_button_def)
  ultimately show "each usable (MobileFab g)"
    by (simp add: MobileFab_def Let_def each_rules)
  show "each usable (LogPanel None c g)"
    "each usable (LogPanel (Some \<lparr>ci_placeholder = pl, ci_sendLabel = Some (cp ''send''), ci_onSubmit = f\<rparr>) c g)"
    by (simp_all add: LogPanel_def LogEntries_def Let_def command_bar_def each_rules split: log_body.split)
qed

lemma usable_canvas: "each usable (ClusterView ep sel tap k g)"
  by (simp add: ClusterView_def Let_def each_rules usable_parts)

lemma usable_drawer: "each usable (MobileDrawer px f g)"
  by (simp add: MobileDrawer_def Let_def each_rules usable_parts tab_btn_def tab_buttons_def handle_text_def)

lemma usable_demo: "each usable (LiveDemoApp ep px back g)"
  by (simp add: LiveDemoApp_def Let_def each_rules usable_parts usable_canvas usable_drawer app_copy_nonempty)

lemma usable_landing: "each usable (IntroLanding start g)"
proof -
  have "each usable [nav_button x]" if "x \<in> set (navItems b l i)" for x b l i
    using that by (auto simp: navItems_def nav_button_def CHAPTERS_def chapter_defs split: if_splits)
  then show ?thesis
    by (simp add: IntroLanding_def Let_def each_rules chapter_section_def)
qed

section \<open>Language\<close>

text \<open>Text without a character of the CJK blocks; what a node of the tree shows or reads out.\<close>

definition western :: "label \<Rightarrow> bool" where
  "western t \<longleftrightarrow> list_all (\<lambda>c. c < 11904) t"

fun western_node :: "'h markup \<Rightarrow> bool" where
  "western_node (Txt t) = western t"
| "western_node (El tag cls attrs ons kids) =
     ((case map_of attrs ''aria-label'' of None \<Rightarrow> True | Some t \<Rightarrow> western t) \<and>
      (case map_of attrs ''placeholder'' of None \<Rightarrow> True | Some t \<Rightarrow> western t))"

lemma western_simps [simp]:
  "western []" "western (c # t) = (c < 11904 \<and> western t)" "western (t @ u) = (western t \<and> western u)" "western (cp s)"
proof -
  have "(of_char c :: nat) < 256" for c by (rule nat_of_char_less_256)
  then have "(of_char c :: nat) < 11904" for c by (rule less_trans) simp
  then show "western (cp s)" by (simp add: western_def cp_def list_all_iff)
qed (simp_all add: western_def)

lemma western_copies:
  "western (ac_back (appCopy ''en''))" "western (ac_title (appCopy ''en''))" "western (ac_sub (appCopy ''en''))"
  "western (ac_leader (appCopy ''en''))" "western (ac_node (appCopy ''en''))" "western (ac_term (appCopy ''en''))"
  "western (ac_alive (appCopy ''en''))" "western (ac_eventLogToggle (appCopy ''en''))" "western (ac_langToggle (appCopy ''en''))"
  "western (ec_title (eventCopy ''en''))" "western (ec_empty (eventCopy ''en''))"
  "western (lc_nodeStats (logCopy ''en''))" "western (lc_role (logCopy ''en''))" "western (lc_term (logCopy ''en''))"
  "western (lc_commit (logCopy ''en''))" "western (lc_votedFor (logCopy ''en''))" "western (lc_clickNode (logCopy ''en''))"
  "western (lc_logEntries (logCopy ''en''))" "western (lc_noEntries (logCopy ''en''))"
  by (simp_all add: appCopy_def eventCopy_def logCopy_def isZh_def)

definition item_texts :: "tutorial_item \<Rightarrow> label list" where
  "item_texts i = (case i of Command_item c d \<Rightarrow> [c, d] | Step_item k t \<Rightarrow> [t] | Line_item t \<Rightarrow> [t])"

lemma western_section:
  assumes "western (fst sec)" "list_all (\<lambda>i. list_all western (item_texts i)) (snd sec)"
  shows "each western_node [tutorial_section sec]"
proof -
  have "each western_node [tutorial_item_tree k i]" if "i \<in> set (snd sec)" for k i
    using assms(2) that
    by (auto simp: list_all_iff tutorial_item_tree_def item_texts_def split: tutorial_item.splits)
  then show ?thesis using assms(1)
    by (auto simp: tutorial_section_def each_map2 elim: in_set_zipE)
qed

lemma western_tutorial_texts:
  "western (fst sec) \<and> list_all (\<lambda>i. list_all western (item_texts i)) (snd sec)"
  if "sec \<in> set (tu_sections (bar_tutorial (controlCopy ''en'')))"
proof -
  have steps: "list_all (\<lambda>i. list_all western (item_texts i)) (map2 (\<lambda>i line. Step_item (i + 1) line) ks ts)"
    if "list_all western ts" for ks ts
    using that by (auto simp: list_all_iff item_texts_def elim: in_set_zipE)
  have "list_all western (cc_tutorialHowItems (controlCopy ''en''))"
    by (simp add: controlCopy_def isZh_def)
  note steps [OF this]
  with that show ?thesis
    by (auto simp: bar_tutorial_def) (auto simp: controlCopy_def isZh_def item_texts_def)
qed

lemma western_tutorial:
  "each western_node [tutorial_section sec]" if "sec \<in> set (tu_sections (bar_tutorial (controlCopy ''en'')))"
  using western_section western_tutorial_texts [OF that] by blast

lemma same_tutorial: "mobile_tutorial t = bar_tutorial t"
  by (simp add: mobile_tutorial_def bar_tutorial_def)

lemma western_mobile_tutorial: "each western_node (MobileTutorial (controlCopy ''en''))"
proof -
  have "western (tu_title (bar_tutorial (controlCopy ''en'')))" "western (tu_intro (bar_tutorial (controlCopy ''en'')))"
    by (simp_all add: bar_tutorial_def controlCopy_def isZh_def)
  then show ?thesis using western_tutorial by (simp add: MobileTutorial_def Let_def each_map same_tutorial)
qed

lemma western_stats: "each western_node (NodeStats_tree node ''en'')"
  by (auto simp: NodeStats_tree_def Let_def stat_cell_def western_copies roleLabel_def deadLabel_def isZh_def voted_text_def
      split: option.split voted_label.split)

lemma western_pill: "each western_node (StatusPill_tree w ''en'' b)"
  by (cases w) (simp_all add: StatusPill_tree_def StatusPill_def wsStatusLabel_def isZh_def ws_str_def)

lemma western_stream: "lang s = En \<Longrightarrow> each western_node (EventStream b s)"
  by (simp add: EventStream_def Let_def each_map stream_row_def lang_str_def western_copies)

lemma western_log_rows: "each western_node [log_row r]"
  by (simp add: log_row_def split: prod.split)

lemma western_log:
  assumes "lang (pg_store g) = En"
  shows "each western_node (LogPanel None c g)"
    "each western_node (LogPanel (Some \<lparr>ci_placeholder = Some (cp p), ci_sendLabel = Some (cp q), ci_onSubmit = f\<rparr>) c g)"
  using assms
  by (simp_all add: LogPanel_def LogEntries_def Let_def command_bar_def each_map lang_str_def western_copies western_stats
      western_log_rows split: log_body.split)

lemma western_hint: "lang (pg_store g) = En \<Longrightarrow> each western_node (HintCard_tree g)"
  by (simp add: HintCard_tree_def Let_def lang_str_def hint_title_def hint_legend_def hint_tips_def hint_section_def
      hint_primer_def hint_lang_def)

lemma western_card: "lang s = En \<Longrightarrow> each western_node (NodeCard data s)"
  by (simp add: NodeCard_def Handle_def hiddenHandleStyle_def lang_str_def card_meta_def deadBadgeLabel_def isZh_def split: option.split)

lemma western_edge: "each western_node (AnimatedEdge ep e g)"
  by (simp add: AnimatedEdge_def Let_def each_map)

lemma western_canvas: "lang (pg_store g) = En \<Longrightarrow> each western_node (ClusterView ep sel tap k g)"
  by (simp add: ClusterView_def Let_def each_map western_hint western_card western_edge flow_props_def)

lemma western_ids: "western (ids_or_dash is)"
  by (simp add: ids_or_dash_def)

lemma western_bar_panel: "lang (pn_store p) = En \<Longrightarrow> each western_node [bar_panel_tree p b]"
proof (cases b)
  case TutorialPanel
  assume en: "lang (pn_store p) = En"
  have "western (tu_title (bar_tutorial (controlCopy ''en'')))" "western (tu_intro (bar_tutorial (controlCopy ''en'')))"
    "western (cc_tutorialClose (controlCopy ''en''))"
    by (simp_all add: bar_tutorial_def controlCopy_def isZh_def)
  with en TutorialPanel show ?thesis using western_tutorial
    by (simp add: bar_panel_tree_def Let_def each_map lang_str_def)
qed (simp_all add: bar_panel_tree_def Let_def lang_str_def controlCopy_def isZh_def western_ids)

lemma western_bar: "lang (pg_store g) = En \<Longrightarrow> each western_node (ControlPanel g)"
  by (simp add: ControlPanel_def Let_def bar_btn_def each_map western_bar_panel)
    (simp add: lang_str_def controlCopy_def isZh_def)

lemma western_fab: "each western_node (MobileFab g)"
proof -
  have "each western_node (fab_panel_tree f)" for f
    by (cases f) (simp_all add: fab_panel_tree_def Let_def western_ids)
  then show ?thesis
    by (simp add: MobileFab_def Let_def each_map each_concat fab_button_def split: prod.split)
qed

lemma western_drawer: "lang (pg_store g) = En \<Longrightarrow> each western_node (MobileDrawer px f g)"
  by (simp add: MobileDrawer_def Let_def each_map tab_btn_def tab_buttons_def handle_text_def western_log western_stream
      western_mobile_tutorial lang_str_def split: option.split)

lemma western_demo: "lang (pg_store g) = En \<Longrightarrow> each western_node (LiveDemoApp ep px back g)"
proof -
  assume en: "lang (pg_store g) = En"
  have "each western_node [header_stat_tree st]" if "st \<in> set (header_stats (pg_store g))" for st
    using that en by (auto simp: header_stats_def Let_def lang_str_def header_stat_tree_def western_copies split: option.splits)
  moreover note western_canvas [OF en] western_bar [OF en] western_drawer [OF en] western_log(1) [OF en] western_stream [OF en]
    western_fab western_pill western_copies
  ultimately show ?thesis using en
    by (simp add: LiveDemoApp_def Let_def each_map lang_str_def)
qed

lemma western_split: "western t \<Longrightarrow> list_all western (split_words t)"
proof -
  assume w: "western t"
  have "c \<in> set t" if "x \<in> set (split_words t)" "c \<in> set x" for c x
    using that concat_split_words [of t] by (metis UN_I set_concat)
  with w show ?thesis by (auto simp: western_def list_all_iff)
qed

lemma western_tokens:
  "list_all western ts \<Longrightarrow> list_all (\<lambda>n. western (node_text n)) (render_tokens b k ts)"
  by (induction b k ts rule: render_tokens.induct)
    (auto simp: node_text_def comp_def map_nth)

lemma western_title: "western t \<Longrightarrow> each western_node (title_line t b shown cls # ms) = each western_node ms"
proof -
  assume "western t"
  then have nodes: "list_all (\<lambda>n. western (node_text n)) (renderAnimatedLine t b)"
    unfolding renderAnimatedLine_def by (intro western_tokens western_split)
  have one: "each western_node [title_span t shown k n]" if "western (node_text n)" for k n
  proof (cases n)
    case (Word_span latin cs)
    have "western [fst c]" if "c \<in> set cs" for c
      using \<open>western (node_text n)\<close> that Word_span by (auto simp: node_text_def western_def list_all_iff)
    then show ?thesis
      by (auto simp: Word_span title_span_def char_span_def each_map2 elim!: in_set_zipE)
  qed (use that in \<open>simp add: title_span_def node_text_def\<close>)
  have "each western_node [title_line t b shown cls]"
    using nodes one by (auto simp: title_line_def Let_def each_map2 list_all_iff elim!: in_set_zipE)
  then show ?thesis using each_simps(2) [of western_node "[title_line t b shown cls]" ms] by simp
qed

lemma western_landing: "lang (pg_store g) = En \<Longrightarrow> each western_node (IntroLanding start g)"
proof -
  assume en: "lang (pg_store g) = En"
  have nav: "each western_node [nav_button x]" if "x \<in> set (navItems b ''en'' i)" for x b i
    using that by (auto simp: navItems_def nav_button_def CHAPTERS_def chapter_defs split: if_splits)
  have chapters: "western (ch_titleEn ch) \<and> western (ch_subtitleEn ch) \<and> list_all (\<lambda>b. western (span_text b)) (ch_bodyEn ch)"
    if "ch \<in> set CHAPTERS" for ch
    using that by (auto simp: CHAPTERS_def chapter_defs span_text_def)
  have body: "each western_node (map body_tree bs)" if "list_all (\<lambda>b. western (span_text b)) bs" for bs
    using that by (induction bs) (auto simp: body_tree_def span_text_def split: body_span.splits)
  have "each western_node [chapter_section (pg_landing g) ''en'' ch]" if "ch \<in> set CHAPTERS" for ch
    using chapters [OF that] body
    by (simp add: chapter_section_def Let_def western_title section_of_def)
  with nav en show ?thesis
    by (simp add: IntroLanding_def Let_def each_map lang_str_def headerTitle_def)
qed

text \<open>In Chinese each of the three pages has Chinese text.\<close>

lemma chinese_pages:
  assumes "lang (pg_store g) = Zh"
  shows "\<not> each western_node (IntroLanding start g)" "\<not> each western_node (LiveDemoApp ep px back g)"
  using assms by (simp_all add: IntroLanding_def LiveDemoApp_def Let_def lang_str_def appCopy_def isZh_def)

section \<open>Properties\<close>

text \<open>
  C28: Every button can be used: whatever the state of the page, each button that it renders, on the
  landing page, in the demo on a desktop or on a mobile device, has a name (its label for assistive
  technology or its text) and a handler, or it submits a form.
\<close>

theorem every_button_usable:
  "list_all (\<lambda>b. 0 < length (accessible_name b) \<and> (if handlers b = [] then attr ''type'' b = Some (cp ''submit'') else True))
     (buttons (App ep px g))"
proof -
  have "each usable (App ep px g)" by (simp add: App_def usable_landing usable_demo)
  then show ?thesis by (auto simp: each_def buttons_def list_all_iff usable_def)
qed


end
