(* ===== verification/Hub.thy ===== *)
theory Hub
  imports Fault_UI Raft_Simulation
begin

text \<open>
  The server around the cluster: \<open>backend/ws/hub.go\<close> (clients and their send buffers),
  \<open>backend/ws/handler.go\<close> (what becomes of a message read from a client) and
  \<open>backend/main.go\<close> (the cluster manager and the fault loop). A lifecycle hook runs after the
  hub's lock is released, so it is a task of its own: \<open>tasks\<close> are the hook calls under way,
  and \<open>StopIfNoClients\<close> is two, its test and its \<open>Stop\<close>. A step is \<open>None\<close> where the server
  panics.
\<close>

section \<open>hub.go\<close>

datatype task = EnsureRunning_call | StopIfNoClients_call | Stop_call

text \<open>A client is its number; \<open>clients\<close> maps it to what is in its \<open>send\<close> channel.\<close>

record server =
  clients :: "(nat \<times> ClusterSnapshot list) list"
  FaultCh :: "fault list"
  srv_cluster :: "cluster option"
  tasks :: "task list"

definition send_capacity :: nat where "send_capacity = 64"

definition fault_capacity :: nat where "fault_capacity = 16"

definition new_server :: server where
  "new_server = \<lparr>clients = [], FaultCh = [], srv_cluster = None, tasks = []\<rparr>"

definition ActiveClients :: "server \<Rightarrow> nat" where
  "ActiveClients s = length (clients s)"

text \<open>\<open>Broadcast\<close>: a full buffer skips the frame.\<close>

definition Broadcast :: "ClusterSnapshot \<Rightarrow> server \<Rightarrow> server" where
  "Broadcast msg s =
     s\<lparr>clients := map (\<lambda>(c, buf). (c, if length buf < send_capacity then buf @ [msg] else buf)) (clients s)\<rparr>"

definition register :: "nat \<Rightarrow> server \<Rightarrow> server" where
  "register c s =
     (let wasEmpty = (clients s = []);
          s1 = s\<lparr>clients := AList.update c [] (clients s)\<rparr>
      in if wasEmpty then s1\<lparr>tasks := tasks s1 @ [EnsureRunning_call]\<rparr> else s1)"

definition unregister :: "nat \<Rightarrow> server \<Rightarrow> server" where
  "unregister c s =
     (if map_of (clients s) c \<noteq> None then
        let s1 = s\<lparr>clients := filter (\<lambda>(d, _). d \<noteq> c) (clients s)\<rparr>
        in if clients s1 = [] then s1\<lparr>tasks := tasks s1 @ [StopIfNoClients_call]\<rparr> else s1
      else s)"

section \<open>handler.go\<close>

text \<open>What \<open>parseEnvelope\<close> makes of a frame: nothing, or a type and, if it parses, a fault payload.\<close>

datatype frame = Bad_envelope | Env string "fault option"

definition readPump :: "frame \<Rightarrow> server \<Rightarrow> server" where
  "readPump d s =
     (case d of
        Bad_envelope \<Rightarrow> s
      | Env tag payload \<Rightarrow>
          if tag = ''FAULT_INJECT'' then
            (case payload of
               None \<Rightarrow> s
             | Some p \<Rightarrow> if length (FaultCh s) < fault_capacity then s\<lparr>FaultCh := FaultCh s @ [p]\<rparr> else s)
          else s)"

text \<open>\<open>writePump\<close> takes the next message of the client's channel.\<close>

definition writePump :: "nat \<Rightarrow> server \<Rightarrow> server" where
  "writePump c s = s\<lparr>clients := map (\<lambda>(d, buf). (d, if d = c then tl buf else buf)) (clients s)\<rparr>"

section \<open>main.go\<close>

definition clusterSize :: nat where "clusterSize = 5"

definition EnsureRunning :: "server \<Rightarrow> server" where
  "EnsureRunning s =
     (if srv_cluster s \<noteq> None then s
      else let (c, snap) = buildSnapshot (New clusterSize)
           in Broadcast snap (s\<lparr>srv_cluster := Some c\<rparr>))"

definition StopIfNoClients :: "server \<Rightarrow> server" where
  "StopIfNoClients s = (if ActiveClients s > 0 then s else s\<lparr>tasks := Stop_call # tasks s\<rparr>)"

definition Stop :: "server \<Rightarrow> server" where
  "Stop s = s\<lparr>srv_cluster := None\<rparr>"

fun each_target :: "(int \<Rightarrow> cluster \<Rightarrow> cluster option) \<Rightarrow> int list \<Rightarrow> cluster \<Rightarrow> cluster option" where
  "each_target f [] c = Some c"
| "each_target f (i # is) c = (case f i c of None \<Rightarrow> None | Some c1 \<Rightarrow> each_target f is c1)"

text \<open>The switch of \<open>ApplyFault\<close>.\<close>

definition apply_fault :: "fault \<Rightarrow> cluster \<Rightarrow> cluster option" where
  "apply_fault f c =
     (if f_action f = ''kill'' then each_target KillNode (f_targets f) c
      else if f_action f = ''restart'' then each_target RestartNode (f_targets f) c
      else if f_action f = ''partition'' then
        (case f_groups f of [a, b] \<Rightarrow> Some (Partition a b c) | _ \<Rightarrow> Some c)
      else if f_action f = ''heal'' then Some (Heal c)
      else if f_action f = ''submit'' then
        (if f_command f \<noteq> [] then map_option fst (cluster_SubmitCommand (f_command f) c) else Some c)
      else Some c)"

definition ApplyFault :: "fault \<Rightarrow> server \<Rightarrow> server option" where
  "ApplyFault f s =
     (case srv_cluster s of
        None \<Rightarrow> Some s
      | Some c \<Rightarrow> (case apply_fault f c of None \<Rightarrow> None | Some c1 \<Rightarrow> Some (s\<lparr>srv_cluster := Some c1\<rparr>)))"

text \<open>One round of \<open>faultLoop\<close>.\<close>

definition faultLoop :: "server \<Rightarrow> server option" where
  "faultLoop s = (case FaultCh s of [] \<Rightarrow> Some s | f # fs \<Rightarrow> ApplyFault f (s\<lparr>FaultCh := fs\<rparr>))"

text \<open>\<open>emitSnapshot\<close>: the tick of the snapshot loop.\<close>

definition emitSnapshot :: "server \<Rightarrow> server" where
  "emitSnapshot s =
     (case srv_cluster s of
        None \<Rightarrow> s
      | Some c \<Rightarrow> (let (c1, snap) = buildSnapshot c in Broadcast snap (s\<lparr>srv_cluster := Some c1\<rparr>)))"

section \<open>The server as a machine\<close>

datatype server_event =
    Connect nat
  | Disconnect nat
  | Run_task nat
  | Frame frame
  | Written nat
  | Fault_round
  | Snapshot_tick
  | Cluster_event cl_event

definition run_task :: "nat \<Rightarrow> server \<Rightarrow> server" where
  "run_task i s =
     (if i < length (tasks s) then
        let s1 = s\<lparr>tasks := take i (tasks s) @ drop (Suc i) (tasks s)\<rparr>
        in case tasks s ! i of
             EnsureRunning_call \<Rightarrow> EnsureRunning s1
           | StopIfNoClients_call \<Rightarrow> StopIfNoClients s1
           | Stop_call \<Rightarrow> Stop s1
      else s)"

text \<open>Only the nodes, the timers and the clock move the cluster on their own.\<close>

definition internal_event :: "cl_event \<Rightarrow> bool" where
  "internal_event e =
     (case e of Deliver _ \<Rightarrow> True | Timeout _ \<Rightarrow> True | Heartbeat _ \<Rightarrow> True | Changed _ \<Rightarrow> True | Elapse _ \<Rightarrow> True | _ \<Rightarrow> False)"

fun server_step :: "server_event \<Rightarrow> server \<Rightarrow> server option" where
  "server_step (Connect c) s = Some (register c s)"
| "server_step (Disconnect c) s = Some (unregister c s)"
| "server_step (Run_task i) s = Some (run_task i s)"
| "server_step (Frame d) s = Some (readPump d s)"
| "server_step (Written c) s = Some (writePump c s)"
| "server_step Fault_round s = faultLoop s"
| "server_step Snapshot_tick s = Some (emitSnapshot s)"
| "server_step (Cluster_event e) s =
     (case srv_cluster s of
        None \<Rightarrow> Some s
      | Some c \<Rightarrow>
          if internal_event e then (case cluster_step e c of None \<Rightarrow> None | Some c1 \<Rightarrow> Some (s\<lparr>srv_cluster := Some c1\<rparr>))
          else Some s)"

fun server_run :: "server_event list \<Rightarrow> server \<Rightarrow> server option" where
  "server_run [] s = Some s"
| "server_run (e # es) s = (case server_step e s of None \<Rightarrow> None | Some s1 \<Rightarrow> server_run es s1)"

section \<open>The lifecycle when hooks finish at once\<close>

text \<open>
  A connection or disconnection whose hooks run to their end before anything else happens:
  the test of \<open>StopIfNoClients\<close> puts its \<open>Stop\<close> first.
\<close>

definition serial :: "server_event \<Rightarrow> server \<Rightarrow> server option" where
  "serial e s = (case server_step e s of None \<Rightarrow> None | Some s1 \<Rightarrow> server_run [Run_task 0, Run_task 0] s1)"

fun serial_run :: "server_event list \<Rightarrow> server \<Rightarrow> server option" where
  "serial_run [] s = Some s"
| "serial_run (e # es) s = (case serial e s of None \<Rightarrow> None | Some s1 \<Rightarrow> serial_run es s1)"

definition lifecycle_ok :: "server \<Rightarrow> bool" where
  "lifecycle_ok s \<longleftrightarrow> tasks s = [] \<and> (srv_cluster s \<noteq> None) = (clients s \<noteq> [])"

lemma Broadcast_sel [simp]:
  "srv_cluster (Broadcast m s) = srv_cluster s" "tasks (Broadcast m s) = tasks s" "FaultCh (Broadcast m s) = FaultCh s"
  "(clients (Broadcast m s) = []) = (clients s = [])" "length (clients (Broadcast m s)) = length (clients s)"
  by (simp_all add: Broadcast_def)

lemma EnsureRunning_sel [simp]:
  "\<exists>c. srv_cluster (EnsureRunning s) = Some c" "tasks (EnsureRunning s) = tasks s" "FaultCh (EnsureRunning s) = FaultCh s"
  "(clients (EnsureRunning s) = []) = (clients s = [])"
  by (auto simp: EnsureRunning_def split: prod.split)

lemma emitSnapshot_sel [simp]:
  "(srv_cluster (emitSnapshot s) = None) = (srv_cluster s = None)" "tasks (emitSnapshot s) = tasks s"
  "(clients (emitSnapshot s) = []) = (clients s = [])" "FaultCh (emitSnapshot s) = FaultCh s"
  by (auto simp: emitSnapshot_def split: prod.split option.split)

lemma readPump_sel [simp]:
  "srv_cluster (readPump d s) = srv_cluster s" "tasks (readPump d s) = tasks s" "clients (readPump d s) = clients s"
  by (auto simp: readPump_def split: frame.split option.split)

lemma run_task_empty [simp]: "tasks s = [] \<Longrightarrow> run_task i s = s"
  by (simp add: run_task_def)

lemma update_nonempty [simp]: "AList.update k v xs \<noteq> []"
  by (cases xs) (auto split: prod.split)

lemma lifecycle_ok_serial:
  assumes "lifecycle_ok s" and "serial e s = Some s'"
  shows "lifecycle_ok s'"
proof (cases e)
  case (Connect c)
  with assms show ?thesis
    by (cases "clients s = []") (auto simp: serial_def lifecycle_ok_def register_def Let_def run_task_def)
next
  case (Disconnect c)
  with assms show ?thesis
    by (auto simp: serial_def lifecycle_ok_def unregister_def Let_def run_task_def StopIfNoClients_def Stop_def
        ActiveClients_def split: if_splits)
next
  case Fault_round
  with assms show ?thesis
    by (auto simp: serial_def lifecycle_ok_def faultLoop_def ApplyFault_def split: list.splits option.splits)
next
  case (Cluster_event e)
  with assms show ?thesis
    by (auto simp: serial_def lifecycle_ok_def split: option.splits if_splits)
next
  case Snapshot_tick
  have "(srv_cluster (emitSnapshot s) \<noteq> None) = (srv_cluster s \<noteq> None)" by simp
  with assms Snapshot_tick show ?thesis by (simp add: serial_def lifecycle_ok_def del: not_None_eq)
      (metis emitSnapshot_sel(2,3))
next
  case (Written c)
  with assms show ?thesis by (auto simp: serial_def lifecycle_ok_def writePump_def)
qed (use assms in \<open>auto simp: serial_def lifecycle_ok_def\<close>)

section \<open>Bounds\<close>

definition buffers_ok :: "server \<Rightarrow> bool" where
  "buffers_ok s \<longleftrightarrow> (\<forall>(c, buf) \<in> set (clients s). length buf \<le> send_capacity) \<and> length (FaultCh s) \<le> fault_capacity"

lemma buffers_ok_Broadcast: "buffers_ok s \<Longrightarrow> buffers_ok (Broadcast m s)"
  by (auto simp: buffers_ok_def Broadcast_def)

lemma buffers_ok_cong [simp]:
  "buffers_ok (s\<lparr>srv_cluster := c\<rparr>) = buffers_ok s" "buffers_ok (s\<lparr>tasks := ts\<rparr>) = buffers_ok s"
  by (simp_all add: buffers_ok_def)

lemma set_alist_update: "x \<in> set (AList.update k v xs) \<Longrightarrow> x = (k, v) \<or> x \<in> set xs"
  by (induction xs) (auto split: if_splits)

lemma buffers_ok_register: "buffers_ok s \<Longrightarrow> buffers_ok (register c s)"
  by (auto simp: buffers_ok_def register_def Let_def dest!: set_alist_update)

lemma buffers_ok_task: "buffers_ok s \<Longrightarrow> buffers_ok (run_task i s)"
  by (auto simp: run_task_def Let_def EnsureRunning_def StopIfNoClients_def Stop_def buffers_ok_Broadcast
      split: task.split prod.split)

lemma buffers_ok_step: "server_step e s = Some s' \<Longrightarrow> buffers_ok s \<Longrightarrow> buffers_ok s'"
proof (cases e)
  case (Connect c)
  assume "server_step e s = Some s'" "buffers_ok s"
  with Connect buffers_ok_register show ?thesis by auto
next
  case (Disconnect c)
  assume "server_step e s = Some s'" "buffers_ok s"
  with Disconnect show ?thesis by (auto simp: unregister_def Let_def buffers_ok_def split: if_splits)
next
  case (Run_task i)
  assume "server_step e s = Some s'" "buffers_ok s"
  with Run_task buffers_ok_task show ?thesis by auto
next
  case (Written c)
  assume "server_step e s = Some s'" "buffers_ok s"
  with Written show ?thesis by (fastforce simp: buffers_ok_def writePump_def)
qed (auto simp: readPump_def buffers_ok_def faultLoop_def ApplyFault_def emitSnapshot_def Broadcast_def
      split: frame.splits option.splits list.splits if_splits prod.splits)

lemma buffers_ok_run: "server_run es s = Some s' \<Longrightarrow> buffers_ok s \<Longrightarrow> buffers_ok s'"
  by (induction es arbitrary: s) (auto split: option.splits dest: buffers_ok_step)

section \<open>Properties\<close>

text \<open>
  C38: The cluster lives while someone watches: as long as each lifecycle hook finishes before
  the next event, after any sequence of connections, disconnections, frames, faults and cluster
  events the simulation is running exactly when at least one client is connected.
\<close>

theorem cluster_runs_iff_watched:
  assumes "serial_run es new_server = Some s"
  shows "(srv_cluster s \<noteq> None) = (ActiveClients s > 0)"
proof -
  have "lifecycle_ok s'" if "serial_run es s = Some s'" "lifecycle_ok s" for es s s'
    using that by (induction es arbitrary: s) (auto split: option.splits intro: lifecycle_ok_serial)
  from this [OF assms] show ?thesis by (simp add: lifecycle_ok_def new_server_def ActiveClients_def)
qed

lemma cluster_runs_iff_watched_witness:
  "let s = the (serial_run [Connect 1, Connect 2, Disconnect 1] new_server)
   in ActiveClients s = 1 \<and> srv_cluster s \<noteq> None"
proof -
  let ?r = "serial_run [Connect 1, Connect 2, Disconnect 1] new_server"
  have r: "?r \<noteq> None" and n: "ActiveClients (the ?r) = 1" by code_simp+
  from cluster_runs_iff_watched [OF option.collapse [OF r, symmetric]] n show ?thesis
    by (simp only: Let_def zero_less_one simp_thms)
qed

text \<open>
  The hooks race: \<open>StopIfNoClients\<close> counts the clients and stops the cluster under different
  locks. A page that reloads at the wrong moment is connected to a server whose cluster has
  been stopped, and no hook is left to start it.
\<close>

theorem reload_can_lose_the_cluster:
  "let s = the (server_run [Connect 1, Run_task 0, Disconnect 1, Run_task 0, Connect 2, Run_task 1, Run_task 0] new_server)
   in ActiveClients s = 1 \<and> tasks s = [] \<and> srv_cluster s = None"
  by code_simp

text \<open>
  Bounds of the server: on every interleaving no client's send buffer holds more than 64
  snapshots and the fault channel no more than 16 faults; what does not fit is dropped.
\<close>

theorem server_buffers_bounded:
  assumes "server_run es new_server = Some s"
  shows "list_all (\<lambda>(c, buf). length buf \<le> 64) (clients s) \<and> length (FaultCh s) \<le> 16"
  using buffers_ok_run [OF assms]
  by (auto simp: buffers_ok_def new_server_def list_all_iff send_capacity_def fault_capacity_def)

lemma server_buffers_bounded_witness:
  "let s = the (server_run (Connect 1 # Run_task 0 # replicate 70 Snapshot_tick) new_server)
   in map (\<lambda>(c, buf). length buf) (clients s) = [64] \<and> list_all (\<lambda>(c, buf). length buf \<le> 64) (clients s)"
proof -
  let ?r = "server_run (Connect 1 # Run_task 0 # replicate 70 Snapshot_tick) new_server"
  have r: "?r \<noteq> None" and n: "map (\<lambda>(c, buf). length buf) (clients (the ?r)) = [64]" by code_simp+
  from server_buffers_bounded [OF option.collapse [OF r, symmetric]] n show ?thesis
    by (simp only: Let_def simp_thms)
qed

end
