(* ===== verification/Wire.thy ===== *)
theory Wire
  imports Hub Raft_WS Side_Panels Raft_Steps Fault_UI_Properties
begin

text \<open>
  What crosses the WebSocket: the JSON of a cluster snapshot as the frontend reads it (the
  field tags of \<open>backend/raft/types.go\<close> and \<open>backend/simulator/cluster.go\<close>), the frame the
  server makes of an outbound message of the hook, and the faults as events of the cluster.
\<close>

section \<open>Snapshots\<close>

definition wire_entry_of :: "LogEntry \<Rightarrow> wire_entry" where
  "wire_entry_of e = \<lparr>e_index = int (le_index e), e_term = int (le_term e), e_command = le_command e\<rparr>"

definition wire_node_of :: "Snapshot \<Rightarrow> wire_node" where
  "wire_node_of s =
     \<lparr>n_id = int (sn_id s), n_role = sn_role s, n_term = int (sn_term s), n_alive = sn_alive s,
      n_votedFor = Some (sn_votedFor s), n_commitIndex = int (sn_commitIndex s),
      n_lastApplied = int (sn_lastApplied s), w_log = Some (map wire_entry_of (sn_log s))\<rparr>"

definition wire_rpc_of :: "InFlightMessage \<Rightarrow> rpc" where
  "wire_rpc_of m =
     \<lparr>m_from = int (if_from m), m_to = int (if_to m), m_type = if_type m, m_term = int (if_term m)\<rparr>"

definition wire_payload :: "ClusterSnapshot \<Rightarrow> payload" where
  "wire_payload s =
     \<lparr>p_nodes = Some (map wire_node_of (cs_nodes s)), p_inFlight = Some (map wire_rpc_of (cs_inFlight s))\<rparr>"

text \<open>What the page shows of a node: id, role, term, life, commands and committed dots of its log.\<close>

definition shown_node :: "view_node \<Rightarrow> int \<times> string \<times> int \<times> bool \<times> (string \<times> bool) list" where
  "shown_node v = (n_id v, n_role v, n_term v, n_alive v, map (\<lambda>e. (e_command e, e_committed e)) (n_log v))"

definition node_truth :: "node \<Rightarrow> int \<times> string \<times> int \<times> bool \<times> (string \<times> bool) list" where
  "node_truth n = (int (node_id n), role_str (role n), int (currentTerm n), alive n,
     map (\<lambda>k. (le_command (rlog n ! k), k < commitIndex n)) [0..<length (rlog n)])"

lemma view_of_truth:
  assumes "indexed 0 (rlog n)"
  shows "shown_node (view_of q (wire_node_of (snapshot n))) = node_truth n"
proof -
  have "map (\<lambda>e. (e_command e, e_committed e)) (map (mark_committed (int (commitIndex n))) (map wire_entry_of (rlog n))) =
      map (\<lambda>k. (le_command (rlog n ! k), k < commitIndex n)) [0..<length (rlog n)]"
    using assms
    by (intro nth_equalityI) (auto simp: mark_committed_def wire_entry_of_def indexed_def)
  then show ?thesis
    by (simp add: shown_node_def node_truth_def view_of_def wire_node_of_def snapshot_def del: map_map)
qed

lemma map2_shown:
  "length ts = length ns \<Longrightarrow> list_all (\<lambda>n. indexed 0 (rlog n)) ns \<Longrightarrow>
     map shown_node (map2 view_of ts (map wire_node_of (map snapshot ns))) = map node_truth ns"
  by (induction ts ns rule: list_induct2) (simp_all add: view_of_truth)

text \<open>The keys React gives the rows of a node's log.\<close>

lemma log_rows_keys:
  assumes "indexed 0 (rlog n)"
  shows "distinct (map fst (log_rows (view_of q (wire_node_of (snapshot n)))))"
proof -
  have "map fst (log_rows (view_of q (wire_node_of (snapshot n)))) = rev (map int (map le_index (rlog n)))"
    by (simp add: log_rows_def view_of_def wire_node_of_def snapshot_def mark_committed_def wire_entry_of_def
        rev_map comp_def)
  then show ?thesis
    using indexed_upt [OF assms] by (simp add: distinct_map inj_on_def del: upt_Suc map_map)
qed

section \<open>Messages\<close>

definition frame_of :: "wire_message \<Rightarrow> frame" where
  "frame_of m = (case m of FAULT_INJECT f \<Rightarrow> Env ''FAULT_INJECT'' (Some f) | CLIENT_COMMAND c \<Rightarrow> Env ''CLIENT_COMMAND'' None)"

section \<open>Faults as cluster events\<close>

definition fault_events :: "fault \<Rightarrow> cl_event list" where
  "fault_events f =
     (if f_action f = ''kill'' then map KillEv (f_targets f)
      else if f_action f = ''restart'' then map RestartEv (f_targets f)
      else if f_action f = ''partition'' then (case f_groups f of [a, b] \<Rightarrow> [PartitionEv a b] | _ \<Rightarrow> [])
      else if f_action f = ''heal'' then [HealEv]
      else if f_action f = ''submit'' then (if f_command f \<noteq> [] then [Submit (f_command f)] else [])
      else [])"

lemma each_target_run:
  "each_target KillNode is c = cluster_run (map KillEv is) c"
  "each_target RestartNode is c = cluster_run (map RestartEv is) c"
  by (induction "is" arbitrary: c) (simp_all split: option.split)

lemma apply_fault_run: "apply_fault f c = cluster_run (fault_events f) c"
  by (simp add: apply_fault_def fault_events_def each_target_run split: list.split option.split)

fun apply_faults :: "fault list \<Rightarrow> cluster \<Rightarrow> cluster option" where
  "apply_faults [] c = Some c"
| "apply_faults (f # fs) c = (case apply_fault f c of None \<Rightarrow> None | Some c1 \<Rightarrow> apply_faults fs c1)"

lemma apply_faults_run: "apply_faults fs c = cluster_run (concat (map fault_events fs)) c"
  by (induction fs arbitrary: c) (simp_all add: apply_fault_run cluster_run_append split: option.split)

lemma fault_events_named: "fault_ids N f \<Longrightarrow> e \<in> set (fault_events f) \<Longrightarrow> names_nodes N e"
  by (auto simp: fault_events_def fault_ids_def ids_below_def list_all_iff names_nodes_def split: if_splits list.splits)

end
