(* ===== verification/Spec2Isabelle.thy ===== *)
theory Spec2Isabelle
  imports Store_Properties Raft_Properties Raft_Log_Properties Raft_Safety Raft_Liveness Raft_Service Fault_UI_Properties Raft_WS_Properties
    Mobile_Drawer Canvas Side_Panels Page_Properties App_Shell Landing_Page Landing_Scroll Hint_Text Page_Claims Page_Access Hub Wire
begin

text \<open>
  A verification development for the Raft visualizer: a Go server that simulates a Raft cluster
  (\<open>src/backend\<close>) and a React page that shows it and injects faults (\<open>src/frontend/src\<close>).

  \<^bold>\<open>The program.\<close> \<open>raft/\<close> holds one Raft node: a mutex-protected state machine whose handlers
  run on a mailbox, an election timer and a heartbeat goroutine. \<open>simulator/cluster.go\<close> connects
  the nodes by bounded mailboxes with a partition table and a window of messages in flight, and
  makes snapshots. \<open>ws/\<close> and \<open>main.go\<close> send the snapshots to every connected page and apply the
  faults read from them. On the page \<open>hooks/useRaftWS.js\<close> owns the WebSocket and feeds
  \<open>store/clusterStore.js\<close>, which derives an event log and pulse tokens from successive snapshots;
  the components read the store, and the control bar, the mobile button and the clicks on the
  canvas write to it and send faults.

  \<^bold>\<open>Theories.\<close>
  \<^item> \<open>Prelude\<close>: lists, association lists, decimal strings, the reachability relation and the two
    locales of invariants every state machine below instantiates.
  \<^item> \<open>Cluster_Store\<close>, \<open>Store_Events\<close>, \<open>Store_Invariant\<close>, \<open>Store_Properties\<close>: \<open>clusterStore.js\<close>.
    The module counters \<open>nextEventId\<close> and \<open>nextPulseSeq\<close> are fields of the store record; the
    clock's text is an argument of the update. \<open>Store_Events\<close> proves the event derivations equal to
    references, \<open>Store_Invariant\<close> the invariant of all actions.
  \<^item> \<open>Raft_Node\<close>: \<open>types.go\<close>, \<open>node.go\<close>, \<open>election.go\<close>, \<open>replication.go\<close>. A handler takes a node and
    gives the node, the messages it sends, or \<open>None\<close> where the Go code would panic.
  \<^item> \<open>Raft_Cluster\<close>: \<open>cluster.go\<close> as a step function on events (deliver, timeout, heartbeat,
    submit, kill, restart, partition, heal, elapsed time).
  \<^item> \<open>Raft_Lemmas\<close>: node-level facts, among them the closed form of the append loop.
    \<open>Raft_Network\<close>: an inductive network of nodes and an unordered pool of messages, with its
    reachability and identity invariants. \<open>Raft_Votes\<close>: votes and the quorum argument
    (locale \<open>quorum_system\<close>). \<open>Raft_Log\<close>: well-formed logs. \<open>Raft_Simulation\<close>: the cluster is
    simulated by the network. \<open>Raft_Steps\<close>: what a cluster run keeps. \<open>Raft_Matching\<close>: who was
    elected and the links of the logs, the invariant behind log matching. \<open>Raft_Repair\<close>: rounds of
    request and reply. \<open>Raft_Properties\<close>, \<open>Raft_Log_Properties\<close>: the properties and the
    counterexample schedules.
  \<^item> Commitment: \<open>Raft_Events\<close> (what one event does to log, commit and match indexes),
    \<open>Raft_Trace\<close> (the history of the network, the condition \<open>sound_acks\<close>), \<open>Raft_Lines\<close> (all logs
    are prefixes of logs of leaders), \<open>Raft_Completeness\<close> (what a majority supports every later
    leader holds), \<open>Raft_Commit\<close> (what is committed was chosen), \<open>Raft_Safety\<close> (leader completeness
    and state machine safety of the cluster, and the schedule that breaks them without the
    condition). \<open>Raft_Liveness\<close>: an election in a quiet cluster succeeds, and every reachable state
    has a schedule to a quiet one. \<open>Raft_Service\<close>: from there any command is committed on every
    node: mailboxes are emptied by crashes and restarts, the leader takes the command, heartbeat
    rounds repair one log after the other and announce the commit index.
  \<^item> \<open>Fault_UI\<close>, \<open>Fault_UI_Properties\<close>: \<open>ControlPanel.jsx\<close>, \<open>MobileFab.jsx\<close>, the clicks of
    \<open>ClusterView.jsx\<close> and the highlight of \<open>NodeCard.jsx\<close>.
  \<^item> \<open>Raft_WS\<close>, \<open>Raft_WS_Properties\<close>: \<open>useRaftWS.js\<close>, its sockets, timers and coalescing.
  \<^item> \<open>Canvas\<close>: layout, edges and fit loop of \<open>ClusterView.jsx\<close>; \<open>Mobile_Drawer\<close>:
    \<open>MobileDrawer.jsx\<close>; \<open>Side_Panels\<close>: \<open>LogPanel.jsx\<close>, \<open>EventStream.jsx\<close>, \<open>HintCard.jsx\<close> and the
    header numbers of \<open>App.jsx\<close>; \<open>App_Shell\<close>: the state of \<open>App.jsx\<close> and the fit signal;
    \<open>Landing\<close>, \<open>Landing_Scroll\<close>, \<open>Landing_Page\<close>: sections and timers, listeners and observer,
    and contents of \<open>IntroLanding.jsx\<close>.
  \<^item> \<open>Ui_Text\<close>: \<open>i18n/uiText.js\<close>, texts as lists of code points; \<open>Hint_Text\<close>: the texts of the
    hint card; \<open>Page_Text\<close>, \<open>Page_Properties\<close>: the labels, classes and values that cards, panels,
    bars and header write, and that they agree with each other.
  \<^item> The page as a whole: \<open>Markup\<close> (element trees, the state of all components together),
    \<open>Markup_Views\<close> and \<open>Markup_App\<close> (the JSX of every component, with the handlers as functions
    on the page), \<open>Page_System\<close> (starting and leaving the demo, and the events: a handler of a
    rendered element fires, the browser reports), \<open>Page_Invariant\<close> (every handler on every page keeps
    the invariants of all components), \<open>Page_Claims\<close> (what goes out through the socket, and that
    clicks get there), \<open>Page_Access\<close> (names of buttons and languages, over all trees).
  \<^item> \<open>Hub\<close>: \<open>ws/hub.go\<close>, \<open>ws/handler.go\<close>, \<open>main.go\<close>; \<open>Wire\<close>: the JSON between server and page.
  \<^item> This theory: the properties that span server and page.

  \<^bold>\<open>Conventions.\<close> Go's \<open>int\<close> fields that only count up (terms, indexes, ids) are naturals,
  node ids that come from a client are integers, and an index out of range is \<open>None\<close>. JavaScript
  numbers that are ids, terms and counters are integers; pixels are rationals and canvas
  coordinates reals. A goroutine's step is atomic because it runs under the node's lock, a React
  effect because it runs to its end; every interleaving of steps is an event list.

  \<^bold>\<open>Bounds.\<close> Mailboxes 128, in-flight window 256 and 150 ms, send buffers 64, fault channel 16,
  event log 60, fit attempts 24: each a definition with the number of the source, and each a
  bound that is proved. No definition uses fuel; the loops are structural or have a measure, and
  log repair is shown to need no more rounds than \<open>nextIndex\<close> says.

  \<^bold>\<open>What is not modelled.\<close> Drawing: CSS, React Flow and the SVG path of an edge (a parameter of the
  trees, as is the text of a height in pixels), the position of a card in the tree (\<open>Canvas\<close> has
  it); what the browser measures (an argument) and focus; the HTTP upgrade, ping deadlines, static
  file serving and the listening address of the
  server, JSON syntax itself, the randomness of the
  election timeouts (a timer may fire whenever it is armed) and real time (an event lets any time
  pass). The browser's WebSocket and timers are modelled by when they may call back, as their
  standards say.
\<close>

section \<open>Properties that span components\<close>

text \<open>
  C11: End to end: whatever the store held, after it ingests the snapshot of a cluster in any
  reachable state it shows exactly the cluster: the nodes 0 to N-1 with their roles, terms and
  lives, every log command by command, an entry marked committed exactly when its position is
  below the node's commit index, and the RPCs in flight, none cut off.
\<close>

theorem store_shows_cluster:
  assumes "cluster_run es (New N) = Some c"
  shows "let snap = snd (buildSnapshot c); s' = applyStateUpdate t1 t2 (Some (wire_payload snap)) s
    in map shown_node (nodes s') = map node_truth (cl_nodes c) \<and> map n_id (nodes s') = map int [0..<N] \<and>
       inFlight s' = map wire_rpc_of (cs_inFlight snap)"
proof -
  obtain n where n: "net_reach any_event N n" "sim c n"
    using cluster_run_reach [OF assms restricts_any schedule_any] by blast
  have net: "net_ok N n" by (rule net_identity.reach_inv [OF n(1)])
  have "logs_inv n" by (rule logs.reach_inv [OF n(1)])
  with n(2) have idx: "list_all (\<lambda>n. indexed 0 (rlog n)) (cl_nodes c)"
    by (auto simp: logs_inv_def log_ok_def sim_def list_all_iff)
  have ids: "map node_id (cl_nodes c) = [0..<N]"
    using net n(2) by (intro nth_equalityI) (auto simp: net_ok_def node_ok_def sim_def)
  let ?snap = "snd (buildSnapshot c)"
  let ?s' = "applyStateUpdate t1 t2 (Some (wire_payload ?snap)) s"
  have raw: "raw_nodes (Some (wire_payload ?snap)) = map wire_node_of (map snapshot (cl_nodes c))"
    by (simp add: raw_nodes_def wire_payload_def buildSnapshot_def Let_def)
  have 1: "map shown_node (nodes ?s') = map node_truth (cl_nodes c)"
    using idx by (simp add: applyStateUpdate_eq update_nodes_def ingest_nodes_eq raw map2_shown del: map_map)
  have "map n_id (map wire_node_of (map snapshot (cl_nodes c))) = map int (map node_id (cl_nodes c))"
    by (simp add: wire_node_of_def snapshot_def)
  then have 2: "map n_id (nodes ?s') = map int [0..<N]" by (simp only: applyStateUpdate_ids raw ids)
  have "length (cs_inFlight ?snap) \<le> 256"
    using pruneInFlight_length [of "clock c" "cl_inFlight c"] by (simp add: buildSnapshot_def Let_def maxInFlight_def)
  then have 3: "inFlight ?s' = map wire_rpc_of (cs_inFlight ?snap)"
    by (simp add: applyStateUpdate_eq next_in_flight_def wire_payload_def)
  from 1 2 3 show ?thesis by (simp only: Let_def simp_thms)
qed

lemma store_shows_cluster_witness:
  "let c = the (cluster_run [Timeout 0, Deliver 1, Deliver 0, Submit ''x'', Deliver 1, Deliver 1, Deliver 0, Deliver 0] (New 2));
       s' = applyStateUpdate [] [] (Some (wire_payload (snd (buildSnapshot c)))) (init_store (\<lambda>k. None))
   in map node_truth (cl_nodes c) = [(0, ''leader'', 1, True, [(''x'', True)]), (1, ''follower'', 1, True, [(''x'', False)])] \<and>
      map shown_node (nodes s') = map node_truth (cl_nodes c)"
proof -
  let ?r = "cluster_run [Timeout 0, Deliver 1, Deliver 0, Submit ''x'', Deliver 1, Deliver 1, Deliver 0, Deliver 0] (New 2)"
  have r: "?r \<noteq> None" and t: "map node_truth (cl_nodes (the ?r)) =
      [(0, ''leader'', 1, True, [(''x'', True)]), (1, ''follower'', 1, True, [(''x'', False)])]"
    by code_simp+
  from store_shows_cluster [OF option.collapse [OF r, symmetric], of "[]" "[]" "init_store (\<lambda>k. None)"] t
  show ?thesis by (simp only: Let_def simp_thms)
qed



text \<open>
  Mobile commands are lost: the command bar of the mobile drawer sends a CLIENT_COMMAND,
  which the server's read pump ignores in every state; the same command sent as a fault
  reaches the fault channel whenever it has room.
\<close>

theorem mobile_command_is_ignored:
  "readPump (frame_of (CLIENT_COMMAND cmd)) srv = srv \<and>
   FaultCh (readPump (frame_of (FAULT_INJECT f)) srv) =
     (if length (FaultCh srv) < 16 then FaultCh srv @ [f] else FaultCh srv)"
  by (simp add: readPump_def frame_of_def fault_capacity_def)

end
